(* ===== verification/Rust_Prelude.thy ===== *)
theory Rust_Prelude
  imports Main "HOL-Library.Sublist" "HOL-Library.Code_Target_Nat"
begin

text \<open>
  Shared vocabulary of the development: the part of Rust's standard library that the
  modelled crates use, and the generic lemmas the component theories rest on.

  A Rust \<open>char\<close> is a Unicode scalar value, modelled by its code point (a \<open>nat\<close>); a
  Rust \<open>str\<close> or \<open>String\<close> is the list of its code points. Byte lengths, byte offsets and
  byte slices are derived from the UTF-8 width of each code point, so a slice that would
  not fall on a character boundary (a panic in Rust) is the value \<open>None\<close>. A \<open>usize\<close> is a
  \<open>nat\<close>; where the source saturates, the bound \<open>USIZE_MAX\<close> is written out.
\<close>

section \<open>Types\<close>

type_synonym rchar = nat
type_synonym rstr = "rchar list"

text \<open>Results: \<open>Inl\<close> is \<open>Err\<close>, \<open>Inr\<close> is \<open>Ok\<close>.\<close>

type_synonym ('e, 'a) rresult = "'e + 'a"

definition lit :: "string \<Rightarrow> rstr" where
  "lit s = map of_char s"

text \<open>Collections: \<open>str_facts\<close> gathers the characterisations of the string operations.\<close>

named_theorems str_facts "characterisations of Rust's string operations"
named_theorems trim_facts "algebra of trimming"

section \<open>Characters\<close>

abbreviation LF :: rchar where "LF \<equiv> 10"
abbreviation CR :: rchar where "CR \<equiv> 13"
abbreviation SP :: rchar where "SP \<equiv> 32"
abbreviation TAB :: rchar where "TAB \<equiv> 9"

text \<open>Rust's \<open>char::is_whitespace\<close>: the Unicode property \<open>White_Space\<close>.\<close>

definition is_whitespace :: "rchar \<Rightarrow> bool" where
  "is_whitespace c \<longleftrightarrow>
     (9 \<le> c \<and> c \<le> 13) \<or> c = 32 \<or> c = 133 \<or> c = 160 \<or> c = 5760 \<or>
     (8192 \<le> c \<and> c \<le> 8202) \<or> c = 8232 \<or> c = 8233 \<or> c = 8239 \<or> c = 8287 \<or> c = 12288"

text \<open>Rust's \<open>char::len_utf8\<close> and \<open>str::len\<close>.\<close>

definition len_utf8 :: "rchar \<Rightarrow> nat" where
  "len_utf8 c = (if c < 128 then 1 else if c < 2048 then 2 else if c < 65536 then 3 else 4)"

definition blen :: "rstr \<Rightarrow> nat" where
  "blen s = sum_list (map len_utf8 s)"

definition is_ascii_digit :: "rchar \<Rightarrow> bool" where
  "is_ascii_digit c \<longleftrightarrow> 48 \<le> c \<and> c \<le> 57"

definition to_ascii_lower_char :: "rchar \<Rightarrow> rchar" where
  "to_ascii_lower_char c = (if 65 \<le> c \<and> c \<le> 90 then c + 32 else c)"

definition to_ascii_lowercase :: "rstr \<Rightarrow> rstr" where
  "to_ascii_lowercase s = map to_ascii_lower_char s"

section \<open>String operations\<close>

definition trim_start :: "rstr \<Rightarrow> rstr" where
  "trim_start s = dropWhile is_whitespace s"

definition trim_end :: "rstr \<Rightarrow> rstr" where
  "trim_end s = rev (dropWhile is_whitespace (rev s))"

definition trim :: "rstr \<Rightarrow> rstr" where
  "trim s = trim_end (trim_start s)"

definition trim_end_matches :: "rchar \<Rightarrow> rstr \<Rightarrow> rstr" where
  "trim_end_matches c s = rev (dropWhile (\<lambda>x. x = c) (rev s))"

fun strip_prefix :: "'a list \<Rightarrow> 'a list \<Rightarrow> 'a list option" where
  "strip_prefix [] s = Some s"
| "strip_prefix (p # ps) [] = None"
| "strip_prefix (p # ps) (c # s) = (if p = c then strip_prefix ps s else None)"

definition strip_suffix :: "'a list \<Rightarrow> 'a list \<Rightarrow> 'a list option" where
  "strip_suffix p s = map_option rev (strip_prefix (rev p) (rev s))"

definition starts_with :: "'a list \<Rightarrow> 'a list \<Rightarrow> bool" where
  "starts_with p s \<longleftrightarrow> strip_prefix p s \<noteq> None"

definition ends_with :: "'a list \<Rightarrow> 'a list \<Rightarrow> bool" where
  "ends_with p s \<longleftrightarrow> strip_suffix p s \<noteq> None"

text \<open>\<open>str::split(c)\<close>: always at least one piece.\<close>

fun split_on :: "'a \<Rightarrow> 'a list \<Rightarrow> 'a list list" where
  "split_on c [] = [[]]"
| "split_on c (x # s) =
     (if x = c then [] # split_on c s
      else (case split_on c s of [] \<Rightarrow> [[x]] | p # ps \<Rightarrow> (x # p) # ps))"

fun join :: "'a list \<Rightarrow> 'a list list \<Rightarrow> 'a list" where
  "join sep [] = []"
| "join sep [x] = x"
| "join sep (x # y # xs) = x @ sep @ join sep (y # xs)"

text \<open>
  \<open>str::lines\<close>: pieces ended by a line feed, without it and without one carriage return
  before it; a last piece without a line feed is kept as it is when it is not empty.
\<close>

definition drop_cr :: "rstr \<Rightarrow> rstr" where
  "drop_cr s = (case strip_suffix [CR] s of Some t \<Rightarrow> t | None \<Rightarrow> s)"

definition str_lines :: "rstr \<Rightarrow> rstr list" where
  "str_lines s =
     (let ps = split_on LF s
      in map drop_cr (butlast ps) @ (if last ps = [] then [] else [last ps]))"

text \<open>\<open>str::find\<close> with a string pattern, as a character index.\<close>

fun find_sub :: "'a list \<Rightarrow> 'a list \<Rightarrow> nat option" where
  "find_sub p [] = (if p = [] then Some 0 else None)"
| "find_sub p (c # s) =
     (if starts_with p (c # s) then Some 0 else map_option Suc (find_sub p s))"

definition contains_str :: "'a list \<Rightarrow> 'a list \<Rightarrow> bool" where
  "contains_str p s \<longleftrightarrow> find_sub p s \<noteq> None"

text \<open>\<open>split_once\<close> and \<open>rsplit_once\<close> split at the first and at the last occurrence of a character,
  \<open>split_once_str\<close> at the first occurrence of a string.\<close>

definition split_once :: "rchar \<Rightarrow> rstr \<Rightarrow> (rstr \<times> rstr) option" where
  "split_once c s = (if c \<in> set s then Some (takeWhile (\<lambda>x. x \<noteq> c) s, drop 1 (dropWhile (\<lambda>x. x \<noteq> c) s)) else None)"

definition rsplit_once :: "rchar \<Rightarrow> rstr \<Rightarrow> (rstr \<times> rstr) option" where
  "rsplit_once c s = map_option (\<lambda>(a, b). (rev b, rev a)) (split_once c (rev s))"

definition split_once_str :: "rstr \<Rightarrow> rstr \<Rightarrow> (rstr \<times> rstr) option" where
  "split_once_str d s = map_option (\<lambda>i. (take i s, drop (i + length d) s)) (find_sub d s)"

text \<open>The position of the first element satisfying a predicate (\<open>Iterator::position\<close>).\<close>

fun position :: "('a \<Rightarrow> bool) \<Rightarrow> 'a list \<Rightarrow> nat option" where
  "position P [] = None"
| "position P (x # xs) = (if P x then Some 0 else map_option Suc (position P xs))"

text \<open>\<open>Vec::last\<close> and \<open>Vec::first\<close>.\<close>

definition last_opt :: "'a list \<Rightarrow> 'a option" where
  "last_opt xs = (if xs = [] then None else Some (last xs))"

definition first_opt :: "'a list \<Rightarrow> 'a option" where
  "first_opt xs = (case xs of [] \<Rightarrow> None | x # _ \<Rightarrow> Some x)"

definition ends_empty :: "'a list list \<Rightarrow> bool" where
  "ends_empty xs \<longleftrightarrow> xs \<noteq> [] \<and> last xs = []"

text \<open>\<open>Vec::insert\<close> and \<open>Vec::remove\<close>; both panic out of range, which is \<open>None\<close> here.\<close>

definition vec_insert :: "nat \<Rightarrow> 'a \<Rightarrow> 'a list \<Rightarrow> 'a list option" where
  "vec_insert i x xs = (if i \<le> length xs then Some (take i xs @ x # drop i xs) else None)"

definition vec_remove :: "nat \<Rightarrow> 'a list \<Rightarrow> 'a list option" where
  "vec_remove i xs = (if i < length xs then Some (take i xs @ drop (Suc i) xs) else None)"

text \<open>Dropping the oldest entries of a queue until at most \<open>n\<close> remain.\<close>

fun evict_front :: "nat \<Rightarrow> 'a list \<Rightarrow> 'a list" where
  "evict_front n [] = []"
| "evict_front n (x # xs) = (if length (x # xs) > n then evict_front n xs else x # xs)"

text \<open>Printing an unsigned integer in decimal.\<close>

fun show_nat :: "nat \<Rightarrow> rstr" where
  "show_nat n = (if n < 10 then [48 + n] else show_nat (n div 10) @ [48 + n mod 10])"

declare show_nat.simps [simp del]

section \<open>Machine arithmetic\<close>

definition USIZE_MAX :: nat where "USIZE_MAX = 2 ^ 64 - 1"

definition sat_add :: "nat \<Rightarrow> nat \<Rightarrow> nat" where
  "sat_add a b = min (a + b) USIZE_MAX"

section \<open>Lemmas\<close>

subsection \<open>Prefixes and suffixes\<close>

lemma strip_prefix_iff [str_facts]: "strip_prefix p s = Some r \<longleftrightarrow> s = p @ r"
  by (induction p s rule: strip_prefix.induct) auto

lemma strip_prefix_append [simp]: "strip_prefix p (p @ r) = Some r"
  by (simp add: strip_prefix_iff)

lemma strip_prefix_None [str_facts]: "strip_prefix p s = None \<longleftrightarrow> (\<nexists>r. s = p @ r)"
  by (metis not_None_eq strip_prefix_iff)

lemma starts_with_iff [str_facts]: "starts_with p s \<longleftrightarrow> (\<exists>r. s = p @ r)"
  by (auto simp: starts_with_def strip_prefix_iff)

lemma starts_with_prefix: "starts_with p s \<longleftrightarrow> prefix p s"
  by (auto simp: starts_with_iff prefix_def)

lemma starts_with_append [simp]: "starts_with p (p @ r)"
  by (auto simp: starts_with_iff)

lemma starts_with_take: "starts_with p s \<longleftrightarrow> take (length p) s = p"
  by (metis append_eq_conv_conj starts_with_iff append_take_drop_id)

lemma starts_with_Nil [simp]: "starts_with [] s"
  by (simp add: starts_with_def)

lemma starts_with_Cons [simp]:
  "starts_with (p # ps) (c # s) \<longleftrightarrow> p = c \<and> starts_with ps s"
  "\<not> starts_with (p # ps) []"
  by (auto simp: starts_with_def)

lemma strip_suffix_iff [str_facts]: "strip_suffix p s = Some r \<longleftrightarrow> s = r @ p"
  by (auto simp: strip_suffix_def strip_prefix_iff) (metis rev_append rev_rev_ident)

lemma ends_with_iff [str_facts]: "ends_with p s \<longleftrightarrow> (\<exists>r. s = r @ p)"
  by (auto simp: ends_with_def strip_suffix_iff)

lemma drop_cr_length: "length (drop_cr s) \<le> length s"
  by (auto simp: drop_cr_def strip_suffix_iff split: option.splits)

subsection \<open>Searching\<close>

lemma position_Some_iff:
  "position P xs = Some i \<longleftrightarrow> i < length xs \<and> P (xs ! i) \<and> (\<forall>j<i. \<not> P (xs ! j))"
proof (induction xs arbitrary: i)
  case Nil
  then show ?case by simp
next
  case (Cons x xs)
  show ?case
    by (cases i) (auto simp: Cons less_Suc_eq_0_disj)
qed

lemma position_None_iff: "position P xs = None \<longleftrightarrow> (\<forall>x \<in> set xs. \<not> P x)"
  by (induction xs) auto

lemma split_once_mid: "c \<notin> set a \<Longrightarrow> split_once c (a @ c # b) = Some (a, b)"
  by (simp add: split_once_def takeWhile_append dropWhile_append)

lemma rsplit_once_mid: "c \<notin> set b \<Longrightarrow> rsplit_once c (a @ c # b) = Some (a, b)"
  using split_once_mid[of c "rev b" "rev a"] by (simp add: rsplit_once_def)

lemma trim_end_matches_Cons: "x \<noteq> c \<Longrightarrow> \<exists>t. trim_end_matches c (x # s) = x # t"
  by (simp add: trim_end_matches_def dropWhile_append) (metis rev_rev_ident)

lemma split_on_first: "x \<noteq> c \<Longrightarrow> \<exists>t. hd (split_on c (x # s)) = x # t"
  by (cases "split_on c s") auto

lemma last_opt_mem: "last_opt xs = Some x \<Longrightarrow> x \<in> set xs"
  by (auto simp: last_opt_def split: if_splits)

lemma find_sub_Some_split:
  "find_sub p s = Some i \<Longrightarrow> \<exists>r. s = take i s @ p @ r \<and> i \<le> length s"
proof (induction p s arbitrary: i rule: find_sub.induct)
  case (1 p)
  then show ?case by (auto split: if_splits)
next
  case (2 p c s)
  then show ?case
    by (cases i) (auto simp: starts_with_iff split: if_splits)
qed

lemma find_sub_None_iff: "find_sub p s = None \<longleftrightarrow> (\<nexists>a r. s = a @ p @ r)"
proof (induction p s rule: find_sub.induct)
  case (1 p)
  then show ?case by auto
next
  case (2 p c s)
  show ?case
  proof (cases "starts_with p (c # s)")
    case True
    then show ?thesis by (auto simp: starts_with_iff) (metis append_Nil)
  next
    case False
    then have "(\<exists>a r. c # s = a @ p @ r) \<longleftrightarrow> (\<exists>a r. s = a @ p @ r)"
      by (auto simp: starts_with_iff Cons_eq_append_conv)
    with False 2 show ?thesis by auto
  qed
qed

lemma find_sub_least:
  "find_sub p s = Some i \<Longrightarrow> j < i \<Longrightarrow> \<not> starts_with p (drop j s)"
proof (induction p s arbitrary: i j rule: find_sub.induct)
  case (1 p)
  then show ?case by (auto split: if_splits)
next
  case (2 p c s)
  then show ?case
    by (cases j) (auto split: if_splits)
qed

lemma find_sub_starts: "find_sub p s = Some i \<Longrightarrow> starts_with p (drop i s)"
  by (induction p s arbitrary: i rule: find_sub.induct) (auto split: if_splits)

lemma find_sub_bound: "find_sub p s = Some i \<Longrightarrow> i + length p \<le> length s"
  using find_sub_Some_split[of p s i] by (metis add.commute add_le_mono1 le_add1 length_append length_take min.absorb2)

lemma find_subI:
  assumes "starts_with p (drop i s)" "i \<le> length s" "\<And>j. j < i \<Longrightarrow> \<not> starts_with p (drop j s)"
  shows "find_sub p s = Some i"
  using assms
proof (induction s arbitrary: i)
  case Nil
  then show ?case by (auto simp: starts_with_iff)
next
  case (Cons c s)
  show ?case
  proof (cases i)
    case 0
    then show ?thesis using Cons.prems by simp
  next
    case (Suc k)
    have "\<not> starts_with p (c # s)" using Cons.prems(3)[of 0] Suc by simp
    moreover have "find_sub p s = Some k"
    proof (rule Cons.IH)
      show "\<not> starts_with p (drop j s)" if "j < k" for j
        using Cons.prems(3)[of "Suc j"] that Suc by simp
    qed (use Cons.prems Suc in auto)
    ultimately show ?thesis using Suc by simp
  qed
qed

subsection \<open>Splitting and joining\<close>

lemma split_on_nonempty [simp]: "split_on c s \<noteq> []"
  by (induction s) (auto split: list.splits)

lemma join_split_on [simp]: "join [c] (split_on c s) = s"
proof (induction s)
  case Nil
  then show ?case by simp
next
  case (Cons x s)
  obtain p ps where sp: "split_on c s = p # ps"
    by (metis split_on_nonempty list.exhaust)
  with Cons show ?case by (cases ps) auto
qed

lemma join_Cons: "xs \<noteq> [] \<Longrightarrow> join sep (x # xs) = x @ sep @ join sep xs"
  by (cases xs) auto

lemma split_on_no_sep: "c \<notin> set s \<Longrightarrow> split_on c s = [s]"
  by (induction s) auto

lemma split_on_append_sep:
  "c \<notin> set p \<Longrightarrow> split_on c (p @ c # s) = p # split_on c s"
  by (induction p) auto

lemma split_on_pieces: "p \<in> set (split_on c s) \<Longrightarrow> c \<notin> set p"
proof (induction s arbitrary: p)
  case Nil
  then show ?case by simp
next
  case (Cons x s)
  obtain q qs where "split_on c s = q # qs"
    by (metis split_on_nonempty list.exhaust)
  with Cons show ?case by (auto split: if_splits)
qed

lemma split_on_join:
  assumes "ps \<noteq> []" "\<And>p. p \<in> set ps \<Longrightarrow> c \<notin> set p"
  shows "split_on c (join [c] ps) = ps"
  using assms
proof (induction ps rule: induct_list012)
  case (3 x y zs)
  then show ?case by (simp add: split_on_append_sep)
qed (auto simp: split_on_no_sep)

subsection \<open>Trimming\<close>

lemma trim_start_id: "s = [] \<or> \<not> is_whitespace (hd s) \<Longrightarrow> trim_start s = s"
  by (cases s) (auto simp: trim_start_def)

lemma trim_start_idem [simp, trim_facts]: "trim_start (trim_start s) = trim_start s"
  by (simp add: trim_start_def)

lemma trim_end_idem [simp, trim_facts]: "trim_end (trim_end s) = trim_end s"
  by (simp add: trim_end_def)

lemma trim_end_snoc: "trim_end (s @ [c]) = (if is_whitespace c then trim_end s else s @ [c])"
  by (simp add: trim_end_def)

lemma trim_start_Cons: "trim_start (c # s) = (if is_whitespace c then trim_start s else c # s)"
  by (simp add: trim_start_def)

lemma trim_end_append_ws: "(\<forall>c\<in>set w. is_whitespace c) \<Longrightarrow> trim_end (s @ w) = trim_end s"
  by (induction w rule: rev_induct) (simp_all add: trim_end_snoc flip: append_assoc)

lemma trim_start_append_ws: "(\<forall>c\<in>set w. is_whitespace c) \<Longrightarrow> trim_start (w @ s) = trim_start s"
  by (induction w) (auto simp: trim_start_Cons)

lemma trim_start_split: "\<exists>w. s = w @ trim_start s \<and> (\<forall>c\<in>set w. is_whitespace c)"
  by (metis set_takeWhileD takeWhile_dropWhile_id trim_start_def)

lemma trim_end_split: "\<exists>w. s = trim_end s @ w \<and> (\<forall>c\<in>set w. is_whitespace c)"
proof (intro exI conjI)
  show "s = trim_end s @ rev (takeWhile is_whitespace (rev s))"
    by (metis rev_append rev_rev_ident takeWhile_dropWhile_id trim_end_def)
  show "\<forall>c\<in>set (rev (takeWhile is_whitespace (rev s))). is_whitespace c"
    by (auto dest: set_takeWhileD)
qed

lemma trim_end_Nil [simp]: "trim_end [] = []"
  by (simp add: trim_end_def)

lemma trim_start_Nil [simp]: "trim_start [] = []"
  by (simp add: trim_start_def)

lemma trim_end_trim_start: "trim_end (trim_start s) = trim_start (trim_end s)"
proof (induction s rule: rev_induct)
  case Nil
  then show ?case by simp
next
  case (snoc c s)
  show ?case
  proof (cases "\<forall>x\<in>set s. is_whitespace x")
    case True
    then have "trim_end s = []" using trim_end_append_ws[of s "[]"] by simp
    with True show ?thesis
      using trim_end_snoc[of "[]" c]
      by (auto simp: trim_end_snoc trim_start_append_ws trim_start_Cons)
  next
    case False
    then have *: "trim_start (s @ x) = trim_start s @ x" for x
      by (induction s) (auto simp: trim_start_Cons)
    show ?thesis
      using snoc by (simp add: * trim_end_snoc)
  qed
qed

lemma trim_trim_end [trim_facts]: "trim (trim_end s) = trim s"
  by (simp add: trim_def trim_end_trim_start[of "trim_end s"] trim_end_trim_start[of s])

lemma trim_trim_start [trim_facts]: "trim (trim_start s) = trim s"
  by (simp add: trim_def)

lemma trim_idem [simp, trim_facts]: "trim (trim s) = trim s"
  by (simp add: trim_def trim_end_trim_start)

text \<open>A text that neither starts nor ends with whitespace survives any padding.\<close>

lemma trim_padded:
  assumes "\<forall>c\<in>set v. is_whitespace c" "\<forall>c\<in>set w. is_whitespace c"
    and "s \<noteq> []" "\<not> is_whitespace (hd s)" "\<not> is_whitespace (last s)"
  shows "trim (v @ s @ w) = s"
proof -
  have "trim_start (v @ s @ w) = s @ w"
    using assms(1,3,4) by (cases s) (auto simp: trim_start_append_ws trim_start_Cons)
  moreover have "trim_end s = s"
    using assms(3,5) by (cases s rule: rev_cases) (auto simp: trim_end_snoc)
  ultimately show ?thesis using assms(2) by (simp add: trim_def trim_end_append_ws)
qed

lemma trim_subset: "set (trim s) \<subseteq> set s"
  unfolding trim_def by (metis Un_iff set_append subsetI trim_end_split trim_start_split)

lemma trim_empty_iff: "trim s = [] \<longleftrightarrow> (\<forall>c\<in>set s. is_whitespace c)"
proof
  assume "trim s = []"
  then show "\<forall>c\<in>set s. is_whitespace c"
    unfolding trim_def
    by (metis append_Nil trim_end_split trim_start_split Un_iff set_append)
next
  assume "\<forall>c\<in>set s. is_whitespace c"
  then show "trim s = []"
    using trim_start_append_ws[of s "[]"] by (simp add: trim_def)
qed

subsection \<open>Queues and vectors\<close>

lemma evict_front_drop: "evict_front n xs = drop (length xs - n) xs"
  by (induction xs) (auto simp: Suc_diff_le)

lemma length_evict_front [simp]: "length (evict_front n xs) = min n (length xs)"
  by (simp add: evict_front_drop)

lemma set_evict_front: "set (evict_front n xs) \<subseteq> set xs"
  by (simp add: evict_front_drop set_drop_subset)

lemma vec_insert_length: "vec_insert i x xs = Some ys \<Longrightarrow> length ys = Suc (length xs)"
  by (auto simp: vec_insert_def split: if_splits)

subsection \<open>Byte lengths\<close>

lemma len_utf8_pos [simp]: "0 < len_utf8 c"
  by (simp add: len_utf8_def)

lemma blen_Nil [simp]: "blen [] = 0"
  and blen_Cons [simp]: "blen (c # s) = len_utf8 c + blen s"
  and blen_append [simp]: "blen (s @ t) = blen s + blen t"
  by (simp_all add: blen_def)

lemma blen_rev [simp]: "blen (rev s) = blen s"
  by (induction s) simp_all

lemma length_le_blen: "length s \<le> blen s"
proof (induction s)
  case (Cons c s)
  have "0 < len_utf8 c" by simp
  with Cons show ?case unfolding blen_Cons length_Cons by linarith
qed simp

lemma sat_add_exact: "a + b \<le> USIZE_MAX \<Longrightarrow> sat_add a b = a + b"
  by (simp add: sat_add_def)

section \<open>Simulations\<close>

text \<open>
  The interface between a component and its specification: \<open>rel\<close> relates a concrete to an
  abstract state, and every operation keeps the two related.
\<close>

locale simulation =
  fixes step :: "'s \<Rightarrow> 'i \<Rightarrow> 's" and astep :: "'a \<Rightarrow> 'i \<Rightarrow> 'a" and rel :: "'s \<Rightarrow> 'a \<Rightarrow> bool"
  assumes step_rel: "rel s a \<Longrightarrow> rel (step s i) (astep a i)"
begin

lemma run_rel: "rel s a \<Longrightarrow> rel (foldl step s is) (foldl astep a is)"
  by (induction "is" arbitrary: s a) (auto intro: step_rel)

end

text \<open>An invariant is a simulation by the one-point specification.\<close>

locale preserves =
  fixes step :: "'s \<Rightarrow> 'i \<Rightarrow> 's" and inv :: "'s \<Rightarrow> bool"
  assumes step_inv: "inv s \<Longrightarrow> inv (step s i)"

sublocale preserves \<subseteq> sim: simulation step "\<lambda>a i. a" "\<lambda>s (a :: unit). inv s"
  by unfold_locales (rule step_inv)

context preserves
begin

lemma run_inv: "inv s \<Longrightarrow> inv (foldl step s is)"
  by (rule sim.run_rel)

end

subsection \<open>The last elements of a list\<close>

definition take_last :: "nat \<Rightarrow> 'a list \<Rightarrow> 'a list" where
  "take_last n xs = drop (length xs - n) xs"

lemma length_take_last [simp]: "length (take_last n xs) = min n (length xs)"
  by (simp add: take_last_def)

lemma take_last_all [simp]: "length xs \<le> n \<Longrightarrow> take_last n xs = xs"
  by (simp add: take_last_def)

lemma take_last_0 [simp]: "take_last 0 xs = []"
  by (simp add: take_last_def)

lemma evict_front_take_last: "evict_front n xs = take_last n xs"
  by (simp add: evict_front_drop take_last_def)

lemma last_take_last:
  assumes "xs \<noteq> []" "n \<noteq> 0"
  shows "take_last n xs \<noteq> [] \<and> last (take_last n xs) = last xs"
proof -
  have "length xs - n < length xs" using assms by (intro diff_less) simp_all
  then show ?thesis by (simp add: take_last_def)
qed

lemma take_last_append_long: "n \<le> length ys \<Longrightarrow> take_last n (xs @ ys) = take_last n ys"
  by (simp add: take_last_def)

lemma take_last_append: "take_last n (xs @ ys) = take_last n (take_last n xs @ ys)"
proof (cases "n \<le> length ys")
  case False
  then show ?thesis by (auto simp: take_last_def min_def intro!: arg_cong2[where f = drop])
qed (simp add: take_last_append_long)

end
