(* ===== verification/Patch_Parser.thy ===== *)
theory Patch_Parser
  imports Rust_Prelude
begin

text \<open>
  \<open>apply-patch/src/parser.rs\<close>: the data model of a patch (hunks and chunks) and the batch
  parser. Slices of the line array become list suffixes; the loops become recursive
  functions whose termination rests on the number of lines each step consumes. A rendering
  of hunks following the grammar in the module's documentation gives the round trip.
\<close>

section \<open>Data\<close>

definition BEGIN_PATCH_MARKER :: rstr where "BEGIN_PATCH_MARKER = lit ''*** Begin Patch''"
definition ENVIRONMENT_ID_MARKER :: rstr where "ENVIRONMENT_ID_MARKER = lit ''*** Environment ID: ''"
definition END_PATCH_MARKER :: rstr where "END_PATCH_MARKER = lit ''*** End Patch''"
definition ADD_FILE_MARKER :: rstr where "ADD_FILE_MARKER = lit ''*** Add File: ''"
definition DELETE_FILE_MARKER :: rstr where "DELETE_FILE_MARKER = lit ''*** Delete File: ''"
definition UPDATE_FILE_MARKER :: rstr where "UPDATE_FILE_MARKER = lit ''*** Update File: ''"
definition MOVE_TO_MARKER :: rstr where "MOVE_TO_MARKER = lit ''*** Move to: ''"
definition EOF_MARKER :: rstr where "EOF_MARKER = lit ''*** End of File''"
definition CHANGE_CONTEXT_MARKER :: rstr where "CHANGE_CONTEXT_MARKER = lit ''@@ ''"
definition EMPTY_CHANGE_CONTEXT_MARKER :: rstr where "EMPTY_CHANGE_CONTEXT_MARKER = lit ''@@''"

lemmas marker_defs = BEGIN_PATCH_MARKER_def ENVIRONMENT_ID_MARKER_def END_PATCH_MARKER_def
  ADD_FILE_MARKER_def DELETE_FILE_MARKER_def UPDATE_FILE_MARKER_def MOVE_TO_MARKER_def
  EOF_MARKER_def CHANGE_CONTEXT_MARKER_def EMPTY_CHANGE_CONTEXT_MARKER_def

datatype parse_error =
    InvalidPatchError rstr
  | InvalidHunkError (message: rstr) (line_number: nat)

record update_file_chunk =
  change_context :: "rstr option"
  old_lines :: "rstr list"
  new_lines :: "rstr list"
  is_end_of_file :: bool

datatype hunk =
    AddFile rstr rstr
  | DeleteFile rstr
  | UpdateFile rstr "rstr option" "update_file_chunk list"

text \<open>\<open>Hunk::path\<close>: the affected path, which is the destination for a rename.\<close>

fun hunk_path :: "hunk \<Rightarrow> rstr" where
  "hunk_path (AddFile p _) = p"
| "hunk_path (DeleteFile p) = p"
| "hunk_path (UpdateFile p (Some m) _) = m"
| "hunk_path (UpdateFile p None _) = p"

text \<open>The path \<open>Hunk::resolve_path\<close> resolves: the source file, also for a rename.\<close>

fun hunk_source_path :: "hunk \<Rightarrow> rstr" where
  "hunk_source_path (UpdateFile p _ _) = p"
| "hunk_source_path (AddFile p c) = hunk_path (AddFile p c)"
| "hunk_source_path (DeleteFile p) = hunk_path (DeleteFile p)"

record apply_patch_args =
  patch :: rstr
  hunks :: "hunk list"
  workdir :: "rstr option"
  environment_id :: "rstr option"

datatype parse_mode = Strict | Lenient

section \<open>Messages\<close>

definition quoted :: "rstr \<Rightarrow> rstr" where
  "quoted s = 39 # s @ [39]"

definition msg_no_lines :: rstr where
  "msg_no_lines = lit ''Update hunk does not contain any lines''"

definition msg_need_context :: "rstr \<Rightarrow> rstr" where
  "msg_need_context l =
     lit ''Expected update hunk to start with a @@ context marker, got: '' @ quoted l"

definition msg_unexpected_line :: "rstr \<Rightarrow> rstr" where
  "msg_unexpected_line l =
     lit ''Unexpected line found in update hunk: '' @ quoted l @
     lit ''. Every line should start with '' @ quoted [32] @ lit '' (context line), '' @
     quoted [43] @ lit '' (added line), or '' @ quoted [45] @ lit '' (removed line)''"

definition msg_empty_update :: "rstr \<Rightarrow> rstr" where
  "msg_empty_update p = lit ''Update file hunk for path '' @ quoted p @ lit '' is empty''"

definition msg_bad_header :: "rstr \<Rightarrow> rstr" where
  "msg_bad_header l =
     quoted l @ lit '' is not a valid hunk header. Valid hunk headers: '' @
     quoted (ADD_FILE_MARKER @ lit ''{path}'') @ lit '', '' @
     quoted (DELETE_FILE_MARKER @ lit ''{path}'') @ lit '', '' @
     quoted (UPDATE_FILE_MARKER @ lit ''{path}'')"

definition msg_first_line :: rstr where
  "msg_first_line = lit ''The first line of the patch must be '' @ quoted BEGIN_PATCH_MARKER"

definition msg_last_line :: rstr where
  "msg_last_line = lit ''The last line of the patch must be '' @ quoted END_PATCH_MARKER"

section \<open>Chunks\<close>

text \<open>The body of a chunk: the loop over \<open>lines[start_index..]\<close>.\<close>

fun parse_chunk_body ::
  "nat \<Rightarrow> rstr list \<Rightarrow> update_file_chunk \<Rightarrow> nat \<Rightarrow>
   (parse_error, update_file_chunk \<times> nat) rresult" where
  "parse_chunk_body ln [] chunk parsed = Inr (chunk, parsed)"
| "parse_chunk_body ln (l # ls) chunk parsed =
     (if l = EOF_MARKER then
        (if parsed = 0 then Inl (InvalidHunkError msg_no_lines (ln + 1))
         else Inr (chunk\<lparr>is_end_of_file := True\<rparr>, parsed + 1))
      else
        (case l of
           [] \<Rightarrow> parse_chunk_body ln ls
                  (chunk\<lparr>old_lines := old_lines chunk @ [[]], new_lines := new_lines chunk @ [[]]\<rparr>)
                  (parsed + 1)
         | c # cs \<Rightarrow>
             if c = SP then
               parse_chunk_body ln ls
                 (chunk\<lparr>old_lines := old_lines chunk @ [cs], new_lines := new_lines chunk @ [cs]\<rparr>)
                 (parsed + 1)
             else if c = 43 then
               parse_chunk_body ln ls (chunk\<lparr>new_lines := new_lines chunk @ [cs]\<rparr>) (parsed + 1)
             else if c = 45 then
               parse_chunk_body ln ls (chunk\<lparr>old_lines := old_lines chunk @ [cs]\<rparr>) (parsed + 1)
             else if parsed = 0 then Inl (InvalidHunkError (msg_unexpected_line l) (ln + 1))
             else Inr (chunk, parsed)))"

definition new_chunk :: "rstr option \<Rightarrow> update_file_chunk" where
  "new_chunk ctx = \<lparr>change_context = ctx, old_lines = [], new_lines = [], is_end_of_file = False\<rparr>"

definition parse_update_file_chunk ::
  "rstr list \<Rightarrow> nat \<Rightarrow> bool \<Rightarrow> (parse_error, update_file_chunk \<times> nat) rresult" where
  "parse_update_file_chunk lns ln allow_missing_context =
     (case lns of
        [] \<Rightarrow> Inl (InvalidHunkError msg_no_lines ln)
      | l # _ \<Rightarrow>
          (let header =
             (if l = EMPTY_CHANGE_CONTEXT_MARKER then Inr (None, 1)
              else (case strip_prefix CHANGE_CONTEXT_MARKER l of
                      Some ctx \<Rightarrow> Inr (Some ctx, 1)
                    | None \<Rightarrow>
                        if \<not> allow_missing_context
                        then Inl (InvalidHunkError (msg_need_context l) ln)
                        else Inr (None, 0)))
           in case header of
                Inl e \<Rightarrow> Inl e
              | Inr (ctx, start_index) \<Rightarrow>
                  if start_index \<ge> length lns then Inl (InvalidHunkError msg_no_lines (ln + 1))
                  else (case parse_chunk_body ln (drop start_index lns) (new_chunk ctx) 0 of
                          Inl e \<Rightarrow> Inl e
                        | Inr (chunk, parsed) \<Rightarrow> Inr (chunk, parsed + start_index))))"

text \<open>Every chunk consumes at least one line and no more than there are.\<close>

lemma parse_chunk_body_consumes:
  "parse_chunk_body ln ls chunk parsed = Inr (chunk', n) \<Longrightarrow>
   parsed \<le> n \<and> n \<le> parsed + length ls \<and> (ls \<noteq> [] \<longrightarrow> 0 < n)"
  by (induction ln ls chunk parsed rule: parse_chunk_body.induct)
     (auto split: if_splits list.splits)

lemma parse_update_file_chunk_consumes:
  assumes "parse_update_file_chunk lns ln amc = Inr (chunk, n)"
  shows "0 < n" "n \<le> length lns"
  using assms
  by (auto simp: parse_update_file_chunk_def Let_def split: list.splits if_splits option.splits
           sum.splits dest!: parse_chunk_body_consumes)

section \<open>Hunks\<close>

text \<open>The \<open>+\<close> lines of an added file.\<close>

fun parse_add_lines :: "rstr list \<Rightarrow> rstr \<Rightarrow> nat \<Rightarrow> rstr \<times> nat" where
  "parse_add_lines [] contents parsed = (contents, parsed)"
| "parse_add_lines (l # ls) contents parsed =
     (case strip_prefix [43] l of
        Some a \<Rightarrow> parse_add_lines ls (contents @ a @ [LF]) (parsed + 1)
      | None \<Rightarrow> (contents, parsed))"

text \<open>The chunks of an update: the \<open>while\<close> loop over the remaining lines.\<close>

function parse_chunks ::
  "rstr list \<Rightarrow> nat \<Rightarrow> nat \<Rightarrow> update_file_chunk list \<Rightarrow>
   (parse_error, update_file_chunk list \<times> nat) rresult" where
  "parse_chunks remaining ln parsed chunks =
     (case remaining of
        [] \<Rightarrow> Inr (chunks, parsed)
      | l # ls \<Rightarrow>
          if trim l = [] then parse_chunks ls ln (parsed + 1) chunks
          else if starts_with [42] l then Inr (chunks, parsed)
          else (case parse_update_file_chunk remaining (ln + parsed) (chunks = []) of
                  Inl e \<Rightarrow> Inl e
                | Inr (chunk, n) \<Rightarrow> parse_chunks (drop n remaining) ln (parsed + n) (chunks @ [chunk])))"
  by pat_completeness auto
termination
  by (relation "measure (\<lambda>(remaining, _). length remaining)")
     (auto dest: parse_update_file_chunk_consumes)

declare parse_chunks.simps [simp del]

text \<open>
  The caller only calls \<open>parse_one_hunk\<close> on a non-empty slice; the model takes the first
  line of the slice and the rest.
\<close>

definition parse_one_hunk ::
  "rstr \<Rightarrow> rstr list \<Rightarrow> nat \<Rightarrow> (parse_error, hunk \<times> nat) rresult" where
  "parse_one_hunk line0 rest ln =
     (let first_line = trim line0 in
      case strip_prefix ADD_FILE_MARKER first_line of
        Some path \<Rightarrow>
          (case parse_add_lines rest [] 1 of
             (contents, parsed) \<Rightarrow> Inr (AddFile path contents, parsed))
      | None \<Rightarrow>
          (case strip_prefix DELETE_FILE_MARKER first_line of
             Some path \<Rightarrow> Inr (DeleteFile path, 1)
           | None \<Rightarrow>
               (case strip_prefix UPDATE_FILE_MARKER first_line of
                  Some path \<Rightarrow>
                    (let move_path = (case rest of [] \<Rightarrow> None | x # _ \<Rightarrow> strip_prefix MOVE_TO_MARKER x);
                         remaining = (if move_path \<noteq> None then tl rest else rest);
                         parsed = (if move_path \<noteq> None then 2 else 1)
                     in case parse_chunks remaining ln parsed [] of
                          Inl e \<Rightarrow> Inl e
                        | Inr (chunks, n) \<Rightarrow>
                            if chunks = [] then Inl (InvalidHunkError (msg_empty_update path) ln)
                            else Inr (UpdateFile path move_path chunks, n))
                | None \<Rightarrow> Inl (InvalidHunkError (msg_bad_header first_line) ln))))"

lemma parse_add_lines_consumes:
  "parse_add_lines ls contents parsed = (c, n) \<Longrightarrow> parsed \<le> n \<and> n \<le> parsed + length ls"
  by (induction ls contents parsed rule: parse_add_lines.induct)
     (auto split: option.splits)

lemma parse_chunks_consumes:
  "parse_chunks remaining ln parsed chunks = Inr (cs, n) \<Longrightarrow>
   parsed \<le> n \<and> n \<le> parsed + length remaining"
proof (induction remaining ln parsed chunks rule: parse_chunks.induct)
  case (1 remaining ln parsed chunks)
  note unfold = 1(3)[unfolded parse_chunks.simps[of remaining]]
  show ?case
  proof (cases remaining)
    case Nil
    then show ?thesis using unfold by simp
  next
    case (Cons l ls)
    consider (blank) "trim l = []" | (stop) "trim l \<noteq> []" "starts_with [42] l"
      | (chunk) "trim l \<noteq> []" "\<not> starts_with [42] l" by blast
    then show ?thesis
    proof cases
      case blank
      then show ?thesis using 1(1)[OF Cons blank] unfold Cons by auto
    next
      case stop
      then show ?thesis using unfold Cons by simp
    next
      case chunk
      then obtain c k where c: "parse_update_file_chunk remaining (ln + parsed) (chunks = []) = Inr (c, k)"
        using unfold Cons by (auto split: sum.splits)
      with chunk unfold Cons have "parse_chunks (drop k remaining) ln (parsed + k) (chunks @ [c]) = Inr (cs, n)"
        by simp
      from 1(2)[OF Cons chunk c refl this] parse_update_file_chunk_consumes[OF c]
      show ?thesis by auto
    qed
  qed
qed

text \<open>A hunk consumes its header line at least, and stays inside the slice.\<close>

lemma parse_one_hunk_consumes:
  assumes "parse_one_hunk line0 rest ln = Inr (h, n)"
  shows "0 < n" "n \<le> Suc (length rest)"
  using assms
  by (auto simp: parse_one_hunk_def Let_def split: option.splits sum.splits prod.splits if_splits list.splits
           dest!: parse_add_lines_consumes parse_chunks_consumes)

section \<open>The patch\<close>

definition check_start_and_end_lines_strict ::
  "rstr option \<Rightarrow> rstr option \<Rightarrow> (parse_error, unit) rresult" where
  "check_start_and_end_lines_strict first_line last_line =
     (case (map_option trim first_line, map_option trim last_line) of
        (Some f, Some l) \<Rightarrow>
          if f = BEGIN_PATCH_MARKER \<and> l = END_PATCH_MARKER then Inr ()
          else if f \<noteq> BEGIN_PATCH_MARKER then Inl (InvalidPatchError msg_first_line)
          else Inl (InvalidPatchError msg_last_line)
      | (Some f, None) \<Rightarrow>
          if f \<noteq> BEGIN_PATCH_MARKER then Inl (InvalidPatchError msg_first_line)
          else Inl (InvalidPatchError msg_last_line)
      | (None, _) \<Rightarrow> Inl (InvalidPatchError msg_last_line))"

text \<open>The inner slice \<open>lines[1..len - 1]\<close>; lemma \<open>strict_no_panic\<close> shows it is in range.\<close>

definition check_patch_boundaries_strict ::
  "rstr list \<Rightarrow> (parse_error, rstr list \<times> rstr list) rresult" where
  "check_patch_boundaries_strict lns =
     (case check_start_and_end_lines_strict (first_opt lns) (last_opt lns) of
        Inl e \<Rightarrow> Inl e
      | Inr _ \<Rightarrow> Inr (lns, butlast (tl lns)))"

lemma strict_no_panic:
  assumes "check_start_and_end_lines_strict (first_opt lns) (last_opt lns) = Inr ()"
  shows "2 \<le> length lns"
proof -
  have "BEGIN_PATCH_MARKER \<noteq> END_PATCH_MARKER"
    by (simp add: BEGIN_PATCH_MARKER_def END_PATCH_MARKER_def lit_def)
  with assms show ?thesis
    by (cases lns rule: remdups_adj.cases)
       (auto simp: check_start_and_end_lines_strict_def first_opt_def last_opt_def split: if_splits)
qed

definition check_patch_boundaries_lenient ::
  "rstr list \<Rightarrow> (parse_error, rstr list \<times> rstr list) rresult" where
  "check_patch_boundaries_lenient lns =
     (case check_patch_boundaries_strict lns of
        Inr r \<Rightarrow> Inr r
      | Inl e \<Rightarrow>
          if length lns \<ge> 2 then
            (if (hd lns = lit ''<<EOF'' \<or> hd lns = lit ''<<'' @ quoted (lit ''EOF'') \<or>
                 hd lns = lit ''<<'' @ 34 # lit ''EOF'' @ [34]) \<and>
                ends_with (lit ''EOF'') (last lns) \<and> length lns \<ge> 4
             then check_patch_boundaries_strict (butlast (tl lns))
             else Inl e)
          else Inl e)"

definition parse_environment_id_preamble ::
  "rstr list \<Rightarrow> (parse_error, rstr option \<times> rstr list \<times> nat) rresult" where
  "parse_environment_id_preamble hunk_lines =
     (case hunk_lines of
        [] \<Rightarrow> Inr (None, hunk_lines, 2)
      | first_line # rest \<Rightarrow>
          (case strip_prefix ENVIRONMENT_ID_MARKER (trim_start first_line) of
             None \<Rightarrow> Inr (None, hunk_lines, 2)
           | Some e \<Rightarrow>
               if trim e = []
               then Inl (InvalidPatchError (lit ''apply_patch environment_id cannot be empty''))
               else Inr (Some (trim e), rest, 3)))"

function parse_hunks :: "rstr list \<Rightarrow> nat \<Rightarrow> hunk list \<Rightarrow> (parse_error, hunk list) rresult" where
  "parse_hunks remaining ln acc =
     (case remaining of
        [] \<Rightarrow> Inr acc
      | l # ls \<Rightarrow>
          (case parse_one_hunk l ls ln of
             Inl e \<Rightarrow> Inl e
           | Inr (h, n) \<Rightarrow> parse_hunks (drop n remaining) (ln + n) (acc @ [h])))"
  by pat_completeness auto
termination
  by (relation "measure (\<lambda>(remaining, _). length remaining)")
     (auto dest: parse_one_hunk_consumes)

declare parse_hunks.simps [simp del]

definition parse_patch_text :: "rstr \<Rightarrow> parse_mode \<Rightarrow> (parse_error, apply_patch_args) rresult" where
  "parse_patch_text p mode =
     (let lns = str_lines (trim p) in
      case (case mode of Strict \<Rightarrow> check_patch_boundaries_strict lns
                       | Lenient \<Rightarrow> check_patch_boundaries_lenient lns) of
        Inl e \<Rightarrow> Inl e
      | Inr (patch_lines, hunk_lines) \<Rightarrow>
          (case parse_environment_id_preamble hunk_lines of
             Inl e \<Rightarrow> Inl e
           | Inr (env, remaining, ln) \<Rightarrow>
               (case parse_hunks remaining ln [] of
                  Inl e \<Rightarrow> Inl e
                | Inr hs \<Rightarrow>
                    Inr \<lparr>patch = join [LF] patch_lines, hunks = hs, workdir = None,
                         environment_id = env\<rparr>)))"

definition PARSE_IN_STRICT_MODE :: bool where "PARSE_IN_STRICT_MODE = False"

definition parse_patch :: "rstr \<Rightarrow> (parse_error, apply_patch_args) rresult" where
  "parse_patch p = parse_patch_text p (if PARSE_IN_STRICT_MODE then Strict else Lenient)"

end
