(* ===== verification/Patch_Render.thy ===== *)
theory Patch_Render
  imports Patch_Parser
begin

text \<open>
  Patches as they are written, following the grammar in the header of
  \<open>apply-patch/src/parser.rs\<close>, and the round trip through the batch parser: every
  well-formed written patch is read back as exactly the hunks it denotes. A change line is
  a context line, with its leading blank or entirely empty, a removed line or an added one,
  in any order.
\<close>

section \<open>Written patches\<close>

datatype diff_line = Keep rstr | Blank | Remove rstr | Insert rstr

record written_chunk =
  wc_context :: "rstr option"
  wc_lines :: "diff_line list"
  wc_eof :: bool

datatype written_hunk =
    WriteAdd rstr "rstr list"
  | WriteDelete rstr
  | WriteUpdate rstr "rstr option" "written_chunk list"

fun old_part :: "diff_line \<Rightarrow> rstr list" where
  "old_part (Keep l) = [l]"
| "old_part Blank = [[]]"
| "old_part (Remove l) = [l]"
| "old_part (Insert l) = []"

fun new_part :: "diff_line \<Rightarrow> rstr list" where
  "new_part (Keep l) = [l]"
| "new_part Blank = [[]]"
| "new_part (Remove l) = []"
| "new_part (Insert l) = [l]"

definition chunk_of :: "written_chunk \<Rightarrow> update_file_chunk" where
  "chunk_of w =
     \<lparr>change_context = wc_context w,
      old_lines = concat (map old_part (wc_lines w)),
      new_lines = concat (map new_part (wc_lines w)),
      is_end_of_file = wc_eof w\<rparr>"

fun hunk_of :: "written_hunk \<Rightarrow> hunk" where
  "hunk_of (WriteAdd p ls) = AddFile p (concat (map (\<lambda>l. l @ [LF]) ls))"
| "hunk_of (WriteDelete p) = DeleteFile p"
| "hunk_of (WriteUpdate p mv ws) = UpdateFile p mv (map chunk_of ws)"

section \<open>Rendering\<close>

fun diff_text :: "diff_line \<Rightarrow> rstr" where
  "diff_text (Keep l) = SP # l"
| "diff_text Blank = []"
| "diff_text (Remove l) = 45 # l"
| "diff_text (Insert l) = 43 # l"

definition render_chunk :: "written_chunk \<Rightarrow> rstr list" where
  "render_chunk w =
     (case wc_context w of
        None \<Rightarrow> EMPTY_CHANGE_CONTEXT_MARKER
      | Some ctx \<Rightarrow> CHANGE_CONTEXT_MARKER @ ctx) #
     map diff_text (wc_lines w) @ (if wc_eof w then [EOF_MARKER] else [])"

fun hunk_header :: "written_hunk \<Rightarrow> rstr" where
  "hunk_header (WriteAdd p ls) = ADD_FILE_MARKER @ p"
| "hunk_header (WriteDelete p) = DELETE_FILE_MARKER @ p"
| "hunk_header (WriteUpdate p mv ws) = UPDATE_FILE_MARKER @ p"

fun hunk_body :: "written_hunk \<Rightarrow> rstr list" where
  "hunk_body (WriteAdd p ls) = map ((#) 43) ls"
| "hunk_body (WriteDelete p) = []"
| "hunk_body (WriteUpdate p mv ws) =
     (case mv of None \<Rightarrow> [] | Some m \<Rightarrow> [MOVE_TO_MARKER @ m]) @ concat (map render_chunk ws)"

definition render_hunk :: "written_hunk \<Rightarrow> rstr list" where
  "render_hunk h = hunk_header h # hunk_body h"

text \<open>The environment the patch is meant for, on a line of its own before the hunks.\<close>

definition environment_lines :: "rstr option \<Rightarrow> rstr list" where
  "environment_lines env = (case env of None \<Rightarrow> [] | Some e \<Rightarrow> [ENVIRONMENT_ID_MARKER @ e])"

definition patch_lines :: "rstr option \<Rightarrow> written_hunk list \<Rightarrow> rstr list" where
  "patch_lines env hs =
     BEGIN_PATCH_MARKER # environment_lines env @ concat (map render_hunk hs) @ [END_PATCH_MARKER]"

definition render_patch :: "rstr option \<Rightarrow> written_hunk list \<Rightarrow> rstr" where
  "render_patch env hs = join [LF] (patch_lines env hs)"

section \<open>Well-formed patches\<close>

definition wf_line :: "rstr \<Rightarrow> bool" where
  "wf_line l \<longleftrightarrow> LF \<notin> set l \<and> \<not> ends_with [CR] l"

definition wf_path :: "rstr \<Rightarrow> bool" where
  "wf_path p \<longleftrightarrow> p \<noteq> [] \<and> LF \<notin> set p \<and> \<not> is_whitespace (last p)"

definition wf_chunk :: "written_chunk \<Rightarrow> bool" where
  "wf_chunk w \<longleftrightarrow>
     wc_lines w \<noteq> [] \<and> list_all (wf_line \<circ> diff_text) (wc_lines w) \<and>
     (case wc_context w of None \<Rightarrow> True | Some ctx \<Rightarrow> wf_line ctx)"

fun wf_hunk :: "written_hunk \<Rightarrow> bool" where
  "wf_hunk (WriteAdd p ls) \<longleftrightarrow> wf_path p \<and> list_all wf_line ls"
| "wf_hunk (WriteDelete p) \<longleftrightarrow> wf_path p"
| "wf_hunk (WriteUpdate p mv ws) \<longleftrightarrow>
     wf_path p \<and> (case mv of None \<Rightarrow> True | Some m \<Rightarrow> wf_line m) \<and> ws \<noteq> [] \<and> list_all wf_chunk ws"

definition wf_env :: "rstr option \<Rightarrow> bool" where
  "wf_env env = (case env of None \<Rightarrow> True | Some e \<Rightarrow> wf_line e \<and> trim e \<noteq> [])"

lemma parts_nonempty: "ds \<noteq> [] \<Longrightarrow> concat (map old_part ds) \<noteq> [] \<or> concat (map new_part ds) \<noteq> []"
  by (cases ds; cases "hd ds") auto

section \<open>Text and lines\<close>

lemma drop_cr_id: "\<not> ends_with [CR] l \<Longrightarrow> drop_cr l = l"
  by (auto simp: drop_cr_def ends_with_def split: option.splits)

lemma str_lines_join:
  assumes "ls \<noteq> []" "list_all wf_line ls" "last ls \<noteq> []"
  shows "str_lines (join [LF] ls) = ls"
proof -
  have sp: "split_on LF (join [LF] ls) = ls"
    using assms by (intro split_on_join) (auto simp: wf_line_def list_all_iff)
  have "map drop_cr (butlast ls) = butlast ls"
    using assms by (intro map_idI drop_cr_id) (auto simp: wf_line_def list_all_iff dest: in_set_butlastD)
  with sp assms show ?thesis by (simp add: str_lines_def Let_def)
qed

lemma trim_id:
  assumes "s \<noteq> []" "\<not> is_whitespace (hd s)" "\<not> is_whitespace (last s)"
  shows "trim s = s"
proof -
  have "trim_end s = s"
    using assms by (metis append_butlast_last_id trim_end_snoc)
  with assms show ?thesis by (simp add: trim_def trim_start_id)
qed

lemma hd_join: "ls \<noteq> [] \<Longrightarrow> hd ls \<noteq> [] \<Longrightarrow> join sep ls \<noteq> [] \<and> hd (join sep ls) = hd (hd ls)"
  by (induction sep ls rule: join.induct) auto

lemma last_join: "ls \<noteq> [] \<Longrightarrow> last ls \<noteq> [] \<Longrightarrow> last (join sep ls) = last (last ls)"
proof (induction sep ls rule: join.induct)
  case (3 sep x y xs)
  have "join sep (ys @ [z]) \<noteq> []" if "z \<noteq> []" for z and ys :: "'a list list"
    using that by (induction ys) (auto simp: join_Cons)
  then have "join sep (y # xs) \<noteq> []"
    using 3(3) by (metis append_butlast_last_id last_ConsR list.distinct(1))
  with 3 show ?case by simp
qed auto

lemma is_whitespace_markers [simp]:
  "\<not> is_whitespace 42" "\<not> is_whitespace 64" "\<not> is_whitespace 104" "\<not> is_whitespace 43" "\<not> is_whitespace 45"
  by (simp_all add: is_whitespace_def)

lemma trim_header:
  assumes "m \<noteq> []" "hd m = 42" "wf_path p"
  shows "trim (m @ p) = m @ p"
  using assms by (intro trim_id) (auto simp: wf_path_def)

section \<open>Chunks read back\<close>

lemma diff_text_not_EOF [simp]: "diff_text d \<noteq> EOF_MARKER"
  by (cases d) (simp_all add: EOF_MARKER_def lit_def)

lemma parse_chunk_body_lines:
  "parse_chunk_body ln (map diff_text ds @ ls) c k =
   parse_chunk_body ln ls
     (c\<lparr>old_lines := old_lines c @ concat (map old_part ds),
        new_lines := new_lines c @ concat (map new_part ds)\<rparr>) (k + length ds)"
proof (induction ds arbitrary: c k)
  case (Cons d ds)
  then show ?case
    using diff_text_not_EOF[of d] by (cases d) simp_all
qed simp

text \<open>The lines at which a chunk body ends: none, a header, or the next chunk's \<open>@@\<close>.\<close>

definition at_header :: "rstr list \<Rightarrow> bool" where
  "at_header ls \<longleftrightarrow> ls = [] \<or> (\<exists>t rest. ls = (42 # t) # rest \<and> 42 # t \<noteq> EOF_MARKER)"

definition at_chunk_end :: "rstr list \<Rightarrow> bool" where
  "at_chunk_end ls \<longleftrightarrow> at_header ls \<or> (\<exists>t rest. ls = (64 # t) # rest)"

lemma parse_chunk_body_stop:
  assumes "at_chunk_end ls" "0 < k"
  shows "parse_chunk_body ln ls c k = Inr (c, k)"
proof -
  have "64 # t \<noteq> EOF_MARKER" for t by (simp add: EOF_MARKER_def lit_def)
  with assms show ?thesis
    by (auto simp: at_chunk_end_def at_header_def)
qed

lemma marker_at: "EMPTY_CHANGE_CONTEXT_MARKER = [64, 64]" "CHANGE_CONTEXT_MARKER = [64, 64, 32]"
  by (simp_all add: marker_defs lit_def)

lemma parse_render_chunk:
  assumes "wf_chunk w" "at_chunk_end ls"
  shows "parse_update_file_chunk (render_chunk w @ ls) ln amc = Inr (chunk_of w, length (render_chunk w))"
proof -
  let ?body = "map diff_text (wc_lines w) @ (if wc_eof w then [EOF_MARKER] else [])"
  have nonempty: "0 < length (wc_lines w)"
    using assms by (auto simp: wf_chunk_def)
  have body: "parse_chunk_body ln (?body @ ls) (new_chunk (wc_context w)) 0 = Inr (chunk_of w, length ?body)"
    using nonempty assms(2)
    by (auto simp: parse_chunk_body_lines parse_chunk_body_stop new_chunk_def chunk_of_def)
  show ?thesis
    using body nonempty
    by (auto simp: render_chunk_def parse_update_file_chunk_def Let_def marker_at
             split: option.splits)
qed

lemma render_chunk_ne: "\<exists>t rest. render_chunk c = (64 # t) # rest"
  by (auto simp: render_chunk_def marker_at split: option.splits)

lemma at_chunk_end_chunks:
  "at_header ls \<Longrightarrow> at_chunk_end (concat (map render_chunk cs) @ ls)"
  using render_chunk_ne by (cases cs) (auto simp: at_chunk_end_def, metis append_Cons)

lemma trim_nonblank: "\<not> is_whitespace c \<Longrightarrow> trim (c # t) \<noteq> []"
  by (auto simp: trim_empty_iff)

lemma parse_chunks_rendered:
  assumes "list_all wf_chunk cs" "at_header ls"
  shows "parse_chunks (concat (map render_chunk cs) @ ls) ln k acc =
         Inr (acc @ map chunk_of cs, k + length (concat (map render_chunk cs)))"
  using assms(1)
proof (induction cs arbitrary: k acc)
  case Nil
  then show ?case
    using assms(2)
    by (auto simp: at_header_def parse_chunks.simps[of "[]"] parse_chunks.simps[of "_ # _"] trim_nonblank)
next
  case (Cons c cs)
  obtain t rest where r: "render_chunk c = (64 # t) # rest" using render_chunk_ne by blast
  have "parse_update_file_chunk (render_chunk c @ concat (map render_chunk cs) @ ls) (ln + k) (acc = []) =
        Inr (chunk_of c, length (render_chunk c))"
    using Cons.prems assms(2) by (intro parse_render_chunk at_chunk_end_chunks) auto
  then show ?case
    using Cons r
    by (simp add: parse_chunks.simps[of "(64 # t) # rest @ concat (map render_chunk cs) @ ls"] trim_nonblank)
qed

section \<open>Hunks read back\<close>

lemma parse_add_lines_rendered:
  assumes "at_header ls"
  shows "parse_add_lines (map ((#) 43) xs @ ls) contents k =
         (contents @ concat (map (\<lambda>l. l @ [LF]) xs), k + length xs)"
proof (induction xs arbitrary: contents k)
  case Nil
  then show ?case using assms by (auto simp: at_header_def)
qed simp

lemmas header_markers =
  ADD_FILE_MARKER_def DELETE_FILE_MARKER_def UPDATE_FILE_MARKER_def lit_def

lemma parse_one_rendered:
  assumes "wf_hunk h" "at_header ls"
  shows "parse_one_hunk (hunk_header h) (hunk_body h @ ls) ln = Inr (hunk_of h, length (render_hunk h))"
proof (cases h)
  case (WriteAdd p xs)
  then have "trim (hunk_header h) = ADD_FILE_MARKER @ p"
    using assms by (auto intro!: trim_header simp: header_markers simp del: append.simps)
  then show ?thesis
    using assms WriteAdd
    by (simp add: parse_one_hunk_def Let_def parse_add_lines_rendered render_hunk_def)
next
  case (WriteDelete p)
  then have "trim (hunk_header h) = DELETE_FILE_MARKER @ p"
    using assms by (auto intro!: trim_header simp: header_markers simp del: append.simps)
  then show ?thesis
    using assms WriteDelete
    by (simp add: parse_one_hunk_def Let_def render_hunk_def)
       (simp add: header_markers)
next
  case (WriteUpdate p mv cs)
  then have t: "trim (hunk_header h) = UPDATE_FILE_MARKER @ p"
    using assms by (auto intro!: trim_header simp: header_markers simp del: append.simps)
  have other: "strip_prefix ADD_FILE_MARKER (UPDATE_FILE_MARKER @ p) = None"
      "strip_prefix DELETE_FILE_MARKER (UPDATE_FILE_MARKER @ p) = None"
    by (simp_all add: header_markers)
  have cs: "cs \<noteq> []" "list_all wf_chunk cs" using assms WriteUpdate by auto
  then have nomove: "(case concat (map render_chunk cs) @ ls of [] \<Rightarrow> None
      | x # _ \<Rightarrow> strip_prefix MOVE_TO_MARKER x) = None"
    using render_chunk_ne[of "hd cs"] by (cases cs) (auto simp: MOVE_TO_MARKER_def lit_def)
  show ?thesis
    using cs WriteUpdate t other nomove
    by (cases mv)
       (simp_all add: parse_one_hunk_def Let_def render_hunk_def parse_chunks_rendered[OF cs(2) assms(2)])
qed

lemma at_header_hunks: "at_header (concat (map render_hunk hs))"
proof (cases hs)
  case (Cons h t)
  then show ?thesis
    by (cases h) (auto simp: at_header_def render_hunk_def header_markers EOF_MARKER_def)
qed (simp add: at_header_def)

lemma parse_hunks_rendered:
  "list_all wf_hunk hs \<Longrightarrow> parse_hunks (concat (map render_hunk hs)) ln acc = Inr (acc @ map hunk_of hs)"
proof (induction hs arbitrary: ln acc)
  case Nil
  then show ?case by (simp add: parse_hunks.simps)
next
  case (Cons h hs)
  have "parse_one_hunk (hunk_header h) (hunk_body h @ concat (map render_hunk hs)) ln =
        Inr (hunk_of h, length (render_hunk h))"
    using Cons.prems by (intro parse_one_rendered at_header_hunks) auto
  moreover have "concat (map render_hunk (h # hs)) =
      hunk_header h # hunk_body h @ concat (map render_hunk hs)"
    by (simp add: render_hunk_def)
  moreover have "drop (length (render_hunk h)) (hunk_header h # hunk_body h @ concat (map render_hunk hs)) =
      concat (map render_hunk hs)"
    by (simp add: render_hunk_def)
  ultimately show ?case
    using Cons by (simp add: parse_hunks.simps[of "_ # _"])
qed

section \<open>The patch read back\<close>

lemma ends_with_single: "ends_with [c] s \<longleftrightarrow> s \<noteq> [] \<and> last s = c"
  by (metis append_butlast_last_id ends_with_iff last_snoc snoc_eq_iff_butlast)

lemma wf_line_prefix: "wf_line l \<Longrightarrow> m \<noteq> [] \<Longrightarrow> LF \<notin> set m \<Longrightarrow> CR \<notin> set m \<Longrightarrow> wf_line (m @ l)"
  by (cases "last m = CR") (auto simp: wf_line_def ends_with_single last_append dest: last_in_set)

lemma wf_path_line: "wf_path p \<Longrightarrow> wf_line p"
  by (auto simp: wf_path_def wf_line_def ends_with_iff is_whitespace_def)

lemma wf_line_Nil [simp]: "wf_line []"
  by (simp add: wf_line_def ends_with_iff)

lemma wf_line_Cons: "wf_line l \<Longrightarrow> c \<noteq> LF \<Longrightarrow> c \<noteq> CR \<Longrightarrow> wf_line (c # l)"
  using wf_line_prefix[of l "[c]"] by simp

lemma wf_line_markers [simp]:
  "wf_line BEGIN_PATCH_MARKER" "wf_line END_PATCH_MARKER" "wf_line EOF_MARKER"
  "wf_line EMPTY_CHANGE_CONTEXT_MARKER"
  by (simp_all add: marker_defs lit_def wf_line_Cons)

lemma wf_line_render_chunk: "wf_chunk c \<Longrightarrow> list_all wf_line (render_chunk c)"
  by (auto simp: wf_chunk_def render_chunk_def list_all_iff wf_line_Cons marker_at split: option.splits)

lemma wf_line_render_hunk: "wf_hunk h \<Longrightarrow> list_all wf_line (render_hunk h)"
  by (cases h)
     (auto simp: render_hunk_def list_all_iff header_markers MOVE_TO_MARKER_def wf_line_Cons wf_path_line
        split: option.splits dest!: wf_line_render_chunk[unfolded list_all_iff, rule_format, rotated])

lemma wf_patch_lines: "wf_env env \<Longrightarrow> list_all wf_hunk hs \<Longrightarrow> list_all wf_line (patch_lines env hs)"
  using wf_line_render_hunk
  by (auto simp: patch_lines_def environment_lines_def wf_env_def list_all_iff ENVIRONMENT_ID_MARKER_def lit_def
      wf_line_Cons split: option.splits)

lemma trim_render_patch: "trim (render_patch env hs) = render_patch env hs"
  unfolding render_patch_def
proof (rule trim_id)
  let ?ls = "patch_lines env hs"
  have "?ls \<noteq> []" "hd ?ls \<noteq> []" "hd (hd ?ls) = 42" "last ?ls \<noteq> []" "last (last ?ls) = 104"
    by (simp_all add: patch_lines_def BEGIN_PATCH_MARKER_def END_PATCH_MARKER_def lit_def)
  then show "join [LF] ?ls \<noteq> []" "\<not> is_whitespace (hd (join [LF] ?ls))" "\<not> is_whitespace (last (join [LF] ?ls))"
    using hd_join[of ?ls "[LF]"] last_join[of ?ls "[LF]"] by auto
qed

lemma str_lines_render_patch:
  "wf_env env \<Longrightarrow> list_all wf_hunk hs \<Longrightarrow> str_lines (render_patch env hs) = patch_lines env hs"
  unfolding render_patch_def
  by (rule str_lines_join)
     (simp_all add: wf_patch_lines, simp_all add: patch_lines_def END_PATCH_MARKER_def lit_def)

lemma boundaries_render_patch:
  "check_patch_boundaries_lenient (patch_lines env hs) =
   Inr (patch_lines env hs, environment_lines env @ concat (map render_hunk hs))"
proof -
  have "trim BEGIN_PATCH_MARKER = BEGIN_PATCH_MARKER" "trim END_PATCH_MARKER = END_PATCH_MARKER"
    by (rule trim_id; simp add: marker_defs lit_def)+
  then show ?thesis
    by (simp add: check_patch_boundaries_lenient_def check_patch_boundaries_strict_def patch_lines_def
        check_start_and_end_lines_strict_def first_opt_def last_opt_def butlast_append)
qed

lemma preamble_render_patch:
  assumes "wf_env env"
  shows "\<exists>n. parse_environment_id_preamble (environment_lines env @ concat (map render_hunk hs)) =
    Inr (map_option trim env, concat (map render_hunk hs), n)"
proof (cases env)
  case None
  show ?thesis
  proof (cases hs)
    case (Cons h t)
    then show ?thesis using None
      by (cases h)
         (simp_all add: environment_lines_def parse_environment_id_preamble_def render_hunk_def header_markers
            ENVIRONMENT_ID_MARKER_def trim_start_Cons)
  qed (simp add: None environment_lines_def parse_environment_id_preamble_def)
next
  case (Some e)
  have "trim_start (ENVIRONMENT_ID_MARKER @ e) = ENVIRONMENT_ID_MARKER @ e"
    by (rule trim_start_id) (simp add: ENVIRONMENT_ID_MARKER_def lit_def)
  with Some assms show ?thesis
    by (simp add: environment_lines_def parse_environment_id_preamble_def wf_env_def)
qed

lemma parse_patch_rendered:
  assumes "wf_env env" "list_all wf_hunk hs"
  shows "parse_patch (render_patch env hs) =
    Inr \<lparr>patch = render_patch env hs, hunks = map hunk_of hs, workdir = None, environment_id = map_option trim env\<rparr>"
proof -
  obtain n where "parse_environment_id_preamble (environment_lines env @ concat (map render_hunk hs)) =
      Inr (map_option trim env, concat (map render_hunk hs), n)"
    using preamble_render_patch[OF assms(1)] by blast
  then show ?thesis
    using assms
    by (simp add: parse_patch_def PARSE_IN_STRICT_MODE_def parse_patch_text_def Let_def trim_render_patch
        str_lines_render_patch boundaries_render_patch parse_hunks_rendered)
       (simp add: render_patch_def)
qed

text \<open>
  C12. Round trip: a patch written after the grammar is parsed back to exactly the hunks it
  denotes, with context, removed and added lines in any order, with the patch text itself and
  with the environment id it carries, if any, without surrounding blanks. The written patch has a
  path that does not end in a blank in each hunk header, at least one chunk in each update and one
  line in each chunk, no carriage return at the end of a line, and no blank environment id.
\<close>

theorem parse_render_patch:
  assumes "wf_env env" "list_all wf_hunk hs"
  shows "parse_patch (render_patch env hs) =
    Inr \<lparr>patch = render_patch env hs, hunks = map hunk_of hs, workdir = None, environment_id = map_option trim env\<rparr>"
  by (rule parse_patch_rendered[OF assms])

definition sample_hunks :: "written_hunk list" where
  "sample_hunks =
     [WriteAdd (lit ''a.txt'') [lit ''hi''], WriteDelete (lit ''b''),
      WriteUpdate (lit ''c'') (Some (lit ''d''))
        [\<lparr>wc_context = Some (lit ''fn f''),
          wc_lines = [Keep (lit ''k''), Remove (lit ''x''), Insert (lit ''y''), Blank], wc_eof = True\<rparr>]]"

lemma sample_hunks_wf: "list_all wf_hunk sample_hunks"
  by (simp add: sample_hunks_def wf_path_def wf_chunk_def wf_line_def lit_def is_whitespace_def ends_with_single)

theorem parse_render_patch_witness:
  "parse_patch (render_patch (Some (lit '' remote '')) sample_hunks) =
   Inr \<lparr>patch = render_patch (Some (lit '' remote '')) sample_hunks,
     hunks = [AddFile (lit ''a.txt'') (lit ''hi'' @ [LF]), DeleteFile (lit ''b''),
      UpdateFile (lit ''c'') (Some (lit ''d''))
        [\<lparr>change_context = Some (lit ''fn f''), old_lines = [lit ''k'', lit ''x'', []],
          new_lines = [lit ''k'', lit ''y'', []], is_end_of_file = True\<rparr>]],
     workdir = None, environment_id = Some (lit ''remote'')\<rparr>"
proof -
  have "wf_env (Some (lit '' remote ''))" "trim (lit '' remote '') = lit ''remote''" by code_simp+
  moreover have "map hunk_of sample_hunks = [AddFile (lit ''a.txt'') (lit ''hi'' @ [LF]), DeleteFile (lit ''b''),
      UpdateFile (lit ''c'') (Some (lit ''d''))
        [\<lparr>change_context = Some (lit ''fn f''), old_lines = [lit ''k'', lit ''x'', []],
          new_lines = [lit ''k'', lit ''y'', []], is_end_of_file = True\<rparr>]]"
    by (simp add: sample_hunks_def chunk_of_def)
  ultimately show ?thesis using parse_render_patch[OF _ sample_hunks_wf] by simp
qed

end
