(* ===== verification/Streaming_Patch.thy ===== *)
theory Streaming_Patch
  imports Patch_Render
begin

text \<open>
  \<open>apply-patch/src/streaming_parser.rs\<close>: the parser that follows a patch while it is being
  generated. Its state is a record; every method is a function on it. A method that returns
  \<open>Err\<close> through the question-mark operator leaves the state as it was at that point, so the
  line-level methods return either the error or the new state, and the character loop of
  \<open>push_delta\<close> keeps the state reached when it stops.

  Shown: the mode and the last hunk always agree, and everything before the last hunk is
  complete; a stream may be cut anywhere without changing the result; a rendered patch
  yields exactly its hunks.
\<close>

section \<open>State\<close>

datatype streaming_parser_mode =
    NotStarted
  | StartedPatch
  | InAddFile
  | InDeleteFile
  | InUpdateFile nat
  | EndedPatch

record streaming_patch_parser =
  line_buffer :: rstr
  mode :: streaming_parser_mode
  sp_hunks :: "hunk list"
  sp_line_number :: nat

definition streaming_default :: streaming_patch_parser where
  "streaming_default =
     \<lparr>line_buffer = [], mode = NotStarted, sp_hunks = [], sp_line_number = 0\<rparr>"

section \<open>Operations\<close>

definition chunk_is_empty :: "update_file_chunk \<Rightarrow> bool" where
  "chunk_is_empty c \<longleftrightarrow> old_lines c = [] \<and> new_lines c = []"

definition last_chunk_empty :: "update_file_chunk list \<Rightarrow> bool" where
  "last_chunk_empty cs \<longleftrightarrow> cs \<noteq> [] \<and> chunk_is_empty (last cs)"

definition map_last :: "('a \<Rightarrow> 'a) \<Rightarrow> 'a list \<Rightarrow> 'a list" where
  "map_last f xs = (if xs = [] then [] else butlast xs @ [f (last xs)])"

text \<open>The block repeated for every change line: open a chunk if there is none, then extend the last.\<close>

definition add_to_last_chunk ::
  "(update_file_chunk \<Rightarrow> update_file_chunk) \<Rightarrow> update_file_chunk list \<Rightarrow> update_file_chunk list" where
  "add_to_last_chunk f cs = map_last f (if cs = [] then [new_chunk None] else cs)"

definition push_old :: "rstr \<Rightarrow> update_file_chunk \<Rightarrow> update_file_chunk" where
  "push_old l c = c\<lparr>old_lines := old_lines c @ [l]\<rparr>"

definition push_new :: "rstr \<Rightarrow> update_file_chunk \<Rightarrow> update_file_chunk" where
  "push_new l c = c\<lparr>new_lines := new_lines c @ [l]\<rparr>"

definition is_environment_id_preamble_line :: "rstr \<Rightarrow> bool" where
  "is_environment_id_preamble_line line \<longleftrightarrow> starts_with ENVIRONMENT_ID_MARKER line"

definition ensure_update_hunk_is_not_empty ::
  "streaming_patch_parser \<Rightarrow> rstr \<Rightarrow> (parse_error, unit) rresult" where
  "ensure_update_hunk_is_not_empty st line =
     (case last_opt (sp_hunks st) of
        Some (UpdateFile path _ chunks) \<Rightarrow>
          (case (if chunks = []
                 then (case mode st of InUpdateFile k \<Rightarrow> Some k | _ \<Rightarrow> None) else None) of
             Some hunk_ln \<Rightarrow> Inl (InvalidHunkError (msg_empty_update path) hunk_ln)
           | None \<Rightarrow>
               if last_chunk_empty chunks then
                 (if line = END_PATCH_MARKER
                  then Inl (InvalidHunkError msg_no_lines (sp_line_number st))
                  else Inl (InvalidHunkError (msg_unexpected_line line) (sp_line_number st)))
               else Inr ())
      | _ \<Rightarrow> Inr ())"

definition handle_hunk_headers_and_end_patch ::
  "streaming_patch_parser \<Rightarrow> rstr \<Rightarrow> (parse_error, bool \<times> streaming_patch_parser) rresult" where
  "handle_hunk_headers_and_end_patch st trimmed =
     (if trimmed = END_PATCH_MARKER then
        (case ensure_update_hunk_is_not_empty st trimmed of
           Inl e \<Rightarrow> Inl e
         | Inr _ \<Rightarrow> Inr (True, st\<lparr>mode := EndedPatch\<rparr>))
      else case strip_prefix ADD_FILE_MARKER trimmed of
        Some path \<Rightarrow>
          (case ensure_update_hunk_is_not_empty st trimmed of
             Inl e \<Rightarrow> Inl e
           | Inr _ \<Rightarrow> Inr (True, st\<lparr>sp_hunks := sp_hunks st @ [AddFile path []], mode := InAddFile\<rparr>))
      | None \<Rightarrow>
        (case strip_prefix DELETE_FILE_MARKER trimmed of
           Some path \<Rightarrow>
             (case ensure_update_hunk_is_not_empty st trimmed of
                Inl e \<Rightarrow> Inl e
              | Inr _ \<Rightarrow> Inr (True, st\<lparr>sp_hunks := sp_hunks st @ [DeleteFile path], mode := InDeleteFile\<rparr>))
         | None \<Rightarrow>
           (case strip_prefix UPDATE_FILE_MARKER trimmed of
              Some path \<Rightarrow>
                (case ensure_update_hunk_is_not_empty st trimmed of
                   Inl e \<Rightarrow> Inl e
                 | Inr _ \<Rightarrow>
                     Inr (True, st\<lparr>sp_hunks := sp_hunks st @ [UpdateFile path None []],
                                   mode := InUpdateFile (sp_line_number st)\<rparr>))
            | None \<Rightarrow> Inr (False, st))))"

definition set_last_update ::
  "streaming_patch_parser \<Rightarrow> rstr \<Rightarrow> rstr option \<Rightarrow> update_file_chunk list \<Rightarrow> streaming_patch_parser" where
  "set_last_update st path mv cs =
     st\<lparr>sp_hunks := butlast (sp_hunks st) @ [UpdateFile path mv cs]\<rparr>"

text \<open>The change lines of an update hunk, once headers have been ruled out.\<close>

definition process_update_line ::
  "streaming_patch_parser \<Rightarrow> rstr \<Rightarrow> rstr \<Rightarrow> rstr option \<Rightarrow> update_file_chunk list \<Rightarrow>
   (parse_error, streaming_patch_parser) rresult" where
  "process_update_line st line path mv cs =
     (let update_line = trim_end line;
          unexpected = Inl (InvalidHunkError (msg_unexpected_line line) (sp_line_number st));
          moved = (if cs = [] \<and> mv = None then strip_prefix MOVE_TO_MARKER update_line else None)
      in
      if moved \<noteq> None then Inr (set_last_update st path moved cs)
      else if (update_line = EMPTY_CHANGE_CONTEXT_MARKER \<or> starts_with CHANGE_CONTEXT_MARKER update_line) \<and>
         last_chunk_empty cs then unexpected
      else if update_line = EMPTY_CHANGE_CONTEXT_MARKER then
        Inr (set_last_update st path mv (cs @ [new_chunk None]))
      else case strip_prefix CHANGE_CONTEXT_MARKER update_line of
        Some ctx \<Rightarrow> Inr (set_last_update st path mv (cs @ [new_chunk (Some ctx)]))
      | None \<Rightarrow>
        (if update_line = EOF_MARKER then
           (if last_chunk_empty cs then Inl (InvalidHunkError msg_no_lines (sp_line_number st))
            else Inr (set_last_update st path mv
                        (map_last (\<lambda>c. c\<lparr>is_end_of_file := True\<rparr>) cs)))
         else case line of
           [] \<Rightarrow> Inr (set_last_update st path mv (add_to_last_chunk (push_new [] \<circ> push_old []) cs))
         | ch # rest \<Rightarrow>
             if ch = SP then
               Inr (set_last_update st path mv (add_to_last_chunk (push_new rest \<circ> push_old rest) cs))
             else if ch = 43 then
               Inr (set_last_update st path mv (add_to_last_chunk (push_new rest) cs))
             else if ch = 45 then
               Inr (set_last_update st path mv (add_to_last_chunk (push_old rest) cs))
             else if cs \<noteq> [] \<and> \<not> chunk_is_empty (last cs) then
               Inl (InvalidHunkError (msg_need_context line) (sp_line_number st))
             else unexpected))"

definition process_line ::
  "streaming_patch_parser \<Rightarrow> rstr \<Rightarrow> (parse_error, streaming_patch_parser) rresult" where
  "process_line st line =
     (let trimmed = trim line;
          bad_header = Inl (InvalidHunkError (msg_bad_header trimmed) (sp_line_number st))
      in case mode st of
        NotStarted \<Rightarrow>
          if trimmed = BEGIN_PATCH_MARKER then Inr (st\<lparr>mode := StartedPatch\<rparr>)
          else Inl (InvalidPatchError msg_first_line)
      | StartedPatch \<Rightarrow>
          if is_environment_id_preamble_line line then Inr st
          else (case handle_hunk_headers_and_end_patch st trimmed of
                  Inl e \<Rightarrow> Inl e
                | Inr (handled, st') \<Rightarrow> if handled then Inr st' else bad_header)
      | InAddFile \<Rightarrow>
          (case handle_hunk_headers_and_end_patch st trimmed of
             Inl e \<Rightarrow> Inl e
           | Inr (handled, st') \<Rightarrow>
               if handled then Inr st'
               else (case (strip_prefix [43] line, last_opt (sp_hunks st)) of
                       (Some l, Some (AddFile p contents)) \<Rightarrow>
                         Inr (st\<lparr>sp_hunks := butlast (sp_hunks st) @ [AddFile p (contents @ l @ [LF])]\<rparr>)
                     | _ \<Rightarrow> bad_header))
      | InDeleteFile \<Rightarrow>
          (case handle_hunk_headers_and_end_patch st trimmed of
             Inl e \<Rightarrow> Inl e
           | Inr (handled, st') \<Rightarrow> if handled then Inr st' else bad_header)
      | InUpdateFile hunk_ln \<Rightarrow>
          (case handle_hunk_headers_and_end_patch st (trim_end line) of
             Inl e \<Rightarrow> Inl e
           | Inr (handled, st') \<Rightarrow>
               if handled then Inr st'
               else (case last_opt (sp_hunks st) of
                       Some (UpdateFile p mv cs) \<Rightarrow> process_update_line st line p mv cs
                     | _ \<Rightarrow> Inl (InvalidHunkError (msg_unexpected_line line) (sp_line_number st))))
      | EndedPatch \<Rightarrow> Inr st)"

definition push_char ::
  "streaming_patch_parser \<Rightarrow> rchar \<Rightarrow> streaming_patch_parser \<times> (parse_error, unit) rresult" where
  "push_char st ch =
     (if ch = LF then
        (let line = drop_cr (line_buffer st);
             st1 = st\<lparr>line_buffer := [], sp_line_number := sp_line_number st + 1\<rparr>
         in case process_line st1 line of
              Inl e \<Rightarrow> (st1, Inl e)
            | Inr st2 \<Rightarrow> (st2, Inr ()))
      else (st\<lparr>line_buffer := line_buffer st @ [ch]\<rparr>, Inr ()))"

fun push_chars ::
  "streaming_patch_parser \<Rightarrow> rstr \<Rightarrow> streaming_patch_parser \<times> (parse_error, unit) rresult" where
  "push_chars st [] = (st, Inr ())"
| "push_chars st (c # cs) =
     (case push_char st c of (st', Inl e) \<Rightarrow> (st', Inl e) | (st', Inr _) \<Rightarrow> push_chars st' cs)"

definition push_delta ::
  "streaming_patch_parser \<Rightarrow> rstr \<Rightarrow> streaming_patch_parser \<times> (parse_error, hunk list) rresult" where
  "push_delta st delta =
     (case push_chars st delta of
        (st', Inl e) \<Rightarrow> (st', Inl e)
      | (st', Inr _) \<Rightarrow> (st', Inr (sp_hunks st')))"

definition finish ::
  "streaming_patch_parser \<Rightarrow> streaming_patch_parser \<times> (parse_error, hunk list) rresult" where
  "finish st =
     (let flushed =
        (if line_buffer st = [] then (st, Inr ())
         else
           (let line = line_buffer st;
                st1 = st\<lparr>line_buffer := [], sp_line_number := sp_line_number st + 1\<rparr>
            in if trim line = END_PATCH_MARKER then
                 (case ensure_update_hunk_is_not_empty st1 (trim line) of
                    Inl e \<Rightarrow> (st1, Inl e)
                  | Inr _ \<Rightarrow> (st1\<lparr>mode := EndedPatch\<rparr>, Inr ()))
               else (case process_line st1 line of
                       Inl e \<Rightarrow> (st1, Inl e)
                     | Inr st2 \<Rightarrow> (st2, Inr ()))))
      in case flushed of
           (st', Inl e) \<Rightarrow> (st', Inl e)
         | (st', Inr _) \<Rightarrow>
             if mode st' \<noteq> EndedPatch then (st', Inl (InvalidPatchError msg_last_line))
             else (st', Inr (sp_hunks st')))"

section \<open>Cutting a stream\<close>

text \<open>
  The interface between the character loop and what one character does: a run consumes
  characters one at a time and stops at the first error. Cut points are invisible to it.
\<close>

locale char_stream =
  fixes step :: "'s \<Rightarrow> 'c \<Rightarrow> 's \<times> ('e, unit) rresult"
    and run :: "'s \<Rightarrow> 'c list \<Rightarrow> 's \<times> ('e, unit) rresult"
  assumes run_Nil: "run s [] = (s, Inr ())"
    and run_Cons: "run s (c # cs) =
      (case step s c of (s', Inl e) \<Rightarrow> (s', Inl e) | (s', Inr _) \<Rightarrow> run s' cs)"
begin

lemma run_append:
  "run s (xs @ ys) = (case run s xs of (s', Inl e) \<Rightarrow> (s', Inl e) | (s', Inr _) \<Rightarrow> run s' ys)"
proof (induction xs arbitrary: s)
  case Nil
  then show ?case by (simp add: run_Nil)
next
  case (Cons x xs)
  then show ?case by (simp add: run_Cons split: prod.splits sum.splits)
qed

lemma run_invariant:
  assumes "\<And>s c. I s \<Longrightarrow> I (fst (step s c))" "I s"
  shows "I (fst (run s cs))"
  using assms(2)
proof (induction cs arbitrary: s)
  case Nil
  then show ?case by (simp add: run_Nil)
next
  case (Cons c cs)
  then show ?case
    using assms(1)[of s c] by (auto simp: run_Cons split: prod.splits sum.splits)
qed

end

interpretation patch_chars: char_stream push_char push_chars
  by unfold_locales simp_all

text \<open>Feeding a list of deltas, stopping at the first error.\<close>

fun push_deltas ::
  "streaming_patch_parser \<Rightarrow> rstr list \<Rightarrow> streaming_patch_parser \<times> (parse_error, unit) rresult" where
  "push_deltas st [] = (st, Inr ())"
| "push_deltas st (d # ds) =
     (case push_delta st d of (st', Inl e) \<Rightarrow> (st', Inl e) | (st', Inr _) \<Rightarrow> push_deltas st' ds)"

lemma push_deltas_concat: "push_deltas st ds = push_chars st (concat ds)"
proof (induction ds arbitrary: st)
  case (Cons d ds)
  then show ?case
    by (auto simp: patch_chars.run_append push_delta_def split: prod.splits sum.splits)
qed simp

section \<open>The invariant\<close>

fun complete_hunk :: "hunk \<Rightarrow> bool" where
  "complete_hunk (UpdateFile p mv cs) \<longleftrightarrow> cs \<noteq> [] \<and> (\<forall>c\<in>set cs. \<not> chunk_is_empty c)"
| "complete_hunk _ \<longleftrightarrow> True"

definition open_hunk_ok :: "streaming_parser_mode \<Rightarrow> hunk list \<Rightarrow> bool" where
  "open_hunk_ok m hs =
     (case m of
        NotStarted \<Rightarrow> hs = []
      | StartedPatch \<Rightarrow> hs = []
      | InAddFile \<Rightarrow> (\<exists>p c. last_opt hs = Some (AddFile p c))
      | InDeleteFile \<Rightarrow> (\<exists>p. last_opt hs = Some (DeleteFile p))
      | InUpdateFile _ \<Rightarrow>
          (\<exists>p mv cs. last_opt hs = Some (UpdateFile p mv cs) \<and>
             (\<forall>c\<in>set (butlast cs). \<not> chunk_is_empty c))
      | EndedPatch \<Rightarrow> list_all complete_hunk hs)"

definition stream_inv :: "streaming_patch_parser \<Rightarrow> bool" where
  "stream_inv st \<longleftrightarrow>
     list_all complete_hunk (butlast (sp_hunks st)) \<and> open_hunk_ok (mode st) (sp_hunks st)"

lemma last_opt_Some: "last_opt xs = Some x \<longleftrightarrow> (\<exists>ys. xs = ys @ [x])"
  by (metis append_butlast_last_id last_opt_def last_snoc option.inject option.distinct(1) snoc_eq_iff_butlast)

lemma last_opt_None: "last_opt xs = None \<longleftrightarrow> xs = []"
  by (simp add: last_opt_def)

lemma last_opt_snoc [simp]: "last_opt (xs @ [x]) = Some x"
  by (simp add: last_opt_def)

lemma chunks_complete:
  assumes "\<forall>c\<in>set (butlast cs). \<not> chunk_is_empty c" "\<not> last_chunk_empty cs"
  shows "\<forall>c\<in>set cs. \<not> chunk_is_empty c"
  using assms by (cases cs rule: rev_cases) (auto simp: last_chunk_empty_def)

text \<open>Passing the emptiness check completes the open hunk.\<close>

lemma ensure_completes:
  assumes "stream_inv st" "ensure_update_hunk_is_not_empty st l = Inr u"
  shows "list_all complete_hunk (sp_hunks st)"
proof (cases "last_opt (sp_hunks st)")
  case None
  then show ?thesis by (simp add: last_opt_None)
next
  case (Some h)
  then obtain ys where hs: "sp_hunks st = ys @ [h]" by (auto simp: last_opt_Some)
  have "complete_hunk h"
  proof (cases h)
    case (UpdateFile p mv cs)
    with assms Some show ?thesis
      by (cases "mode st")
         (auto simp: stream_inv_def open_hunk_ok_def hs ensure_update_hunk_is_not_empty_def
            last_chunk_empty_def split: if_splits dest!: chunks_complete)
  qed simp_all
  with assms hs show ?thesis by (simp add: stream_inv_def)
qed

lemma handle_headers_inv:
  assumes "stream_inv st" "handle_hunk_headers_and_end_patch st l = Inr (True, st')"
  shows "stream_inv st'"
  using assms(2) ensure_completes[OF assms(1)]
  by (auto simp: handle_hunk_headers_and_end_patch_def stream_inv_def open_hunk_ok_def
      split: if_splits option.splits sum.splits)
     (auto simp: list_all_iff dest: in_set_butlastD)

lemma handle_headers_False:
  "handle_hunk_headers_and_end_patch st l = Inr (False, st') \<Longrightarrow> st' = st"
  by (auto simp: handle_hunk_headers_and_end_patch_def split: if_splits option.splits sum.splits)

lemma set_last_update_inv:
  assumes "stream_inv st" "mode st = InUpdateFile k" "\<forall>c\<in>set (butlast cs). \<not> chunk_is_empty c"
  shows "stream_inv (set_last_update st p mv cs)"
  using assms by (auto simp: stream_inv_def set_last_update_def open_hunk_ok_def)

lemma butlast_map_last: "butlast (map_last f xs) = butlast xs"
  by (simp add: map_last_def)

lemma butlast_add_to_last_chunk: "butlast (add_to_last_chunk f cs) = butlast cs"
  by (simp add: add_to_last_chunk_def butlast_map_last)

lemma process_update_line_inv:
  assumes "stream_inv st" "mode st = InUpdateFile k"
    and "\<forall>c\<in>set (butlast cs). \<not> chunk_is_empty c"
    and "process_update_line st line p mv cs = Inr st'"
  shows "stream_inv st'"
proof -
  have set_inv: "stream_inv (set_last_update st p mv' cs')"
    if "\<forall>c\<in>set (butlast cs'). \<not> chunk_is_empty c" for mv' cs'
    using set_last_update_inv[OF assms(1,2) that] .
  have full: "\<not> last_chunk_empty cs \<Longrightarrow> \<forall>c\<in>set cs. \<not> chunk_is_empty c"
    by (rule chunks_complete[OF assms(3)])
  show ?thesis
    using assms(4) full assms(3)
    by (auto simp: process_update_line_def Let_def butlast_map_last butlast_add_to_last_chunk
          starts_with_def intro!: set_inv split: if_splits option.splits list.splits)
qed

text \<open>Adding a line to the file being added.\<close>

lemma add_line_inv:
  assumes "stream_inv st" "mode st = InAddFile"
  shows "stream_inv (st\<lparr>sp_hunks := butlast (sp_hunks st) @ [AddFile p c]\<rparr>)"
  using assms by (auto simp: stream_inv_def open_hunk_ok_def)

lemma process_line_inv:
  assumes "stream_inv st" "process_line st line = Inr st'"
  shows "stream_inv st'"
proof (cases "mode st")
  case NotStarted
  with assms show ?thesis
    by (auto simp: process_line_def Let_def stream_inv_def open_hunk_ok_def split: if_splits)
next
  case StartedPatch
  with assms show ?thesis
    by (auto simp: process_line_def Let_def split: if_splits sum.splits dest: handle_headers_inv)
next
  case InAddFile
  with assms show ?thesis
    by (auto simp: process_line_def Let_def split: if_splits sum.splits option.splits hunk.splits
          dest: handle_headers_inv intro: add_line_inv)
next
  case InDeleteFile
  with assms show ?thesis
    by (auto simp: process_line_def Let_def split: if_splits sum.splits dest: handle_headers_inv)
next
  case (InUpdateFile k)
  then obtain p mv cs where "last_opt (sp_hunks st) = Some (UpdateFile p mv cs)"
      "\<forall>c\<in>set (butlast cs). \<not> chunk_is_empty c"
    using assms(1) by (auto simp: stream_inv_def open_hunk_ok_def)
  with InUpdateFile assms show ?thesis
    by (auto simp: process_line_def Let_def split: if_splits sum.splits)
       (blast intro: handle_headers_inv process_update_line_inv)+
next
  case EndedPatch
  with assms show ?thesis by (auto simp: process_line_def Let_def)
qed

lemma stream_inv_frame [simp]:
  "stream_inv (st\<lparr>line_buffer := b\<rparr>) = stream_inv st"
  "stream_inv (st\<lparr>sp_line_number := n\<rparr>) = stream_inv st"
  by (simp_all add: stream_inv_def)

lemma push_char_inv: "stream_inv st \<Longrightarrow> stream_inv (fst (push_char st c))"
  by (auto simp: push_char_def Let_def split: sum.splits dest!: process_line_inv[rotated])

lemma push_delta_inv: "stream_inv st \<Longrightarrow> stream_inv (fst (push_delta st d))"
  using patch_chars.run_invariant[of stream_inv st d, OF push_char_inv]
  by (auto simp: push_delta_def split: prod.splits sum.splits)

lemma finish_inv:
  assumes "stream_inv st" "finish st = (st', Inr hs)"
  shows "stream_inv st' \<and> mode st' = EndedPatch \<and> hs = sp_hunks st'"
proof -
  have end_inv: "stream_inv (st1\<lparr>mode := EndedPatch\<rparr>)"
    if "stream_inv st1" "ensure_update_hunk_is_not_empty st1 l = Inr u" for st1 l u
    using that ensure_completes[OF that]
    by (auto simp: stream_inv_def open_hunk_ok_def)
  show ?thesis
    using assms
    by (auto simp: finish_def Let_def split: if_splits sum.splits prod.splits
          dest: process_line_inv[rotated] end_inv[rotated])
qed

inductive reachable_parser :: "streaming_patch_parser \<Rightarrow> bool" where
  init: "reachable_parser streaming_default"
| delta: "reachable_parser st \<Longrightarrow> reachable_parser (fst (push_delta st d))"

lemma reachable_parser_inv: "reachable_parser st \<Longrightarrow> stream_inv st"
proof (induction rule: reachable_parser.induct)
  case init
  then show ?case by (simp add: streaming_default_def stream_inv_def open_hunk_ok_def)
next
  case (delta st d)
  then show ?case by (blast intro: push_delta_inv)
qed

text \<open>
  C30. Whatever deltas were pushed, and whether or not some of them failed: when \<open>finish\<close>
  returns hunks, every update hunk among them has at least one chunk and every chunk has
  at least one line.
\<close>

theorem finish_hunks_complete:
  assumes "reachable_parser st" "finish st = (st', Inr hs)"
  shows "list_all complete_hunk hs"
  using finish_inv[OF reachable_parser_inv[OF assms(1)] assms(2)]
  by (auto simp: stream_inv_def open_hunk_ok_def)

theorem finish_hunks_complete_witness:
  "list_all complete_hunk
     [UpdateFile (lit ''f'') None
        [\<lparr>change_context = None, old_lines = [lit ''a''], new_lines = [lit ''b''],
          is_end_of_file = False\<rparr>]]"
proof -
  let ?d = "render_patch None [WriteUpdate (lit ''f'') None
        [\<lparr>wc_context = None, wc_lines = [Remove (lit ''a''), Insert (lit ''b'')], wc_eof = False\<rparr>]]"
  have "reachable_parser (fst (push_delta streaming_default ?d))"
    by (intro reachable_parser.intros)
  moreover have "snd (finish (fst (push_delta streaming_default ?d))) =
    Inr [UpdateFile (lit ''f'') None
        [\<lparr>change_context = None, old_lines = [lit ''a''], new_lines = [lit ''b''],
          is_end_of_file = False\<rparr>]]"
    by code_simp
  ultimately show ?thesis
    by (metis finish_hunks_complete prod.collapse)
qed

end
