(* ===== verification/Streaming_Roundtrip.thy ===== *)
theory Streaming_Roundtrip
  imports Streaming_Patch
begin

text \<open>
  The streaming parser against the batch parser on every patch written after the grammar, cut into
  deltas in any way. Both read the same hunks, but the streaming parser trims context and move
  lines at their end: \<open>streamed\<close> is the difference.
\<close>

section \<open>What the streaming parser reads\<close>

definition streamed_chunk :: "update_file_chunk \<Rightarrow> update_file_chunk" where
  "streamed_chunk c =
     c\<lparr>change_context :=
         (case change_context c of
            None \<Rightarrow> None
          | Some x \<Rightarrow> if trim_end x = [] then None else Some (trim_end x))\<rparr>"

fun streamed :: "hunk \<Rightarrow> hunk" where
  "streamed (UpdateFile p mv cs) = UpdateFile p (map_option trim_end mv) (map streamed_chunk cs)"
| "streamed h = h"

text \<open>A hunk that moves its file names a destination; the streaming parser takes no blank one.\<close>

fun names_destination :: "written_hunk \<Rightarrow> bool" where
  "names_destination (WriteUpdate p (Some m) ws) \<longleftrightarrow> trim_end m \<noteq> []"
| "names_destination h \<longleftrightarrow> True"

section \<open>Whole lines\<close>

fun process_lines ::
  "streaming_patch_parser \<Rightarrow> rstr list \<Rightarrow> (parse_error, streaming_patch_parser) rresult" where
  "process_lines st [] = Inr st"
| "process_lines st (l # ls) =
     (case process_line (st\<lparr>sp_line_number := sp_line_number st + 1\<rparr>) l of
        Inl e \<Rightarrow> Inl e
      | Inr st' \<Rightarrow> process_lines st' ls)"

lemma buffer_id:
  "line_buffer st = [] \<Longrightarrow> st\<lparr>line_buffer := [], sp_line_number := n\<rparr> = st\<lparr>sp_line_number := n\<rparr>"
  by (cases st) simp

lemma hunks_id: "sp_hunks st = hs \<Longrightarrow> st\<lparr>sp_hunks := hs\<rparr> = st"
  by (cases st) simp

lemma push_chars_no_LF:
  "LF \<notin> set l \<Longrightarrow> push_chars st l = (st\<lparr>line_buffer := line_buffer st @ l\<rparr>, Inr ())"
  by (induction l arbitrary: st) (auto simp: push_char_def)

lemma handle_headers_buffer:
  "handle_hunk_headers_and_end_patch st l = Inr (b, st') \<Longrightarrow> line_buffer st' = line_buffer st"
  by (auto simp: handle_hunk_headers_and_end_patch_def split: if_splits option.splits sum.splits)

lemma process_update_line_buffer:
  "process_update_line st l p mv cs = Inr st' \<Longrightarrow> line_buffer st' = line_buffer st"
  by (auto simp: process_update_line_def set_last_update_def Let_def
      split: if_splits option.splits list.splits)

lemma process_line_buffer:
  "process_line st l = Inr st' \<Longrightarrow> line_buffer st' = line_buffer st"
  by (auto simp: process_line_def Let_def
      split: streaming_parser_mode.splits if_splits option.splits sum.splits hunk.splits
      dest: handle_headers_buffer process_update_line_buffer)

lemma push_chars_lines:
  assumes "list_all wf_line ls" "line_buffer st = []" "process_lines st ls = Inr st'"
  shows "push_chars st (concat (map (\<lambda>l. l @ [LF]) ls)) = (st', Inr ()) \<and> line_buffer st' = []"
  using assms
proof (induction ls arbitrary: st)
  case Nil
  then show ?case by simp
next
  case (Cons l ls)
  have l: "LF \<notin> set l" "drop_cr l = l"
    using Cons.prems by (auto simp: wf_line_def drop_cr_id)
  obtain st1 where st1: "process_line (st\<lparr>sp_line_number := sp_line_number st + 1\<rparr>) l = Inr st1"
      "process_lines st1 ls = Inr st'"
    using Cons.prems by (auto split: sum.splits)
  have "line_buffer st1 = []"
    using process_line_buffer[OF st1(1)] Cons.prems by simp
  then show ?case
    using Cons.IH[OF _ _ st1(2)] Cons.prems l st1(1)
    by (simp add: patch_chars.run_append push_chars_no_LF push_char_def Let_def buffer_id)
qed

section \<open>One hunk at a time\<close>

lemma trim_end_Cons: "\<not> is_whitespace c \<Longrightarrow> trim_end (c # s) = c # trim_end s"
  by (induction s rule: rev_induct) (auto simp: trim_end_snoc trim_end_snoc[of "[]", simplified] simp flip: append_Cons)

lemma trim_Cons: "\<not> is_whitespace c \<Longrightarrow> trim (c # s) = c # trim_end s"
  by (simp add: trim_def trim_start_Cons trim_end_Cons)

lemma handle_headers_skip:
  "l = [] \<or> hd l \<noteq> 42 \<Longrightarrow> handle_hunk_headers_and_end_patch st l = Inr (False, st)"
  by (cases l) (auto simp: handle_hunk_headers_and_end_patch_def marker_defs lit_def)

lemma ensure_passes:
  "list_all complete_hunk (sp_hunks st) \<Longrightarrow> ensure_update_hunk_is_not_empty st l = Inr ()"
  by (auto simp: ensure_update_hunk_is_not_empty_def last_opt_Some last_chunk_empty_def
      split: option.splits hunk.splits)

fun opened :: "written_hunk \<Rightarrow> hunk" where
  "opened (WriteAdd p ls) = AddFile p []"
| "opened (WriteDelete p) = DeleteFile p"
| "opened (WriteUpdate p mv ws) = UpdateFile p None []"

fun mode_for :: "written_hunk \<Rightarrow> nat \<Rightarrow> streaming_parser_mode" where
  "mode_for (WriteAdd p ls) n = InAddFile"
| "mode_for (WriteDelete p) n = InDeleteFile"
| "mode_for (WriteUpdate p mv ws) n = InUpdateFile n"

lemma trim_hunk_header:
  assumes "wf_hunk h"
  shows "trim (hunk_header h) = hunk_header h" "trim_end (hunk_header h) = hunk_header h"
proof -
  have p: "wf_path (case h of WriteAdd p ls \<Rightarrow> p | WriteDelete p \<Rightarrow> p | WriteUpdate p mv ws \<Rightarrow> p)"
    using assms by (cases h) auto
  show t: "trim (hunk_header h) = hunk_header h"
    using p by (cases h) (auto intro!: trim_header simp: header_markers simp del: append.simps)
  have "trim_start (hunk_header h) = hunk_header h"
    by (rule trim_start_id) (cases h; simp add: header_markers)
  with t show "trim_end (hunk_header h) = hunk_header h"
    by (simp add: trim_def)
qed

lemma handle_header_line:
  assumes "list_all complete_hunk (sp_hunks st)"
  shows "handle_hunk_headers_and_end_patch st (hunk_header h) =
    Inr (True, st\<lparr>sp_hunks := sp_hunks st @ [opened h], mode := mode_for h (sp_line_number st)\<rparr>)"
proof -
  have other:
    "ADD_FILE_MARKER @ p \<noteq> END_PATCH_MARKER" "DELETE_FILE_MARKER @ p \<noteq> END_PATCH_MARKER"
    "UPDATE_FILE_MARKER @ p \<noteq> END_PATCH_MARKER"
    "strip_prefix ADD_FILE_MARKER (DELETE_FILE_MARKER @ p) = None"
    "strip_prefix ADD_FILE_MARKER (UPDATE_FILE_MARKER @ p) = None"
    "strip_prefix DELETE_FILE_MARKER (UPDATE_FILE_MARKER @ p) = None" for p
    by (simp_all add: header_markers END_PATCH_MARKER_def)
  show ?thesis
    using assms
    by (cases h) (simp_all add: handle_hunk_headers_and_end_patch_def ensure_passes other)
qed

definition awaiting :: "streaming_patch_parser \<Rightarrow> bool" where
  "awaiting st \<longleftrightarrow> mode st \<noteq> NotStarted \<and> mode st \<noteq> EndedPatch \<and> list_all complete_hunk (sp_hunks st)"

lemma process_header_line:
  assumes "awaiting st" "wf_hunk h"
  shows "process_line st (hunk_header h) =
    Inr (st\<lparr>sp_hunks := sp_hunks st @ [opened h], mode := mode_for h (sp_line_number st)\<rparr>)"
proof -
  have env: "\<not> is_environment_id_preamble_line (hunk_header h)"
    by (cases h) (simp_all add: is_environment_id_preamble_line_def header_markers ENVIRONMENT_ID_MARKER_def)
  show ?thesis
    using assms handle_header_line[of st h]
    by (cases "mode st") (simp_all add: awaiting_def process_line_def Let_def env trim_hunk_header)
qed

subsection \<open>Added files\<close>

lemma process_add_lines:
  assumes "mode st = InAddFile" "sp_hunks st = hs @ [AddFile p c]"
  shows "process_lines st (map ((#) 43) xs @ ls) =
    process_lines (st\<lparr>sp_hunks := hs @ [AddFile p (c @ concat (map (\<lambda>l. l @ [LF]) xs))],
      sp_line_number := sp_line_number st + length xs\<rparr>) ls"
  using assms
proof (induction xs arbitrary: st c)
  case Nil
  then show ?case by (simp add: hunks_id)
next
  case (Cons x xs)
  then show ?case
    by (simp add: process_line_def Let_def trim_Cons handle_headers_skip)
qed

subsection \<open>Updated files\<close>

abbreviation upd_state ::
  "streaming_patch_parser \<Rightarrow> hunk list \<Rightarrow> rstr \<Rightarrow> rstr option \<Rightarrow> update_file_chunk list \<Rightarrow> nat \<Rightarrow>
   streaming_patch_parser" where
  "upd_state st hs p mv cs n \<equiv>
     st\<lparr>sp_hunks := hs @ [UpdateFile p mv cs], sp_line_number := sp_line_number st + n\<rparr>"

definition push_diff :: "diff_line \<Rightarrow> update_file_chunk \<Rightarrow> update_file_chunk" where
  "push_diff d c =
     c\<lparr>old_lines := old_lines c @ old_part d, new_lines := new_lines c @ new_part d\<rparr>"

lemma push_diff_eq:
  "push_diff (Keep l) = push_new l \<circ> push_old l" "push_diff Blank = push_new [] \<circ> push_old []"
  "push_diff (Remove l) = push_old l" "push_diff (Insert l) = push_new l"
  by (auto simp: push_diff_def push_new_def push_old_def)

lemma trim_end_head: "s \<noteq> [] \<Longrightarrow> trim_end s = [] \<or> hd (trim_end s) = hd s"
  by (induction s rule: rev_induct) (auto simp: trim_end_snoc hd_append split: if_splits)

lemma trim_end_diff_text:
  "trim_end (diff_text d) = [] \<or> (\<exists>r t. trim_end (diff_text d) = r # t \<and> r \<in> {32, 43, 45})"
  using trim_end_head[of "diff_text d"]
  by (cases d; cases "trim_end (diff_text d)") auto

lemma process_change_line:
  assumes "mode st = InUpdateFile k" "sp_hunks st = hs @ [UpdateFile p mv cs]" "cs \<noteq> []"
  shows "process_line st (diff_text d) =
      Inr (st\<lparr>sp_hunks := hs @ [UpdateFile p mv (map_last (push_diff d) cs)]\<rparr>)"
proof -
  let ?t = "trim_end (diff_text d)"
  have header: "handle_hunk_headers_and_end_patch st ?t = Inr (False, st)"
    using trim_end_diff_text[of d] by (intro handle_headers_skip) auto
  have markers: "?t \<noteq> EMPTY_CHANGE_CONTEXT_MARKER" "\<not> starts_with CHANGE_CONTEXT_MARKER ?t"
    "strip_prefix CHANGE_CONTEXT_MARKER ?t = None" "?t \<noteq> EOF_MARKER"
    using trim_end_diff_text[of d] by (auto simp: marker_defs lit_def starts_with_def)
  show ?thesis
    using assms header markers
    by (cases d) (simp_all add: process_line_def Let_def process_update_line_def push_diff_eq
      set_last_update_def add_to_last_chunk_def)
qed

lemma map_last_fuse [simp]: "map_last f (map_last g xs) = map_last (f \<circ> g) xs"
  by (simp add: map_last_def)

lemma map_last_ne [simp]: "map_last f xs = [] \<longleftrightarrow> xs = []"
  by (simp add: map_last_def)

lemma process_diff_lines:
  assumes "mode st = InUpdateFile k" "sp_hunks st = hs @ [UpdateFile p mv cs]" "cs \<noteq> []"
  shows "process_lines st (map diff_text ds @ ls) =
    process_lines (upd_state st hs p mv
      (map_last (\<lambda>c. c\<lparr>old_lines := old_lines c @ concat (map old_part ds),
         new_lines := new_lines c @ concat (map new_part ds)\<rparr>) cs) (length ds)) ls"
  using assms
proof (induction ds arbitrary: st cs)
  case Nil
  then show ?case by (simp add: map_last_def hunks_id)
next
  case (Cons d ds)
  have "(\<lambda>c. c\<lparr>old_lines := old_lines c @ concat (map old_part ds),
           new_lines := new_lines c @ concat (map new_part ds)\<rparr>) \<circ> push_diff d =
        (\<lambda>c. c\<lparr>old_lines := old_lines c @ concat (map old_part (d # ds)),
           new_lines := new_lines c @ concat (map new_part (d # ds))\<rparr>)"
    by (auto simp: push_diff_def)
  with Cons show ?case by (simp add: process_change_line)
qed

lemma trim_end_wf_path: "wf_path p \<Longrightarrow> trim_end (m @ p) = m @ p"
  by (metis append_assoc append_butlast_last_id trim_end_snoc wf_path_def)

lemma trim_end_append: "trim_end (m @ x) = (if trim_end x = [] then trim_end m else m @ trim_end x)"
  by (auto simp: trim_end_def dropWhile_append)

lemma process_context_line:
  assumes "mode st = InUpdateFile k" "sp_hunks st = hs @ [UpdateFile p mv cs]"
    and "\<not> last_chunk_empty cs"
  shows "process_line st (case wc_context c of None \<Rightarrow> EMPTY_CHANGE_CONTEXT_MARKER
        | Some ctx \<Rightarrow> CHANGE_CONTEXT_MARKER @ ctx) =
      Inr (st\<lparr>sp_hunks := hs @ [UpdateFile p mv (cs @ [streamed_chunk (new_chunk (wc_context c))])]\<rparr>)"
proof -
  have at: "trim_end [64, 64] = [64, 64]" "trim_end [64, 64, 32] = [64, 64]"
    by (simp_all add: trim_end_def is_whitespace_def)
  show ?thesis
  proof (cases "wc_context c")
    case None
    then show ?thesis
      using assms at
      by (simp add: process_line_def Let_def process_update_line_def handle_headers_skip
          marker_at set_last_update_def MOVE_TO_MARKER_def lit_def streamed_chunk_def new_chunk_def)
  next
    case (Some ctx)
    have t: "trim_end (64 # 64 # 32 # ctx) = (if trim_end ctx = [] then [64, 64] else 64 # 64 # 32 # trim_end ctx)"
      using trim_end_append[of "[64, 64, 32]" ctx] at by simp
    show ?thesis
      using assms Some
      by (cases "trim_end ctx = []")
         (simp_all add: t process_line_def Let_def process_update_line_def handle_headers_skip
          marker_at set_last_update_def MOVE_TO_MARKER_def lit_def streamed_chunk_def new_chunk_def)
  qed
qed

lemma process_eof_line:
  assumes "mode st = InUpdateFile k" "sp_hunks st = hs @ [UpdateFile p mv cs]"
    and "\<not> last_chunk_empty cs" "cs \<noteq> []"
  shows "process_line st EOF_MARKER =
      Inr (st\<lparr>sp_hunks := hs @ [UpdateFile p mv (map_last (\<lambda>c. c\<lparr>is_end_of_file := True\<rparr>) cs)]\<rparr>)"
proof -
  have t: "trim_end EOF_MARKER = EOF_MARKER"
    using trim_end_wf_path[of EOF_MARKER "[]"]
    by (simp add: wf_path_def EOF_MARKER_def lit_def is_whitespace_def)
  have h: "handle_hunk_headers_and_end_patch st EOF_MARKER = Inr (False, st)"
    by (simp add: handle_hunk_headers_and_end_patch_def marker_defs lit_def)
  have other: "strip_prefix MOVE_TO_MARKER EOF_MARKER = None" "EOF_MARKER \<noteq> EMPTY_CHANGE_CONTEXT_MARKER"
      "strip_prefix CHANGE_CONTEXT_MARKER EOF_MARKER = None"
    by (simp_all add: marker_defs lit_def)
  show ?thesis
    using assms
    by (simp add: process_line_def Let_def t h process_update_line_def other starts_with_def
        set_last_update_def)
qed

abbreviation chunk_read :: "written_chunk \<Rightarrow> update_file_chunk" where
  "chunk_read w \<equiv> streamed_chunk (chunk_of w)"

lemma chunk_of_nonempty: "wf_chunk w \<Longrightarrow> \<not> chunk_is_empty (chunk_read w)"
  using parts_nonempty[of "wc_lines w"]
  by (auto simp: wf_chunk_def chunk_is_empty_def chunk_of_def streamed_chunk_def)

lemma process_render_chunk:
  assumes "mode st = InUpdateFile k" "sp_hunks st = hs @ [UpdateFile p mv cs]"
    and "\<not> last_chunk_empty cs" "wf_chunk w"
  shows "process_lines st (render_chunk w @ ls) =
    process_lines (upd_state st hs p mv (cs @ [chunk_read w]) (length (render_chunk w))) ls"
proof -
  let ?c = "(chunk_read w)\<lparr>is_end_of_file := False\<rparr>" and ?n = "1 + length (wc_lines w)"
  define tail where "tail = (if wc_eof w then [EOF_MARKER] else []) @ ls"
  have body: "map_last (\<lambda>c. c\<lparr>old_lines := old_lines c @ concat (map old_part (wc_lines w)),
         new_lines := new_lines c @ concat (map new_part (wc_lines w))\<rparr>)
      (cs @ [streamed_chunk (new_chunk (wc_context w))]) = cs @ [?c]"
    by (simp add: map_last_def new_chunk_def chunk_of_def streamed_chunk_def)
  have full: "\<not> last_chunk_empty (cs @ [?c])"
    using chunk_of_nonempty[OF assms(4)] by (simp add: last_chunk_empty_def chunk_is_empty_def)
  have "process_lines st (render_chunk w @ ls) =
      process_lines (upd_state st hs p mv (cs @ [?c]) ?n) tail"
    using assms body tail_def
    by (simp add: render_chunk_def process_context_line process_diff_lines flip: tail_def)
  also have "\<dots> = process_lines (upd_state st hs p mv (cs @ [chunk_read w]) (length (render_chunk w))) ls"
    using assms full unfolding tail_def
    by (cases st) (simp add: process_eof_line map_last_def render_chunk_def chunk_of_def streamed_chunk_def)
  finally show ?thesis .
qed

lemma process_render_chunks:
  assumes "mode st = InUpdateFile k" "sp_hunks st = hs @ [UpdateFile p mv cs]"
    and "\<not> last_chunk_empty cs" "list_all wf_chunk ws"
  shows "process_lines st (concat (map render_chunk ws) @ ls) =
    process_lines (upd_state st hs p mv (cs @ map chunk_read ws) (length (concat (map render_chunk ws)))) ls"
  using assms
proof (induction ws arbitrary: st cs)
  case Nil
  then show ?case by (simp add: hunks_id)
next
  case (Cons w ws)
  have "\<not> last_chunk_empty (cs @ [chunk_read w])"
    using Cons.prems chunk_of_nonempty by (auto simp: last_chunk_empty_def)
  with Cons show ?case by (simp add: process_render_chunk algebra_simps)
qed

lemma process_move_line:
  assumes "mode st = InUpdateFile k" "sp_hunks st = hs @ [UpdateFile p None []]" "trim_end m \<noteq> []"
  shows "process_line st (MOVE_TO_MARKER @ m) = Inr (st\<lparr>sp_hunks := hs @ [UpdateFile p (Some (trim_end m)) []]\<rparr>)"
proof -
  have h: "handle_hunk_headers_and_end_patch st (MOVE_TO_MARKER @ x) = Inr (False, st)" for x
    by (simp add: handle_hunk_headers_and_end_patch_def marker_defs lit_def)
  show ?thesis
    using assms h trim_end_append[of MOVE_TO_MARKER m]
    by (simp add: process_line_def Let_def process_update_line_def set_last_update_def)
qed

subsection \<open>All hunks\<close>

abbreviation hunk_read :: "written_hunk \<Rightarrow> hunk" where
  "hunk_read h \<equiv> streamed (hunk_of h)"

lemma complete_hunk_read: "wf_hunk h \<Longrightarrow> complete_hunk (hunk_read h)"
  by (cases h) (auto simp: list_all_iff chunk_of_nonempty)

lemma process_render_hunk:
  assumes "awaiting st" "wf_hunk h" "names_destination h"
  shows "\<exists>st'. process_lines st (render_hunk h @ ls) = process_lines st' ls \<and>
    awaiting st' \<and> sp_hunks st' = sp_hunks st @ [hunk_read h]"
proof -
  let ?st = "st\<lparr>sp_line_number := sp_line_number st + 1\<rparr>"
  let ?st1 = "?st\<lparr>sp_hunks := sp_hunks st @ [opened h], mode := mode_for h (sp_line_number ?st)\<rparr>"
  have "awaiting ?st" using assms by (simp add: awaiting_def)
  then have step: "process_lines st (render_hunk h @ ls) = process_lines ?st1 (hunk_body h @ ls)"
    using process_header_line[of ?st h] assms(2) by (simp add: render_hunk_def)
  have fin: "awaiting (?st1\<lparr>sp_hunks := sp_hunks st @ [hunk_read h], sp_line_number := n\<rparr>)" for n
    using assms complete_hunk_read[OF assms(2)] by (cases h) (auto simp: awaiting_def)
  have "\<exists>n. process_lines ?st1 (hunk_body h @ ls) =
      process_lines (?st1\<lparr>sp_hunks := sp_hunks st @ [hunk_read h], sp_line_number := n\<rparr>) ls"
  proof (cases h)
    case (WriteAdd p xs)
    with assms show ?thesis
      by (intro exI[of _ "sp_line_number st + 1 + length xs"])
         (simp add: process_add_lines)
  next
    case (WriteDelete p)
    then show ?thesis
      by (cases st) (auto intro!: exI[of _ "sp_line_number ?st1"])
  next
    case (WriteUpdate p mv ws)
    then show ?thesis
      using assms
      by (cases mv)
         (auto simp: process_move_line process_render_chunks last_chunk_empty_def comp_def intro!: exI)
  qed
  with step fin show ?thesis by auto
qed

lemma process_render_hunks:
  assumes "awaiting st" "list_all wf_hunk hs" "list_all names_destination hs"
  shows "\<exists>st'. process_lines st (concat (map render_hunk hs)) = Inr st' \<and>
    awaiting st' \<and> sp_hunks st' = sp_hunks st @ map hunk_read hs"
  using assms
proof (induction hs arbitrary: st)
  case Nil
  then show ?case by simp
next
  case (Cons h hs)
  then obtain st1 where "process_lines st (render_hunk h @ concat (map render_hunk hs)) =
      process_lines st1 (concat (map render_hunk hs))" "awaiting st1" "sp_hunks st1 = sp_hunks st @ [hunk_read h]"
    using process_render_hunk[of st h] by auto
  with Cons.IH[of st1] Cons.prems show ?case by auto
qed

section \<open>The patch\<close>

lemma join_LF_lines: "join [LF] (ls @ [l]) = concat (map (\<lambda>l. l @ [LF]) ls) @ l"
  by (induction ls) (auto simp: join_Cons)

lemma process_environment_lines:
  "process_lines (streaming_default\<lparr>mode := StartedPatch, sp_line_number := n\<rparr>) (environment_lines env @ ls) =
   process_lines (streaming_default\<lparr>mode := StartedPatch, sp_line_number := n + length (environment_lines env)\<rparr>) ls"
  by (simp add: environment_lines_def process_line_def Let_def is_environment_id_preamble_line_def split: option.splits)

lemma push_render_patch:
  assumes "wf_env env" "list_all wf_hunk hs" "list_all names_destination hs"
  shows "\<exists>st. push_chars streaming_default (render_patch env hs) = (st, Inr ()) \<and>
    snd (finish st) = Inr (map hunk_read hs)"
proof -
  let ?ls = "BEGIN_PATCH_MARKER # environment_lines env @ concat (map render_hunk hs)"
  let ?st0 = "streaming_default\<lparr>mode := StartedPatch, sp_line_number := 1 + length (environment_lines env)\<rparr>"
  have "process_lines streaming_default ?ls = process_lines
      (streaming_default\<lparr>mode := StartedPatch, sp_line_number := 1\<rparr>) (environment_lines env @ concat (map render_hunk hs))"
    by (simp add: process_line_def Let_def streaming_default_def trim_id BEGIN_PATCH_MARKER_def lit_def)
  then have b: "process_lines streaming_default ?ls = process_lines ?st0 (concat (map render_hunk hs))"
    by (simp only: process_environment_lines)
  obtain st where st: "process_lines streaming_default ?ls = Inr st" "awaiting st" "sp_hunks st = map hunk_read hs"
    using process_render_hunks[of ?st0 hs] assms(2,3) unfolding b
    by (auto simp: awaiting_def streaming_default_def)
  have "list_all wf_line ?ls" using wf_patch_lines[OF assms(1,2)] by (simp add: patch_lines_def)
  then have chars: "push_chars streaming_default (concat (map (\<lambda>l. l @ [LF]) ?ls)) = (st, Inr ())"
      "line_buffer st = []"
    using push_chars_lines[OF _ _ st(1)] by (auto simp: streaming_default_def)
  let ?st1 = "st\<lparr>line_buffer := END_PATCH_MARKER\<rparr>"
  have "LF \<notin> set END_PATCH_MARKER" using wf_line_markers(2) by (simp add: wf_line_def)
  moreover have "render_patch env hs = concat (map (\<lambda>l. l @ [LF]) ?ls) @ END_PATCH_MARKER"
    unfolding render_patch_def patch_lines_def
    using join_LF_lines[of ?ls END_PATCH_MARKER] by simp
  ultimately have "push_chars streaming_default (render_patch env hs) = (?st1, Inr ())"
    using chars by (simp only: patch_chars.run_append) (simp add: push_chars_no_LF)
  moreover have "snd (finish ?st1) = Inr (map hunk_read hs)"
  proof -
    have "trim END_PATCH_MARKER = END_PATCH_MARKER" "END_PATCH_MARKER \<noteq> []"
      by (simp_all add: trim_id END_PATCH_MARKER_def lit_def)
    then show ?thesis
      using st by (simp add: finish_def Let_def ensure_passes awaiting_def)
  qed
  ultimately show ?thesis by blast
qed

text \<open>
  C6. Streaming against batch parsing: take a patch written after the grammar, with or without an
  environment id, and cut its text into deltas in any way. Every delta is accepted, and \<open>finish\<close>
  returns the hunks that \<open>parse_patch\<close> returns for the whole text, which are the hunks the patch
  denotes, but for one thing: \<open>finish\<close> has dropped the blanks at the end of the contexts and of
  the destinations of moves, and takes a context of blanks for none. The written patch has a path
  that does not end in a blank in each hunk header, a destination that is not all blanks in each
  move, at least one chunk in each update and one line in each chunk, no carriage return at the
  end of a line, and no blank environment id.
\<close>

theorem streaming_agrees_with_batch:
  assumes "wf_env env" "list_all wf_hunk hs" "list_all names_destination hs" "concat ds = render_patch env hs"
  shows "\<exists>st args. push_deltas streaming_default ds = (st, Inr ()) \<and>
     parse_patch (concat ds) = Inr args \<and> hunks args = map hunk_of hs \<and>
     snd (finish st) = Inr (map streamed (hunks args))"
proof -
  obtain st where "push_chars streaming_default (render_patch env hs) = (st, Inr ())" "snd (finish st) = Inr (map hunk_read hs)"
    using push_render_patch[OF assms(1-3)] by blast
  with assms(1,2,4) show ?thesis
    by (auto simp: push_deltas_concat parse_patch_rendered)
qed

definition sample_update :: "written_hunk list" where
  "sample_update = [WriteUpdate (lit ''a'') (Some (lit ''b ''))
     [\<lparr>wc_context = Some (lit ''f  ''), wc_lines = [Keep (lit ''k''), Remove (lit ''x''), Blank], wc_eof = False\<rparr>]]"

theorem streaming_agrees_with_batch_witness:
  "\<exists>st args.
     push_deltas streaming_default
       [take 7 (render_patch (Some (lit ''e'')) sample_update), drop 7 (render_patch (Some (lit ''e'')) sample_update)] =
       (st, Inr ()) \<and>
     parse_patch (concat
       [take 7 (render_patch (Some (lit ''e'')) sample_update), drop 7 (render_patch (Some (lit ''e'')) sample_update)]) =
       Inr args \<and>
     hunks args = map hunk_of sample_update \<and> snd (finish st) = Inr (map streamed (hunks args))"
proof (rule streaming_agrees_with_batch[where env = "Some (lit ''e'')"])
  show "wf_env (Some (lit ''e''))" by code_simp
  show "list_all wf_hunk sample_update"
    by (simp add: sample_update_def wf_path_def wf_chunk_def wf_line_def lit_def is_whitespace_def ends_with_single)
  show "list_all names_destination sample_update" by code_simp
qed simp

text \<open>
  \<open>finish\<close> accepts a stream that never opened a patch: a lone end marker, not followed
  by a line feed, is accepted with no hunks, while the batch parser rejects the same text.
\<close>

theorem streaming_accepts_unopened_patch:
  "snd (finish (fst (push_delta streaming_default END_PATCH_MARKER))) = Inr [] \<and>
   parse_patch END_PATCH_MARKER = Inl (InvalidPatchError msg_first_line)"
proof
  have t: "trim END_PATCH_MARKER = END_PATCH_MARKER" "END_PATCH_MARKER \<noteq> []" "LF \<notin> set END_PATCH_MARKER"
    by (simp_all add: trim_id END_PATCH_MARKER_def lit_def)
  show "snd (finish (fst (push_delta streaming_default END_PATCH_MARKER))) = Inr []"
    using t by (simp add: push_delta_def push_chars_no_LF streaming_default_def finish_def Let_def ensure_passes)
  have "str_lines END_PATCH_MARKER = [END_PATCH_MARKER]"
    using t by (simp add: str_lines_def split_on_no_sep)
  moreover have "END_PATCH_MARKER \<noteq> BEGIN_PATCH_MARKER"
    by (simp add: marker_defs lit_def)
  ultimately show "parse_patch END_PATCH_MARKER = Inl (InvalidPatchError msg_first_line)"
    using t
    by (simp add: parse_patch_def PARSE_IN_STRICT_MODE_def parse_patch_text_def Let_def
        check_patch_boundaries_lenient_def check_patch_boundaries_strict_def
        check_start_and_end_lines_strict_def first_opt_def last_opt_def)
qed

end
