(* ===== verification/Absolute_Path.thy ===== *)
theory Absolute_Path
  imports Rust_Prelude
begin

text \<open>
  \<open>utils/absolute-path\<close> on Unix: resolving a path against a base directory. The crate
  promises that an \<open>AbsolutePathBuf\<close> is absolute and normalised; both are shown for
  \<open>resolve_path_against_base\<close>. The home directory, which the code asks the system for, is
  a parameter. A \<open>PathBuf\<close> under construction is a flag for the leading slash and the list
  of its names.
\<close>

section \<open>Paths as strings\<close>

abbreviation SLASH :: rchar where "SLASH \<equiv> 47"

definition is_absolute :: "rstr \<Rightarrow> bool" where
  "is_absolute p \<longleftrightarrow> starts_with [SLASH] p"

datatype path_component = RootDir | CurDir | ParentDir | Normal rstr

definition component_of :: "rstr \<Rightarrow> path_component" where
  "component_of s = (if s = lit ''.'' then CurDir else if s = lit ''..'' then ParentDir else Normal s)"

text \<open>\<open>Path::components\<close>: repeated slashes vanish, \<open>.\<close> survives only at the start of a relative path.\<close>

definition components :: "rstr \<Rightarrow> path_component list" where
  "components p =
     (let cs = map component_of (filter (\<lambda>s. s \<noteq> []) (split_on SLASH p)) in
      if is_absolute p then RootDir # filter (\<lambda>c. c \<noteq> CurDir) cs
      else (case cs of
              CurDir # rest \<Rightarrow> CurDir # filter (\<lambda>c. c \<noteq> CurDir) rest
            | _ \<Rightarrow> filter (\<lambda>c. c \<noteq> CurDir) cs))"

text \<open>\<open>PathBuf::join\<close>.\<close>

definition path_join :: "rstr \<Rightarrow> rstr \<Rightarrow> rstr" where
  "path_join base p =
     (if is_absolute p then p
      else if base = [] \<or> last base = SLASH then base @ p
      else base @ SLASH # p)"

section \<open>Normalisation\<close>

type_synonym pathbuf = "bool \<times> rstr list"

fun push_component :: "pathbuf \<Rightarrow> path_component \<Rightarrow> pathbuf" where
  "push_component (r, ns) CurDir = (r, ns)"
| "push_component (r, ns) ParentDir = (r, butlast ns)"
| "push_component (r, ns) RootDir = (True, [])"
| "push_component (r, ns) (Normal s) = (r, ns @ [s])"

fun as_os_str :: "pathbuf \<Rightarrow> rstr" where
  "as_os_str (r, ns) = (if r then [SLASH] else []) @ join [SLASH] ns"

definition normalize_path :: "rstr \<Rightarrow> rstr" where
  "normalize_path p =
     (let normalized = as_os_str (foldl push_component (False, []) (components p))
      in if normalized = [] then lit ''.'' else normalized)"

definition path_with_base :: "rstr \<Rightarrow> rstr \<Rightarrow> rstr" where
  "path_with_base p base_path = (if is_absolute p then p else path_join base_path p)"

definition absolutize_from :: "rstr \<Rightarrow> rstr \<Rightarrow> rstr" where
  "absolutize_from p base_path = normalize_path (path_with_base p base_path)"

definition absolutize :: "rstr \<Rightarrow> rstr \<Rightarrow> rstr" where
  "absolutize p current_dir =
     (if is_absolute p then normalize_path p else absolutize_from p current_dir)"

definition maybe_expand_home_directory :: "rstr option \<Rightarrow> rstr \<Rightarrow> rstr" where
  "maybe_expand_home_directory home_dir p =
     (case home_dir of
        None \<Rightarrow> p
      | Some home \<Rightarrow>
          (case strip_prefix (lit ''~'') p of
             None \<Rightarrow> p
           | Some rest \<Rightarrow>
               if rest = [] then home
               else (case strip_prefix [SLASH] rest of
                       Some r \<Rightarrow> path_join home (dropWhile (\<lambda>c. c = SLASH) r)
                     | None \<Rightarrow> p)))"

definition resolve_path_against_base :: "rstr option \<Rightarrow> rstr \<Rightarrow> rstr \<Rightarrow> rstr" where
  "resolve_path_against_base home_dir p base_path =
     absolutize_from (maybe_expand_home_directory home_dir p) base_path"

text \<open>\<open>AbsolutePathBuf::parent\<close>, on the normalised absolute paths the type holds.\<close>

definition parent :: "rstr \<Rightarrow> rstr option" where
  "parent p =
     (case components p of
        RootDir # rest \<Rightarrow>
          if rest = [] then None
          else Some (as_os_str (foldl push_component (True, []) (butlast rest)))
      | _ \<Rightarrow> None)"

text \<open>
  \<open>AbsolutePathBuf::from_absolute_path\<close>, which the conversions from strings and paths use: a
  relative path is not rejected but taken against the current directory, a parameter that is
  \<open>None\<close> when the system cannot tell it.
\<close>

definition from_absolute_path :: "rstr option \<Rightarrow> rstr option \<Rightarrow> rstr \<Rightarrow> rstr option" where
  "from_absolute_path home_dir current_dir p =
     (let expanded = maybe_expand_home_directory home_dir p
      in if is_absolute expanded then Some (normalize_path expanded)
         else map_option (\<lambda>cwd. absolutize expanded cwd) current_dir)"

text \<open>\<open>Path::file_name\<close> and \<open>Path::file_stem\<close>.\<close>

definition file_name :: "rstr \<Rightarrow> rstr option" where
  "file_name p = (case last_opt (components p) of Some (Normal s) \<Rightarrow> Some s | _ \<Rightarrow> None)"

definition file_stem :: "rstr \<Rightarrow> rstr option" where
  "file_stem p =
     map_option (\<lambda>name.
       let upto_dot = rev (dropWhile (\<lambda>c. c \<noteq> 46) (rev name))
       in if length upto_dot \<le> 1 then name else butlast upto_dot) (file_name p)"

section \<open>Normalised paths\<close>

definition plain_name :: "rstr \<Rightarrow> bool" where
  "plain_name s \<longleftrightarrow> s \<noteq> [] \<and> SLASH \<notin> set s \<and> s \<noteq> lit ''.'' \<and> s \<noteq> lit ''..''"

lemma component_of_plain: "plain_name s \<Longrightarrow> component_of s = Normal s"
  by (simp add: plain_name_def component_of_def)

lemma components_subset:
  "set (components p) \<subseteq> {RootDir, CurDir} \<union> component_of ` {s \<in> set (split_on SLASH p). s \<noteq> []}"
proof -
  define cs where "cs = map component_of (filter (\<lambda>s. s \<noteq> []) (split_on SLASH p))"
  have "set (components p) \<subseteq> {RootDir, CurDir} \<union> set cs"
    unfolding components_def cs_def[symmetric] Let_def
    by (auto split: list.splits path_component.splits if_splits)
  then show ?thesis by (simp add: cs_def)
qed

lemma components_names:
  assumes "Normal s \<in> set (components p)"
  shows "plain_name s"
proof -
  from assms components_subset obtain t where
    t: "t \<in> set (split_on SLASH p)" "t \<noteq> []" "Normal s = component_of t" by blast
  then have "s = t" "t \<noteq> lit ''.''" "t \<noteq> lit ''..''"
    by (auto simp: component_of_def split: if_splits)
  with t split_on_pieces[OF t(1)] show ?thesis by (simp add: plain_name_def)
qed

lemma foldl_push_plain:
  assumes "\<And>s. Normal s \<in> set cs \<Longrightarrow> plain_name s" "list_all plain_name ns"
  shows "list_all plain_name (snd (foldl push_component (r, ns) cs))"
  using assms
proof (induction cs arbitrary: r ns)
  case (Cons c cs)
  obtain r' ns' where p: "push_component (r, ns) c = (r', ns')" by fastforce
  have "list_all plain_name ns'"
    using p Cons.prems by (cases c) (auto simp: list_all_iff dest: in_set_butlastD)
  then show ?case using Cons.IH[of ns' r'] Cons.prems(1) p by simp
qed simp

lemma foldl_push_rooted: "fst (foldl push_component (True, ns) cs)"
proof (induction cs arbitrary: ns)
  case (Cons c cs)
  then show ?case by (cases c) auto
qed simp

lemma foldl_push_Normal: "foldl push_component (r, ns) (map Normal ms) = (r, ns @ ms)"
  by (induction ms arbitrary: ns) auto

lemma split_on_rooted:
  assumes "list_all plain_name ns"
  shows "filter (\<lambda>s. s \<noteq> []) (split_on SLASH (SLASH # join [SLASH] ns)) = ns"
proof (cases "ns = []")
  case False
  with assms have "split_on SLASH (join [SLASH] ns) = ns"
    by (intro split_on_join) (auto simp: plain_name_def list_all_iff)
  with assms show ?thesis by (auto simp: plain_name_def list_all_iff filter_id_conv)
qed simp

lemma components_rooted:
  assumes "list_all plain_name ns"
  shows "components (as_os_str (True, ns)) = RootDir # map Normal ns"
proof -
  have "map component_of ns = map Normal ns"
    using assms by (auto simp: component_of_plain list_all_iff)
  then show ?thesis
    using split_on_rooted[OF assms]
    by (simp add: components_def Let_def is_absolute_def filter_id_conv)
qed

lemma components_absolute: "is_absolute p \<Longrightarrow> \<exists>cs. components p = RootDir # cs"
  by (simp add: components_def Let_def)

lemma normalize_path_absolute:
  assumes "is_absolute p"
  shows "\<exists>ns. list_all plain_name ns \<and> normalize_path p = as_os_str (True, ns)"
proof -
  obtain cs where cs: "components p = RootDir # cs"
    using components_absolute[OF assms] by blast
  obtain ns where ns: "foldl push_component (True, []) cs = (True, ns)"
    using foldl_push_rooted[of "[]" cs] by (metis prod.collapse)
  have "list_all plain_name ns"
    using foldl_push_plain[of cs "[]" True] components_names[of _ p] ns cs by auto
  with cs ns show ?thesis by (auto simp: normalize_path_def)
qed

lemma normalize_path_rooted:
  "list_all plain_name ns \<Longrightarrow> normalize_path (as_os_str (True, ns)) = as_os_str (True, ns)"
  using components_rooted[of ns] foldl_push_Normal[of True "[]" ns] by (simp add: normalize_path_def)

lemma path_join_absolute: "is_absolute base \<Longrightarrow> is_absolute (path_join base p)"
  by (auto simp: path_join_def is_absolute_def starts_with_iff)

lemma path_with_base_absolute: "is_absolute base \<Longrightarrow> is_absolute (path_with_base p base)"
  by (simp add: path_with_base_def path_join_absolute)

lemma resolve_rooted:
  "is_absolute base \<Longrightarrow>
   \<exists>ns. list_all plain_name ns \<and> resolve_path_against_base home_dir p base = as_os_str (True, ns)"
  unfolding resolve_path_against_base_def absolutize_from_def
  by (intro normalize_path_absolute path_with_base_absolute)

lemma parent_rooted:
  assumes "list_all plain_name ns"
  shows "parent (as_os_str (True, ns)) =
    (if ns = [] then None else Some (as_os_str (True, butlast ns)))"
  unfolding parent_def components_rooted[OF assms]
  using foldl_push_Normal[of True "[]" "butlast ns"] by (simp flip: map_butlast)

lemma file_name_rooted:
  assumes "list_all plain_name ns"
  shows "file_name (as_os_str (True, ns)) = last_opt ns"
  unfolding file_name_def components_rooted[OF assms] last_opt_def by (simp add: last_map)

lemma file_name_plain: "file_name p = Some s \<Longrightarrow> plain_name s"
  using components_names[of s p] unfolding file_name_def last_opt_def
  by (auto split: if_splits path_component.splits dest: last_in_set)

subsection \<open>Joining\<close>

lemma split_on_append: "split_on c (a @ c # b) = split_on c a @ split_on c b"
proof (induction a)
  case (Cons x a)
  show ?case
  proof (cases "x = c")
    case False
    obtain p ps where "split_on c a = p # ps" by (metis split_on_nonempty list.exhaust)
    with Cons False show ?thesis by simp
  qed (use Cons in simp)
qed simp

lemma components_join:
  assumes "is_absolute base" "\<not> is_absolute p"
  shows "components (path_join base p) =
    components base @ filter (\<lambda>c. c \<noteq> CurDir) (map component_of (filter (\<lambda>s. s \<noteq> []) (split_on SLASH p)))"
proof -
  have ne: "base \<noteq> []" using assms(1) by (auto simp: is_absolute_def starts_with_iff)
  have "filter (\<lambda>s. s \<noteq> []) (split_on SLASH (path_join base p))
      = filter (\<lambda>s. s \<noteq> []) (split_on SLASH base) @ filter (\<lambda>s. s \<noteq> []) (split_on SLASH p)"
  proof (cases "last base = SLASH")
    case True
    then obtain b where b: "base = b @ SLASH # []" using ne by (metis append_butlast_last_id)
    then have "path_join base p = b @ SLASH # p" using True assms(2) by (simp add: path_join_def)
    then show ?thesis by (simp add: split_on_append b)
  next
    case False
    then have "path_join base p = base @ SLASH # p" using ne assms(2) by (simp add: path_join_def)
    then show ?thesis by (simp add: split_on_append)
  qed
  then show ?thesis
    using assms path_join_absolute[OF assms(1), of p] by (simp add: components_def Let_def)
qed

text \<open>A program named relative to the current directory.\<close>

lemma from_absolute_path_dot:
  assumes "is_absolute cwd" "plain_name name"
  obtains program where "from_absolute_path home_dir (Some cwd) (lit ''./'' @ name) = Some program"
    and "file_name program = Some name"
proof -
  let ?p = "lit ''./'' @ name"
  have lit: "lit ''./'' = [46, SLASH]" "lit ''.'' = [46]" "lit ''~'' = [126]" by (simp_all add: lit_def)
  have rel: "\<not> is_absolute ?p" by (simp add: is_absolute_def lit)
  have home: "maybe_expand_home_directory home_dir ?p = ?p"
    by (simp add: maybe_expand_home_directory_def lit split: option.splits)
  have "split_on SLASH ?p = [[46], name]"
    using assms(2) split_on_append_sep[of SLASH "[46]" name] by (simp add: lit plain_name_def split_on_no_sep)
  then have comps: "components (path_join cwd ?p) = components cwd @ [Normal name]"
    using components_join[OF assms(1) rel] assms(2) component_of_plain[OF assms(2)]
    by (simp add: plain_name_def component_of_def lit)
  obtain cs where cs: "components cwd = RootDir # cs" using components_absolute[OF assms(1)] by blast
  obtain ns where ns: "foldl push_component (True, []) cs = (True, ns)"
    using foldl_push_rooted[of "[]" cs] by (metis prod.collapse)
  have plain: "list_all plain_name (ns @ [name])"
    using foldl_push_plain[of cs "[]" True] components_names[of _ cwd] ns cs assms(2) by auto
  have "normalize_path (path_join cwd ?p) = as_os_str (True, ns @ [name])"
    using comps cs ns by (simp add: normalize_path_def Let_def)
  then have "from_absolute_path home_dir (Some cwd) ?p = Some (as_os_str (True, ns @ [name]))"
    using rel by (simp add: from_absolute_path_def home absolutize_def absolutize_from_def path_with_base_def
        del: as_os_str.simps)
  then show thesis using that file_name_rooted[OF plain] by (simp add: last_opt_def del: as_os_str.simps)
qed

text \<open>
  C36. The promise of \<open>AbsolutePathBuf\<close>: resolving any path (relative, absolute, with dots,
  with a tilde) against an absolute base gives an absolute path without empty, \<open>.\<close> or
  \<open>..\<close> components, which normalising again does not change; and following \<open>parent\<close> stays
  within such paths.
\<close>

theorem resolve_absolute_normalised:
  assumes "is_absolute base" and "r = resolve_path_against_base home_dir p base"
  shows "is_absolute r \<and> normalize_path r = r
    \<and> (\<exists>ns. list_all plain_name ns \<and> components r = RootDir # map Normal ns)
    \<and> (\<forall>q. parent r = Some q \<longrightarrow> is_absolute q \<and> normalize_path q = q)"
proof -
  obtain ns where ns: "list_all plain_name ns" "r = as_os_str (True, ns)"
    using resolve_rooted[OF assms(1)] assms(2) by blast
  have abs: "is_absolute (as_os_str (True, ms))" for ms
    by (simp add: is_absolute_def)
  have plain: "list_all plain_name (butlast ns)"
    using ns(1) by (auto simp: list_all_iff dest: in_set_butlastD)
  have "is_absolute q \<and> normalize_path q = q" if "parent r = Some q" for q
    using that parent_rooted[OF ns(1)] ns(2) abs normalize_path_rooted[OF plain]
    by (auto split: if_splits simp del: as_os_str.simps)
  with ns abs normalize_path_rooted[OF ns(1)] components_rooted[OF ns(1)] show ?thesis
    by (auto simp del: as_os_str.simps)
qed

theorem resolve_absolute_normalised_witness:
  "resolve_path_against_base (Some (lit ''/home/u'')) (lit ''~//a/./../b'') (lit ''/work'')
     = lit ''/home/u/b''
   \<and> parent (lit ''/home/u/b'') = Some (lit ''/home/u'')
   \<and> normalize_path (lit ''/home/u'') = lit ''/home/u''"
proof -
  have r: "resolve_path_against_base (Some (lit ''/home/u'')) (lit ''~//a/./../b'') (lit ''/work'')
     = lit ''/home/u/b''" by code_simp
  have q: "parent (lit ''/home/u/b'') = Some (lit ''/home/u'')" by code_simp
  have "is_absolute (lit ''/work'')" by code_simp
  from resolve_absolute_normalised[OF this r[symmetric]] q r show ?thesis by blast
qed

end
