(* ===== verification/Seek_Sequence.thy ===== *)
theory Seek_Sequence
  imports Rust_Prelude
begin

text \<open>
  \<open>apply-patch/src/seek_sequence.rs\<close>: locating a block of lines in a file with four passes
  of decreasing strictness (equal, equal up to trailing whitespace, up to surrounding
  whitespace, up to typographic punctuation). The passes share one interface, a line
  normaliser; the locale \<open>coarser\<close> states what one pass promises over the pass before it
  and is interpreted on each consecutive pair.
\<close>

section \<open>Definitions\<close>

text \<open>The character map of the nested \<open>normalise\<close> function.\<close>

definition normalise_char :: "rchar \<Rightarrow> rchar" where
  "normalise_char c =
     (if c \<in> {8208, 8209, 8210, 8211, 8212, 8213, 8722} then 45
      else if c \<in> {8216, 8217, 8218, 8219} then 39
      else if c \<in> {8220, 8221, 8222, 8223} then 34
      else if c \<in> {160, 8194, 8195, 8196, 8197, 8198, 8199, 8200, 8201, 8202, 8239, 8287, 12288}
      then 32 else c)"

definition normalise :: "rstr \<Rightarrow> rstr" where
  "normalise s = map normalise_char (trim s)"

text \<open>
  One pass over the candidate positions \<open>search_start..=last\<close>: the first position whose
  window of lines agrees with the pattern, line by line, after \<open>f\<close>.
\<close>

definition window_matches :: "(rstr \<Rightarrow> rstr) \<Rightarrow> rstr list \<Rightarrow> rstr list \<Rightarrow> nat \<Rightarrow> bool" where
  "window_matches f ls pattern i \<longleftrightarrow>
     list_all2 (\<lambda>l p. f l = f p) (take (length pattern) (drop i ls)) pattern"

definition seek_pass :: "(rstr \<Rightarrow> rstr) \<Rightarrow> rstr list \<Rightarrow> rstr list \<Rightarrow> nat \<Rightarrow> nat option" where
  "seek_pass f ls pattern search_start =
     find (window_matches f ls pattern) [search_start..<Suc (length ls - length pattern)]"

definition search_start :: "rstr list \<Rightarrow> rstr list \<Rightarrow> nat \<Rightarrow> bool \<Rightarrow> nat" where
  "search_start ls pattern start eof =
     (if eof \<and> length pattern \<le> length ls then length ls - length pattern else start)"

definition seek_sequence :: "rstr list \<Rightarrow> rstr list \<Rightarrow> nat \<Rightarrow> bool \<Rightarrow> nat option" where
  "seek_sequence ls pattern start eof =
     (if pattern = [] then Some start
      else if length pattern > length ls then None
      else
        let s = search_start ls pattern start eof in
        case seek_pass id ls pattern s of
          Some i \<Rightarrow> Some i
        | None \<Rightarrow>
            (case seek_pass trim_end ls pattern s of
               Some i \<Rightarrow> Some i
             | None \<Rightarrow>
                 (case seek_pass trim ls pattern s of
                    Some i \<Rightarrow> Some i
                  | None \<Rightarrow> seek_pass normalise ls pattern s)))"

section \<open>One pass\<close>

text \<open>The positions a search may return.\<close>

definition candidate :: "rstr list \<Rightarrow> rstr list \<Rightarrow> nat \<Rightarrow> nat \<Rightarrow> bool" where
  "candidate ls pattern s i \<longleftrightarrow> s \<le> i \<and> i \<le> length ls - length pattern"

lemma seek_pass_Some:
  "seek_pass f ls pattern s = Some i \<longleftrightarrow>
     candidate ls pattern s i \<and> window_matches f ls pattern i \<and>
     (\<forall>j. s \<le> j \<and> j < i \<longrightarrow> \<not> window_matches f ls pattern j)"
proof -
  let ?xs = "[s..<Suc (length ls - length pattern)]"
  have "seek_pass f ls pattern s = Some i \<longleftrightarrow>
      (\<exists>k<length ?xs. window_matches f ls pattern (?xs ! k) \<and> i = ?xs ! k \<and>
        (\<forall>j<k. \<not> window_matches f ls pattern (?xs ! j)))"
    unfolding seek_pass_def find_Some_iff by blast
  also have "\<dots> \<longleftrightarrow> (\<exists>k. i = s + k \<and> s + k \<le> length ls - length pattern \<and>
       window_matches f ls pattern i \<and> (\<forall>j<k. \<not> window_matches f ls pattern (s + j)))"
    by (intro ex_cong1) (auto simp del: upt_Suc)
  also have "\<dots> \<longleftrightarrow> candidate ls pattern s i \<and> window_matches f ls pattern i \<and>
     (\<forall>j. s \<le> j \<and> j < i \<longrightarrow> \<not> window_matches f ls pattern j)"
  proof
    assume "candidate ls pattern s i \<and> window_matches f ls pattern i \<and>
      (\<forall>j. s \<le> j \<and> j < i \<longrightarrow> \<not> window_matches f ls pattern j)"
    then show "\<exists>k. i = s + k \<and> s + k \<le> length ls - length pattern \<and>
       window_matches f ls pattern i \<and> (\<forall>j<k. \<not> window_matches f ls pattern (s + j))"
      by (intro exI[of _ "i - s"]) (auto simp: candidate_def)
  qed (auto simp: candidate_def dest: le_Suc_ex)
  finally show ?thesis .
qed

lemma seek_pass_None:
  "seek_pass f ls pattern s = None \<longleftrightarrow>
     (\<forall>i. candidate ls pattern s i \<longrightarrow> \<not> window_matches f ls pattern i)"
  by (auto simp: seek_pass_def find_None_iff candidate_def simp del: upt_Suc)

text \<open>Every window of a candidate position has the length of the pattern.\<close>

lemma window_length:
  "candidate ls pattern s i \<Longrightarrow> length pattern \<le> length ls \<Longrightarrow>
   length (take (length pattern) (drop i ls)) = length pattern"
  by (auto simp: candidate_def)

lemma window_matches_id:
  "window_matches id ls pattern i \<longleftrightarrow> take (length pattern) (drop i ls) = pattern"
  by (auto simp: window_matches_def list_all2_conv_all_nth list_eq_iff_nth_eq)

section \<open>The interface between passes\<close>

text \<open>
  A normaliser \<open>g\<close> is coarser than \<open>f\<close> when it cannot see what \<open>f\<close> removes. The pass
  with \<open>g\<close> then accepts every position the pass with \<open>f\<close> accepts.
\<close>

locale coarser =
  fixes f :: "rstr \<Rightarrow> rstr" and g :: "rstr \<Rightarrow> rstr"
  assumes absorbs: "g (f x) = g x"
begin

lemma eq_mono: "f x = f y \<Longrightarrow> g x = g y"
  using absorbs by metis

lemma window_mono: "window_matches f ls pattern i \<Longrightarrow> window_matches g ls pattern i"
  unfolding window_matches_def by (erule list_all2_mono) (rule eq_mono)

lemma pass_mono:
  assumes "seek_pass g ls pattern s = None"
  shows "seek_pass f ls pattern s = None"
  using assms window_mono by (auto simp: seek_pass_None)

end

locale coarser_chain = fg: coarser f g + gh: coarser g h
  for f :: "rstr \<Rightarrow> rstr" and g :: "rstr \<Rightarrow> rstr" and h :: "rstr \<Rightarrow> rstr"

sublocale coarser_chain \<subseteq> fh: coarser f h
  by unfold_locales (metis fg.absorbs gh.absorbs)

interpretation exact_rstrip: coarser id trim_end
  by unfold_locales simp

interpretation rstrip_trim: coarser trim_end trim
  by unfold_locales (rule trim_trim_end)

interpretation trim_norm: coarser trim normalise
  by unfold_locales (simp add: normalise_def)

interpretation rstrip_norm: coarser_chain trim_end trim normalise ..

interpretation exact_norm: coarser_chain id trim_end normalise ..

section \<open>The search as a whole\<close>

definition passes :: "(rstr \<Rightarrow> rstr) list" where
  "passes = [id, trim_end, trim, normalise]"

lemma seek_sequence_passes:
  assumes "pattern \<noteq> []" "length pattern \<le> length ls"
  shows "seek_sequence ls pattern start eof =
    (case find (\<lambda>f. seek_pass f ls pattern (search_start ls pattern start eof) \<noteq> None) passes of
       None \<Rightarrow> None
     | Some f \<Rightarrow> seek_pass f ls pattern (search_start ls pattern start eof))"
  using assms
  by (auto simp: seek_sequence_def passes_def Let_def split: option.splits)

lemma seek_sequence_None:
  assumes "pattern \<noteq> []" "length pattern \<le> length ls"
  shows "seek_sequence ls pattern start eof = None \<longleftrightarrow>
    seek_pass normalise ls pattern (search_start ls pattern start eof) = None"
proof (cases "seek_pass normalise ls pattern (search_start ls pattern start eof)")
  case None
  then show ?thesis
    using assms exact_norm.fh.pass_mono[OF None] rstrip_norm.fh.pass_mono[OF None]
      trim_norm.pass_mono[OF None]
    by (simp add: seek_sequence_def Let_def)
next
  case (Some i)
  then show ?thesis
    using assms by (auto simp: seek_sequence_def Let_def split: option.splits)
qed

lemma seek_sequence_Some_bounds:
  assumes "seek_sequence ls pattern start eof = Some i" "pattern \<noteq> []"
  shows "search_start ls pattern start eof \<le> i" "i + length pattern \<le> length ls"
    and "window_matches normalise ls pattern i"
proof -
  have len: "length pattern \<le> length ls"
    using assms by (auto simp: seek_sequence_def split: if_splits)
  obtain f where f: "f \<in> set passes" "seek_pass f ls pattern (search_start ls pattern start eof) = Some i"
    using assms len
    by (auto simp: seek_sequence_passes find_Some_iff split: option.splits intro: nth_mem)
  then show "search_start ls pattern start eof \<le> i" "i + length pattern \<le> length ls"
    using len by (auto simp: seek_pass_Some candidate_def)
  from f show "window_matches normalise ls pattern i"
    using exact_norm.fh.window_mono rstrip_norm.fh.window_mono trim_norm.window_mono
    by (auto simp: passes_def seek_pass_Some)
qed

lemma seek_sequence_start:
  assumes "seek_sequence ls pattern start eof = Some i" "\<not> eof"
  shows "start \<le> i"
  using assms seek_sequence_Some_bounds(1)[OF assms(1)]
  by (cases "pattern = []") (auto simp: seek_sequence_def search_start_def)

lemma seek_sequence_exact_hit:
  assumes "pattern \<noteq> []" "ls = pre @ pattern @ post"
    and "search_start ls pattern start eof \<le> length pre"
  shows "\<exists>i. seek_sequence ls pattern start eof = Some i \<and> i \<le> length pre \<and>
             take (length pattern) (drop i ls) = pattern"
proof -
  let ?s = "search_start ls pattern start eof"
  have cand: "candidate ls pattern ?s (length pre)" "window_matches id ls pattern (length pre)"
    using assms by (auto simp: candidate_def window_matches_id)
  then obtain i where i: "seek_pass id ls pattern ?s = Some i"
    using seek_pass_None[of id ls pattern ?s] by blast
  then have "i \<le> length pre"
    using cand by (metis candidate_def not_le_imp_less seek_pass_Some)
  moreover have "seek_sequence ls pattern start eof = Some i"
    using i assms(1,2) by (simp add: seek_sequence_def Let_def)
  moreover have "take (length pattern) (drop i ls) = pattern"
    using i unfolding seek_pass_Some window_matches_id by blast
  ultimately show ?thesis by blast
qed

text \<open>
  C29. For a non-empty pattern that fits in the file, \<open>seek_sequence\<close> answers with a
  position in its search range whose window agrees with the pattern under the strictest
  pass that agrees anywhere, and with the first such position; it answers \<open>None\<close> exactly
  when no position of the range agrees under the most permissive pass. The range are the
  positions from \<open>start\<close> on or, with the end-of-file flag, the last window of the file alone:
  there is no second search from \<open>start\<close>, which the comment of the function promises.
\<close>

theorem seek_sequence_strictest_leftmost:
  assumes "pattern \<noteq> []" "length pattern \<le> length ls"
    and s: "s = (if eof then length ls - length pattern else start)"
  shows "case seek_sequence ls pattern start eof of
     None \<Rightarrow> \<forall>i. candidate ls pattern s i \<longrightarrow> \<not> window_matches normalise ls pattern i
   | Some i \<Rightarrow> \<exists>n < length passes.
       candidate ls pattern s i \<and> window_matches (passes ! n) ls pattern i \<and>
       (\<forall>j. s \<le> j \<and> j < i \<longrightarrow> \<not> window_matches (passes ! n) ls pattern j) \<and>
       (\<forall>m<n. \<forall>j. candidate ls pattern s j \<longrightarrow> \<not> window_matches (passes ! m) ls pattern j)"
proof -
  have s_def: "s = search_start ls pattern start eof" using assms(2) s by (simp add: search_start_def)
  show ?thesis
  proof (cases "seek_sequence ls pattern start eof")
    case None
    then show ?thesis
      using seek_sequence_None[OF assms(1,2), of start eof] unfolding None s_def
      by (simp add: seek_pass_None)
  next
    case (Some i)
    then obtain f where f: "find (\<lambda>f. seek_pass f ls pattern s \<noteq> None) passes = Some f"
        "seek_pass f ls pattern s = Some i"
      using assms(1,2) by (auto simp: seek_sequence_passes s_def split: option.splits)
    then obtain n where "n < length passes" "f = passes ! n"
        "\<forall>m<n. seek_pass (passes ! m) ls pattern s = None"
      by (auto simp: find_Some_iff)
    with f(2) show ?thesis
      unfolding Some by (auto simp: seek_pass_Some seek_pass_None intro!: exI[of _ n])
  qed
qed

theorem seek_sequence_strictest_leftmost_witness:
  "case seek_sequence [lit ''a'', lit ''b '', lit ''c''] [lit ''b''] 0 False of
     None \<Rightarrow> \<forall>i. candidate [lit ''a'', lit ''b '', lit ''c''] [lit ''b''] 0 i \<longrightarrow>
        \<not> window_matches normalise [lit ''a'', lit ''b '', lit ''c''] [lit ''b''] i
   | Some i \<Rightarrow> \<exists>n < length passes.
       candidate [lit ''a'', lit ''b '', lit ''c''] [lit ''b''] 0 i \<and>
       window_matches (passes ! n) [lit ''a'', lit ''b '', lit ''c''] [lit ''b''] i \<and>
       (\<forall>j. 0 \<le> j \<and> j < i \<longrightarrow>
          \<not> window_matches (passes ! n) [lit ''a'', lit ''b '', lit ''c''] [lit ''b''] j) \<and>
       (\<forall>m<n. \<forall>j. candidate [lit ''a'', lit ''b '', lit ''c''] [lit ''b''] 0 j \<longrightarrow>
          \<not> window_matches (passes ! m) [lit ''a'', lit ''b '', lit ''c''] [lit ''b''] j)"
  using seek_sequence_strictest_leftmost[of "[lit ''b'']" "[lit ''a'', lit ''b '', lit ''c'']" 0 False 0] by simp

text \<open>
  With the end-of-file flag the search looks at the last window of the file only: any
  answer is the position of that window, and there is no second search from \<open>start\<close>.
\<close>

theorem seek_sequence_eof_only_last:
  assumes "pattern \<noteq> []" "seek_sequence ls pattern start True = Some i"
  shows "i = length ls - length pattern"
  using seek_sequence_Some_bounds[OF assms(2,1)]
  by (auto simp: search_start_def split: if_splits)

theorem seek_sequence_eof_only_last_witness:
  "seek_sequence [lit ''a'', lit ''b''] [lit ''b''] 0 True = Some 1 \<and>
   seek_sequence [lit ''a'', lit ''b''] [lit ''a''] 0 True = None \<and>
   (1::nat) = length [lit ''a'', lit ''b''] - length [lit ''b'']"
proof -
  have h: "seek_sequence [lit ''a'', lit ''b''] [lit ''b''] 0 True = Some 1" by code_simp
  have n: "seek_sequence [lit ''a'', lit ''b''] [lit ''a''] 0 True = None" by code_simp
  show ?thesis
    using h n seek_sequence_eof_only_last[OF _ h] by simp
qed

end
