(* ===== verification/Patch_Replace.thy ===== *)
theory Patch_Replace
  imports Seek_Sequence Patch_Parser "HOL-Library.Multiset"
begin

text \<open>
  \<open>apply-patch/src/lib.rs\<close>, the computation on lines: finding where each chunk of an update
  goes, turning the chunks into replacements and applying these to the lines of the file.
  \<open>splice\<close> is the reference for replacements that are sorted and do not overlap.
\<close>

section \<open>Errors\<close>

datatype io_error_kind = NotFound | InvalidInput | OtherKind nat

datatype io_error = Io_Error (kind: io_error_kind) (io_text: rstr)

datatype apply_patch_error =
    ParseError parse_error
  | IoError rstr io_error
  | ComputeReplacements rstr
  | ImplicitInvocation

section \<open>Replacements\<close>

type_synonym replacement = "nat \<times> nat \<times> rstr list"

definition seek_context ::
  "rstr list \<Rightarrow> rstr \<Rightarrow> rstr option \<Rightarrow> nat \<Rightarrow> (apply_patch_error, nat) rresult" where
  "seek_context original_lines path ctx line_index =
     (case ctx of
        None \<Rightarrow> Inr line_index
      | Some ctx_line \<Rightarrow>
          (case seek_sequence original_lines [ctx_line] line_index False of
             Some idx \<Rightarrow> Inr (idx + 1)
           | None \<Rightarrow> Inl (ComputeReplacements
               (lit ''Failed to find context '' @ [39] @ ctx_line @ [39] @ lit '' in '' @ path))))"

definition insertion_idx :: "rstr list \<Rightarrow> nat" where
  "insertion_idx original_lines =
     (if ends_empty original_lines then length original_lines - 1 else length original_lines)"

text \<open>The search for the old lines, with the retry that drops the empty last line.\<close>

definition locate_old_lines :: "rstr list \<Rightarrow> update_file_chunk \<Rightarrow> nat \<Rightarrow> replacement option" where
  "locate_old_lines original_lines chunk line_index =
     (let pattern = old_lines chunk; new_slice = new_lines chunk in
      case seek_sequence original_lines pattern line_index (is_end_of_file chunk) of
        Some start_idx \<Rightarrow> Some (start_idx, length pattern, new_slice)
      | None \<Rightarrow>
          if ends_empty pattern then
            (let pattern = butlast pattern;
                 new_slice = (if ends_empty new_slice then butlast new_slice else new_slice)
             in case seek_sequence original_lines pattern line_index (is_end_of_file chunk) of
                  Some start_idx \<Rightarrow> Some (start_idx, length pattern, new_slice)
                | None \<Rightarrow> None)
          else None)"

fun collect_replacements ::
  "rstr list \<Rightarrow> rstr \<Rightarrow> update_file_chunk list \<Rightarrow> nat \<Rightarrow> (apply_patch_error, replacement list) rresult"
where
  "collect_replacements original_lines path [] line_index = Inr []"
| "collect_replacements original_lines path (chunk # chunks) line_index =
     (case seek_context original_lines path (change_context chunk) line_index of
        Inl e \<Rightarrow> Inl e
      | Inr line_index \<Rightarrow>
          if old_lines chunk = [] then
            map_sum id ((#) (insertion_idx original_lines, 0, new_lines chunk))
              (collect_replacements original_lines path chunks line_index)
          else
            (case locate_old_lines original_lines chunk line_index of
               Some (start_idx, len, new_slice) \<Rightarrow>
                 map_sum id ((#) (start_idx, len, new_slice))
                   (collect_replacements original_lines path chunks (start_idx + len))
             | None \<Rightarrow> Inl (ComputeReplacements
                 (lit ''Failed to find expected lines in '' @ path @ lit '':'' @ [LF]
                    @ join [LF] (old_lines chunk)))))"

definition compute_replacements ::
  "rstr list \<Rightarrow> rstr \<Rightarrow> update_file_chunk list \<Rightarrow> (apply_patch_error, replacement list) rresult" where
  "compute_replacements original_lines path chunks =
     map_sum id (sort_key fst) (collect_replacements original_lines path chunks 0)"

text \<open>The two inner loops of \<open>apply_replacements\<close>; \<open>Vec::insert\<close> may panic.\<close>

fun remove_old :: "nat \<Rightarrow> nat \<Rightarrow> rstr list \<Rightarrow> rstr list" where
  "remove_old 0 start_idx ls = ls"
| "remove_old (Suc n) start_idx ls =
     remove_old n start_idx
       (case vec_remove start_idx ls of Some ls' \<Rightarrow> ls' | None \<Rightarrow> ls)"

fun insert_new :: "nat \<Rightarrow> rstr list \<Rightarrow> rstr list \<Rightarrow> rstr list option" where
  "insert_new idx [] ls = Some ls"
| "insert_new idx (new_line # rest) ls =
     Option.bind (vec_insert idx new_line ls) (insert_new (Suc idx) rest)"

definition apply_replacement :: "replacement \<Rightarrow> rstr list \<Rightarrow> rstr list option" where
  "apply_replacement r ls =
     (case r of (start_idx, old_len, new_segment) \<Rightarrow>
        insert_new start_idx new_segment (remove_old old_len start_idx ls))"

definition apply_replacements :: "rstr list \<Rightarrow> replacement list \<Rightarrow> rstr list option" where
  "apply_replacements ls replacements =
     foldl (\<lambda>acc r. Option.bind acc (apply_replacement r)) (Some ls) (rev replacements)"

definition content_lines :: "rstr \<Rightarrow> rstr list" where
  "content_lines contents =
     (let ls = split_on LF contents in if ends_empty ls then butlast ls else ls)"

definition lines_content :: "rstr list \<Rightarrow> rstr" where
  "lines_content ls = join [LF] (if ends_empty ls then ls else ls @ [[]])"

text \<open>
  The part of \<open>derive_new_contents_from_chunks\<close> after the file is read; \<open>None\<close> would be a
  panic in \<open>apply_replacements\<close>.
\<close>

definition new_contents_from_chunks ::
  "rstr \<Rightarrow> rstr \<Rightarrow> update_file_chunk list \<Rightarrow> (apply_patch_error, rstr) rresult option" where
  "new_contents_from_chunks path original_contents chunks =
     (let original_lines = content_lines original_contents in
      case compute_replacements original_lines path chunks of
        Inl e \<Rightarrow> Some (Inl e)
      | Inr replacements \<Rightarrow>
          map_option (\<lambda>ls. Inr (lines_content ls)) (apply_replacements original_lines replacements))"

section \<open>The loops compute a splice\<close>

lemma remove_old_eq: "remove_old n i ls = take i ls @ drop (i + n) ls"
proof (induction n arbitrary: ls)
  case (Suc n)
  show ?case
  proof (cases "i < length ls")
    case True
    then show ?thesis using Suc by (simp add: vec_remove_def add.commute)
  next
    case False
    then show ?thesis using Suc by (simp add: vec_remove_def)
  qed
qed simp

lemma insert_new_eq:
  "idx \<le> length ls \<Longrightarrow> insert_new idx ns ls = Some (take idx ls @ ns @ drop idx ls)"
proof (induction ns arbitrary: idx ls)
  case (Cons n ns)
  then show ?case by (simp add: vec_insert_def min_def)
qed simp

lemma apply_replacement_eq:
  "s \<le> length ls \<Longrightarrow> apply_replacement (s, l, n) ls = Some (take s ls @ n @ drop (s + l) ls)"
  by (simp add: apply_replacement_def remove_old_eq insert_new_eq)

lemma apply_replacements_Cons:
  "apply_replacements ls (r # rs) = Option.bind (apply_replacements ls rs) (apply_replacement r)"
  by (simp add: apply_replacements_def)

lemma apply_replacements_Nil [simp]: "apply_replacements ls [] = Some ls"
  by (simp add: apply_replacements_def)

text \<open>Replacements that start within the file, in ascending order, never panic.\<close>

lemma apply_replacements_sorted:
  assumes "sorted (map fst rs)" "\<forall>r \<in> set rs. fst r \<le> length ls"
  shows "\<exists>out. apply_replacements ls rs = Some out \<and>
    (\<forall>k \<le> length ls. (\<forall>r \<in> set rs. k \<le> fst r) \<longrightarrow> k \<le> length out \<and> take k out = take k ls)"
  using assms
proof (induction rs)
  case (Cons r rs)
  obtain s l n where r: "r = (s, l, n)" by (cases r)
  from Cons obtain out where out: "apply_replacements ls rs = Some out"
    and pre: "\<And>k. k \<le> length ls \<Longrightarrow> \<forall>r \<in> set rs. k \<le> fst r \<Longrightarrow> k \<le> length out \<and> take k out = take k ls"
    by auto
  have s: "s \<le> length out" "take s out = take s ls"
    using pre[of s] Cons.prems r by auto
  have "apply_replacements ls (r # rs) = Some (take s out @ n @ drop (s + l) out)"
    using out s by (simp add: apply_replacements_Cons r apply_replacement_eq)
  then show ?case
    using s Cons.prems(2) r by (auto simp: min_def)
qed simp

fun splice :: "nat \<Rightarrow> rstr list \<Rightarrow> replacement list \<Rightarrow> rstr list" where
  "splice k ls [] = drop k ls"
| "splice k ls ((s, l, n) # rs) = take (s - k) (drop k ls) @ n @ splice (s + l) ls rs"

fun disjoint_from :: "nat \<Rightarrow> nat \<Rightarrow> replacement list \<Rightarrow> bool" where
  "disjoint_from k len [] \<longleftrightarrow> k \<le> len"
| "disjoint_from k len ((s, l, n) # rs) \<longleftrightarrow> k \<le> s \<and> disjoint_from (s + l) len rs"

lemma disjoint_from_le: "disjoint_from k len rs \<Longrightarrow> k \<le> len"
  by (induction k len rs rule: disjoint_from.induct) auto

lemma apply_replacements_splice_at:
  assumes "disjoint_from k (length ls) rs"
  shows "apply_replacements ls rs = Some (take k ls @ splice k ls rs)"
  using assms
proof (induction rs arbitrary: k)
  case (Cons r rs)
  obtain s l n where r: "r = (s, l, n)" by (cases r)
  with Cons.prems have d: "k \<le> s" "disjoint_from (s + l) (length ls) rs" by auto
  note le = disjoint_from_le[OF d(2)]
  have "apply_replacements ls (r # rs) =
      apply_replacement (s, l, n) (take (s + l) ls @ splice (s + l) ls rs)"
    using Cons.IH[OF d(2)] by (simp add: apply_replacements_Cons r)
  also have "\<dots> = Some (take s ls @ n @ splice (s + l) ls rs)"
    using le by (simp add: apply_replacement_eq min_def)
  also have "take s ls = take k ls @ take (s - k) (drop k ls)"
    using d(1) by (metis le_add_diff_inverse take_add)
  finally show ?case by (simp add: r)
qed simp

lemmas apply_replacements_splice = apply_replacements_splice_at[where k = 0, simplified]


section \<open>Where the chunks go\<close>

text \<open>What one replacement says about the chunk it comes from.\<close>

definition describes :: "rstr list \<Rightarrow> update_file_chunk \<Rightarrow> replacement \<Rightarrow> bool" where
  "describes ls c r \<longleftrightarrow> (case r of (s, l, n) \<Rightarrow>
     if old_lines c = [] then s = insertion_idx ls \<and> l = 0 \<and> n = new_lines c
     else s + l \<le> length ls \<and> window_matches normalise ls (take l (old_lines c)) s \<and>
       (l = length (old_lines c) \<and> n = new_lines c \<or>
        ends_empty (old_lines c) \<and> Suc l = length (old_lines c) \<and>
          n = (if ends_empty (new_lines c) then butlast (new_lines c) else new_lines c)))"

lemma window_matches_Nil [simp]: "window_matches f ls [] i"
  by (simp add: window_matches_def)

lemma seek_sequence_in_file:
  assumes "seek_sequence ls pattern start eof = Some i" "start \<le> length ls"
  shows "i + length pattern \<le> length ls" "window_matches normalise ls pattern i"
    and "\<not> eof \<Longrightarrow> start \<le> i"
proof -
  show "i + length pattern \<le> length ls" "window_matches normalise ls pattern i"
    using assms seek_sequence_Some_bounds[OF assms(1)]
    by (cases "pattern = []"; simp add: seek_sequence_def)+
  show "\<not> eof \<Longrightarrow> start \<le> i" using seek_sequence_start[OF assms(1)] .
qed

lemma locate_old_lines_Some:
  assumes "locate_old_lines ls c li = Some (s, l, n)" "li \<le> length ls" "old_lines c \<noteq> []"
  shows "describes ls c (s, l, n)" and "s + l \<le> length ls" and "\<not> is_end_of_file c \<Longrightarrow> li \<le> s"
proof -
  consider
    (direct) "seek_sequence ls (old_lines c) li (is_end_of_file c) = Some s"
      "l = length (old_lines c)" "n = new_lines c"
  | (retry) "seek_sequence ls (butlast (old_lines c)) li (is_end_of_file c) = Some s"
      "ends_empty (old_lines c)" "l = length (butlast (old_lines c))"
      "n = (if ends_empty (new_lines c) then butlast (new_lines c) else new_lines c)"
    using assms(1)
    by (auto simp: locate_old_lines_def Let_def split: option.splits if_splits)
  then have "describes ls c (s, l, n) \<and> s + l \<le> length ls \<and> (\<not> is_end_of_file c \<longrightarrow> li \<le> s)"
  proof cases
    case direct
    with seek_sequence_in_file[OF direct(1) assms(2)] assms(3) show ?thesis
      by (simp add: describes_def)
  next
    case retry
    have "take l (old_lines c) = butlast (old_lines c)"
      using retry(3) by (simp add: butlast_conv_take)
    with retry seek_sequence_in_file[OF retry(1) assms(2)] assms(3) show ?thesis
      by (simp add: describes_def)
  qed
  then show "describes ls c (s, l, n)" "s + l \<le> length ls" "\<not> is_end_of_file c \<Longrightarrow> li \<le> s"
    by auto
qed

lemma seek_context_Inr:
  assumes "seek_context ls path ctx li = Inr li'" "li \<le> length ls"
  shows "li \<le> li'" "li' \<le> length ls"
proof -
  have "li \<le> li' \<and> li' \<le> length ls"
  proof (cases ctx)
    case None
    with assms show ?thesis by (simp add: seek_context_def)
  next
    case (Some c)
    then obtain i where "seek_sequence ls [c] li False = Some i" "li' = i + 1"
      using assms(1) by (auto simp: seek_context_def split: option.splits)
    with seek_sequence_in_file[OF this(1) assms(2)] show ?thesis by simp
  qed
  then show "li \<le> li'" "li' \<le> length ls" by auto
qed

lemma insertion_idx_le: "insertion_idx ls \<le> length ls"
  by (simp add: insertion_idx_def)

text \<open>One successful round of the loop of \<open>compute_replacements\<close>.\<close>

lemma collect_replacements_ConsE:
  assumes "collect_replacements ls path (c # cs) li = Inr rs" "li \<le> length ls"
  obtains s l n li' rest where
    "rs = (s, l, n) # rest" "collect_replacements ls path cs li' = Inr rest"
    "li \<le> li' \<or> is_end_of_file c" "li' \<le> length ls" "describes ls c (s, l, n)" "s + l \<le> length ls"
    "old_lines c \<noteq> [] \<Longrightarrow> \<not> is_end_of_file c \<Longrightarrow> li \<le> s"
    "old_lines c \<noteq> [] \<Longrightarrow> li' = s + l"
proof -
  obtain lc where lc: "seek_context ls path (change_context c) li = Inr lc"
    using assms(1) by (auto split: sum.splits)
  note lc_le = seek_context_Inr[OF lc assms(2)]
  show thesis
  proof (cases "old_lines c = []")
    case True
    then obtain rest where rest: "collect_replacements ls path cs lc = Inr rest"
        "rs = (insertion_idx ls, 0, new_lines c) # rest"
      using assms(1) lc by (cases "collect_replacements ls path cs lc") auto
    show thesis
      by (rule that[OF rest(2,1)]) (use True lc_le insertion_idx_le in \<open>auto simp: describes_def\<close>)
  next
    case False
    obtain s l n where loc: "locate_old_lines ls c lc = Some (s, l, n)"
      using assms(1) lc False by (auto split: option.splits)
    then obtain rest where rest: "collect_replacements ls path cs (s + l) = Inr rest"
        "rs = (s, l, n) # rest"
      using assms(1) lc False by (cases "collect_replacements ls path cs (s + l)") auto
    note L = locate_old_lines_Some[OF loc lc_le(2) False]
    show thesis
      by (rule that[OF rest(2,1)]) (use L lc_le in \<open>auto intro: le_trans\<close>)
  qed
qed

lemma collect_replacements_describes:
  assumes "collect_replacements ls path cs li = Inr rs" "li \<le> length ls"
  shows "list_all2 (describes ls) cs rs" and "\<forall>(s, l, n) \<in> set rs. s + l \<le> length ls"
proof -
  have "list_all2 (describes ls) cs rs \<and> (\<forall>(s, l, n) \<in> set rs. s + l \<le> length ls)"
    using assms
  proof (induction cs arbitrary: li rs)
    case (Cons c cs)
    then show ?case by (elim collect_replacements_ConsE) auto
  qed simp
  then show "list_all2 (describes ls) cs rs" "\<forall>(s, l, n) \<in> set rs. s + l \<le> length ls" by auto
qed

lemma compute_replacements_Inr:
  "compute_replacements ls path cs = Inr rs \<longleftrightarrow>
     (\<exists>rs0. collect_replacements ls path cs 0 = Inr rs0 \<and> rs = sort_key fst rs0)"
  unfolding compute_replacements_def by (cases "collect_replacements ls path cs 0") auto

text \<open>
  Applying the computed replacements never panics, whatever the chunks: \<open>Vec::insert\<close> is
  always called within bounds, also when replacements overlap.
\<close>

lemma new_contents_total:
  "new_contents_from_chunks path contents chunks \<noteq> None"
proof -
  define ls where "ls = content_lines contents"
  have "apply_replacements ls rs \<noteq> None" if rs: "compute_replacements ls path chunks = Inr rs" for rs
  proof -
    obtain rs0 where rs0: "collect_replacements ls path chunks 0 = Inr rs0" "rs = sort_key fst rs0"
      using rs by (auto simp: compute_replacements_Inr)
    have "\<forall>r \<in> set rs. fst r \<le> length ls"
      using collect_replacements_describes(2)[OF rs0(1)] rs0(2) by fastforce
    moreover have "sorted (map fst rs)" using rs0(2) by simp
    ultimately show ?thesis using apply_replacements_sorted[of rs ls] by auto
  qed
  then show ?thesis
    by (auto simp: new_contents_from_chunks_def ls_def[symmetric] Let_def split: sum.splits)
qed

section \<open>Ordinary chunks do not overlap\<close>

definition before :: "replacement \<Rightarrow> replacement \<Rightarrow> bool" where
  "before x y \<longleftrightarrow> fst x + fst (snd x) \<le> fst y"

definition separate :: "replacement \<Rightarrow> replacement \<Rightarrow> bool" where
  "separate x y \<longleftrightarrow> before x y \<or> (before y x \<and> fst y < fst x)"

lemma insort_before:
  assumes "sorted_wrt before ys" "\<forall>y \<in> set ys. separate x y"
  shows "sorted_wrt before (insort_key fst x ys)"
  using assms
proof (induction ys)
  case (Cons y ys)
  show ?case
  proof (cases "fst x \<le> fst y")
    case True
    have "fst x \<le> fst z" if "z \<in> set (y # ys)" for z
      using Cons.prems(1) that True by (auto simp: before_def dest!: bspec)
    then have "before x z" if "z \<in> set (y # ys)" for z
      using Cons.prems(2) that by (fastforce simp: separate_def)
    then show ?thesis using Cons.prems(1) True by auto
  next
    case False
    then have "before y x" using Cons.prems(2) by (auto simp: separate_def before_def)
    with False Cons show ?thesis by (auto simp: set_insort_key)
  qed
qed simp

lemma sort_separate: "sorted_wrt separate rs \<Longrightarrow> sorted_wrt before (sort_key fst rs)"
  by (induction rs) (auto intro!: insort_before)

lemma before_disjoint_from:
  assumes "sorted_wrt before rs" "\<forall>(s, l, n) \<in> set rs. s + l \<le> len" "\<forall>r \<in> set rs. k \<le> fst r" "k \<le> len"
  shows "disjoint_from k len rs"
  using assms
proof (induction rs arbitrary: k)
  case (Cons r rs)
  then show ?case by (cases r) (auto simp: before_def)
qed simp

definition ordinary_chunks :: "rstr list \<Rightarrow> update_file_chunk list \<Rightarrow> bool" where
  "ordinary_chunks ls cs \<longleftrightarrow>
     list_all (\<lambda>c. \<not> is_end_of_file c \<and> (old_lines c = [] \<longrightarrow> \<not> ends_empty ls)) cs"

lemma collect_replacements_separate:
  assumes "collect_replacements ls path cs li = Inr rs" "li \<le> length ls" "ordinary_chunks ls cs"
  shows "sorted_wrt separate rs \<and> (\<forall>(s, l, n) \<in> set rs. li \<le> s \<and> s + l \<le> length ls)"
  using assms
proof (induction cs arbitrary: li rs)
  case (Cons c cs)
  have ord: "ordinary_chunks ls cs" "\<not> is_end_of_file c" "old_lines c = [] \<Longrightarrow> \<not> ends_empty ls"
    using Cons.prems(3) by (auto simp: ordinary_chunks_def)
  obtain s l n li' rest where r: "rs = (s, l, n) # rest"
    "collect_replacements ls path cs li' = Inr rest"
    "li \<le> li' \<or> is_end_of_file c" "li' \<le> length ls" "describes ls c (s, l, n)" "s + l \<le> length ls"
    "old_lines c \<noteq> [] \<Longrightarrow> \<not> is_end_of_file c \<Longrightarrow> li \<le> s"
    "old_lines c \<noteq> [] \<Longrightarrow> li' = s + l"
    using collect_replacements_ConsE[OF Cons.prems(1,2)] by metis
  note IH = Cons.IH[OF r(2,4) ord(1)]
  show ?case
  proof (cases "old_lines c = []")
    case True
    with r(5) ord(3) have sl: "s = length ls" "l = 0"
      by (auto simp: describes_def insertion_idx_def)
    have "separate (s, l, n) y" if "y \<in> set rest" for y
      using IH that sl by (cases y) (fastforce simp: separate_def before_def)
    with IH sl r(1,3) ord(2) Cons.prems(2) show ?thesis by fastforce
  next
    case False
    with IH r have "separate (s, l, n) y" if "y \<in> set rest" for y
      using that by (cases y) (fastforce simp: separate_def before_def)
    with IH r False ord(2) show ?thesis by fastforce
  qed
qed simp

lemma compute_replacements_disjoint:
  assumes "compute_replacements ls path cs = Inr rs" "ordinary_chunks ls cs"
  shows "disjoint_from 0 (length ls) rs"
proof -
  obtain rs0 where rs0: "collect_replacements ls path cs 0 = Inr rs0" "rs = sort_key fst rs0"
    using assms(1) by (auto simp: compute_replacements_Inr)
  note sep = collect_replacements_separate[OF rs0(1) _ assms(2), simplified]
  show ?thesis
    by (rule before_disjoint_from) (use sep sort_separate[of rs0] rs0(2) in auto)
qed

text \<open>
  C15. For chunks without an end-of-file marker, and without a pure addition when the file ends
  in an empty line, the scheduled replacements do not overlap, so the remove and insert loops
  compute exactly the splice: every line outside the replaced windows is kept, each chunk
  contributes one replacement, and the window it replaces matches its old lines up to the
  loosest comparison of the search.
\<close>

theorem compute_apply_is_splice:
  assumes "compute_replacements ls path chunks = Inr rs" "ordinary_chunks ls chunks"
  shows "apply_replacements ls rs = Some (splice 0 ls rs) \<and> disjoint_from 0 (length ls) rs \<and>
    (\<exists>rs0. list_all2 (describes ls) chunks rs0 \<and> mset rs = mset rs0)"
proof -
  obtain rs0 where rs0: "collect_replacements ls path chunks 0 = Inr rs0" "rs = sort_key fst rs0"
    using assms(1) by (auto simp: compute_replacements_Inr)
  show ?thesis
    using compute_replacements_disjoint[OF assms] apply_replacements_splice[of ls rs]
      collect_replacements_describes(1)[OF rs0(1)] rs0(2) by auto
qed

theorem compute_apply_is_splice_witness:
  "\<exists>rs. compute_replacements [lit ''a'', lit ''b'', lit ''c''] (lit ''f'')
       [\<lparr>change_context = Some (lit ''a''), old_lines = [lit ''b''], new_lines = [lit ''x'', lit ''y''],
          is_end_of_file = False\<rparr>,
        \<lparr>change_context = None, old_lines = [], new_lines = [lit ''z''], is_end_of_file = False\<rparr>] = Inr rs
     \<and> apply_replacements [lit ''a'', lit ''b'', lit ''c''] rs
        = Some [lit ''a'', lit ''x'', lit ''y'', lit ''c'', lit ''z'']"
proof -
  let ?ls = "[lit ''a'', lit ''b'', lit ''c'']"
  let ?cs = "[\<lparr>change_context = Some (lit ''a''), old_lines = [lit ''b''], new_lines = [lit ''x'', lit ''y''],
          is_end_of_file = False\<rparr>,
        \<lparr>change_context = None, old_lines = [], new_lines = [lit ''z''], is_end_of_file = False\<rparr>]"
  let ?rs = "[(1, 1, [lit ''x'', lit ''y'']), (3, 0, [lit ''z''])]"
  have c: "compute_replacements ?ls (lit ''f'') ?cs = Inr ?rs" by code_simp
  have o: "ordinary_chunks ?ls ?cs" by code_simp
  have s: "splice 0 ?ls ?rs = [lit ''a'', lit ''x'', lit ''y'', lit ''c'', lit ''z'']" by code_simp
  show ?thesis using compute_apply_is_splice[OF c o] c s by auto
qed


text \<open>
  The hypothesis on the chunks is needed. A pure addition goes before an empty last line, and
  a later chunk that replaces a window around this place removes what was added; a chunk at the
  end of the file is searched at the end even when an earlier chunk has replaced these lines.
  In both cases the update succeeds without the change of one of its chunks.
\<close>

theorem overlapping_chunk_lost:
  "new_contents_from_chunks (lit ''f'') (lit ''a'' @ [LF, LF])
     [\<lparr>change_context = None, old_lines = [], new_lines = [lit ''x''], is_end_of_file = False\<rparr>,
      \<lparr>change_context = None, old_lines = [lit ''a'', []], new_lines = [lit ''b'', []],
        is_end_of_file = False\<rparr>]
   = Some (Inr (lit ''b'' @ [LF, LF]))
   \<and> new_contents_from_chunks (lit ''f'') (lit ''a'' @ [LF] @ lit ''b'' @ [LF])
     [\<lparr>change_context = None, old_lines = [lit ''a'', lit ''b''], new_lines = [lit ''x''],
        is_end_of_file = False\<rparr>,
      \<lparr>change_context = None, old_lines = [lit ''b''], new_lines = [lit ''y''], is_end_of_file = True\<rparr>]
   = Some (Inr (lit ''x'' @ [LF]))"
  by code_simp

section \<open>Lines and contents\<close>

lemma join_snoc_empty: "ls \<noteq> [] \<Longrightarrow> join [LF] (ls @ [[]]) = join [LF] ls @ [LF]"
  by (induction ls rule: induct_list012) auto

lemma lines_content_terminated: "lines_content ls = [] \<or> last (lines_content ls) = LF"
proof (cases "ends_empty ls")
  case True
  then obtain ms where "ls = ms @ [[]]"
    by (auto simp: ends_empty_def) (metis append_butlast_last_id)
  with True join_snoc_empty[of ms] show ?thesis
    by (cases "ms = []") (auto simp: lines_content_def)
next
  case False
  then show ?thesis using join_snoc_empty[of ls]
    by (cases "ls = []") (auto simp: lines_content_def)
qed

lemma content_lines_lines_content:
  assumes "list_all (\<lambda>l. LF \<notin> set l) ls" "\<not> ends_empty ls"
  shows "content_lines (lines_content ls) = ls"
proof -
  have "split_on LF (join [LF] (ls @ [[]])) = ls @ [[]]"
    using assms(1) by (intro split_on_join) (auto simp: list_all_iff)
  moreover have "lines_content ls = join [LF] (ls @ [[]])"
    using assms(2) by (simp add: lines_content_def)
  ultimately show ?thesis by (simp add: content_lines_def ends_empty_def)
qed

text \<open>The search finds the first place when the old lines are there verbatim and nowhere before.\<close>

lemma seek_sequence_first:
  assumes "pattern \<noteq> []" "ls = pre @ pattern @ post"
    and "\<And>j. j < length pre \<Longrightarrow> \<not> window_matches normalise ls pattern j"
  shows "seek_sequence ls pattern 0 False = Some (length pre)"
proof -
  obtain i where i: "seek_sequence ls pattern 0 False = Some i" "i \<le> length pre"
    using seek_sequence_exact_hit[OF assms(1,2), of 0 False] by (auto simp: search_start_def)
  with seek_sequence_Some_bounds(3)[OF i(1) assms(1)] assms(3) show ?thesis
    by (cases "i = length pre") auto
qed

text \<open>
  An update from text to text. A file that holds the old lines of a chunk verbatim, and
  nothing before them that the loosest comparison takes for them, becomes the file with the new
  lines in their place; every other line is kept and the text ends with a newline.
\<close>

theorem single_chunk_update:
  assumes "old \<noteq> []" "list_all (\<lambda>l. LF \<notin> set l) (pre @ old @ post)" "\<not> ends_empty (pre @ old @ post)"
    and "\<forall>j < length pre. \<not> window_matches normalise (pre @ old @ post) old j"
  shows "new_contents_from_chunks path (lines_content (pre @ old @ post))
      [\<lparr>change_context = None, old_lines = old, new_lines = new, is_end_of_file = False\<rparr>]
    = Some (Inr (lines_content (pre @ new @ post)))
    \<and> (lines_content (pre @ new @ post) = [] \<or> last (lines_content (pre @ new @ post)) = LF)"
proof -
  let ?ls = "pre @ old @ post"
  have "seek_sequence ?ls old 0 False = Some (length pre)"
    using assms(4) by (intro seek_sequence_first[OF assms(1) refl]) auto
  then have "compute_replacements ?ls path
      [\<lparr>change_context = None, old_lines = old, new_lines = new, is_end_of_file = False\<rparr>]
    = Inr [(length pre, length old, new)]"
    using assms(1) by (simp add: compute_replacements_def seek_context_def locate_old_lines_def)
  moreover have "apply_replacements ?ls [(length pre, length old, new)] = Some (pre @ new @ post)"
    by (simp add: apply_replacements_splice)
  ultimately show ?thesis
    using content_lines_lines_content[OF assms(2,3)] lines_content_terminated
    by (simp add: new_contents_from_chunks_def)
qed

theorem single_chunk_update_witness:
  "new_contents_from_chunks (lit ''f'') (lit ''a'' @ [LF] @ lit ''b'' @ [LF] @ lit ''c'' @ [LF])
      [\<lparr>change_context = None, old_lines = [lit ''b''], new_lines = [], is_end_of_file = False\<rparr>]
    = Some (Inr (lit ''a'' @ [LF] @ lit ''c'' @ [LF]))"
proof -
  have h: "\<forall>j < length [lit ''a'']. \<not> window_matches normalise ([lit ''a''] @ [lit ''b''] @ [lit ''c'']) [lit ''b''] j"
  proof -
    have "\<not> window_matches normalise ([lit ''a''] @ [lit ''b''] @ [lit ''c'']) [lit ''b''] 0" by code_simp
    then show ?thesis by simp
  qed
  have l: "list_all (\<lambda>l. LF \<notin> set l) ([lit ''a''] @ [lit ''b''] @ [lit ''c''])" by code_simp
  have e: "\<not> ends_empty ([lit ''a''] @ [lit ''b''] @ [lit ''c''])" by code_simp
  have t: "lines_content ([lit ''a''] @ [lit ''b''] @ [lit ''c''])
      = lit ''a'' @ [LF] @ lit ''b'' @ [LF] @ lit ''c'' @ [LF]"
    "lines_content ([lit ''a''] @ [] @ [lit ''c'']) = lit ''a'' @ [LF] @ lit ''c'' @ [LF]" by code_simp+
  show ?thesis
    using single_chunk_update[OF _ l e h, of "lit ''f''" "[]"] t by simp
qed

end
