(* ===== verification/Apply_Patch.thy ===== *)
theory Apply_Patch
  imports Absolute_Path Patch_Replace
begin

text \<open>
  \<open>apply-patch/src/lib.rs\<close>, the effects: applying hunks to a filesystem and recording the
  committed changes in a delta. The filesystem (\<open>ExecutorFileSystem\<close>) and the output streams
  are parameters; reads are functions of the filesystem's state. What the delta promises is
  proved for every filesystem that obeys \<open>fs_laws\<close>.
\<close>

section \<open>The parameters\<close>

record file_metadata =
  is_directory :: bool
  is_file :: bool
  is_symlink :: bool

record 'fs executor_fs =
  get_metadata :: "'fs \<Rightarrow> rstr \<Rightarrow> (io_error, file_metadata) rresult"
  read_file_text :: "'fs \<Rightarrow> rstr \<Rightarrow> (io_error, rstr) rresult"
  write_file :: "'fs \<Rightarrow> rstr \<Rightarrow> rstr \<Rightarrow> 'fs \<times> (io_error, unit) rresult"
  create_directory :: "'fs \<Rightarrow> rstr \<Rightarrow> 'fs \<times> (io_error, unit) rresult"
  remove_file :: "'fs \<Rightarrow> rstr \<Rightarrow> 'fs \<times> (io_error, unit) rresult"

text \<open>An output stream: \<open>writeln!\<close> on \<open>impl std::io::Write\<close>.\<close>

type_synonym 'w writer = "'w \<Rightarrow> rstr \<Rightarrow> 'w \<times> (io_error, unit) rresult"

section \<open>Deltas and failures\<close>

datatype applied_file_change =
    AddChange (added_content: rstr) (overwritten_content: "rstr option")
  | DeleteChange (deleted_content: rstr)
  | UpdateChange (move_path: "rstr option") (old_content: rstr)
      (overwritten_move_content: "rstr option") (new_content: rstr)

record applied_patch_change =
  path :: rstr
  change :: applied_file_change

record applied_patch_delta =
  changes :: "applied_patch_change list"
  exact :: bool

definition delta_empty :: applied_patch_delta where
  "delta_empty = \<lparr>changes = [], exact = True\<rparr>"

definition delta_append :: "applied_patch_delta \<Rightarrow> applied_patch_delta \<Rightarrow> applied_patch_delta" where
  "delta_append d other = \<lparr>changes = changes d @ changes other, exact = (exact d \<and> exact other)\<rparr>"

definition delta_push :: "applied_patch_change \<Rightarrow> applied_patch_delta \<Rightarrow> applied_patch_delta" where
  "delta_push c d = d\<lparr>changes := changes d @ [c]\<rparr>"

definition delta_and :: "bool \<Rightarrow> applied_patch_delta \<Rightarrow> applied_patch_delta" where
  "delta_and b d = d\<lparr>exact := exact d \<and> b\<rparr>"

record apply_patch_failure =
  failure_error :: apply_patch_error
  failure_delta :: applied_patch_delta

definition without_delta :: "apply_patch_error \<Rightarrow> apply_patch_failure" where
  "without_delta e = \<lparr>failure_error = e, failure_delta = delta_empty\<rparr>"

text \<open>
  The \<open>anyhow::Error\<close> values of this file: a message, an I/O error under a context, or an
  \<open>ApplyPatchError\<close>. Only an I/O error can be downcast to \<open>std::io::Error\<close>.
\<close>

datatype anyhow_error =
    AnyMsg rstr
  | AnyIo rstr io_error
  | AnyPatch apply_patch_error

fun parse_error_text :: "parse_error \<Rightarrow> rstr" where
  "parse_error_text (InvalidPatchError m) = lit ''invalid patch: '' @ m"
| "parse_error_text (InvalidHunkError m n) =
     lit ''invalid hunk at line '' @ show_nat n @ lit '', '' @ m"

fun apply_patch_error_text :: "apply_patch_error \<Rightarrow> rstr" where
  "apply_patch_error_text (ParseError e) = parse_error_text e"
| "apply_patch_error_text (IoError ctx e) = ctx @ lit '': '' @ io_text e"
| "apply_patch_error_text (ComputeReplacements m) = m"
| "apply_patch_error_text ImplicitInvocation =
     lit ''patch detected without explicit call to apply_patch. Rerun as ['' @ [34] @ lit ''apply_patch''
       @ [34] @ lit '', '' @ [34] @ lit ''<patch>'' @ [34] @ lit '']''"

fun anyhow_text :: "anyhow_error \<Rightarrow> rstr" where
  "anyhow_text (AnyMsg m) = m"
| "anyhow_text (AnyIo ctx e) = ctx"
| "anyhow_text (AnyPatch e) = apply_patch_error_text e"

definition apply_patch_error_from :: "io_error \<Rightarrow> apply_patch_error" where
  "apply_patch_error_from e = IoError (lit ''I/O error'') e"

definition with_context :: "rstr \<Rightarrow> (io_error, 'a) rresult \<Rightarrow> (anyhow_error, 'a) rresult" where
  "with_context ctx r = map_sum (AnyIo ctx) id r"

section \<open>Steps on the filesystem\<close>

definition ensure_not_directory ::
  "'fs executor_fs \<Rightarrow> 'fs \<Rightarrow> rstr \<Rightarrow> (io_error, unit) rresult" where
  "ensure_not_directory ops fs p =
     (case get_metadata ops fs p of
        Inl e \<Rightarrow> Inl e
      | Inr metadata \<Rightarrow>
          if is_directory metadata then Inl (Io_Error InvalidInput (lit ''path is a directory''))
          else Inr ())"

definition remove_failure_was_side_effect_free ::
  "'fs executor_fs \<Rightarrow> 'fs \<Rightarrow> rstr \<Rightarrow> rstr option \<Rightarrow> bool" where
  "remove_failure_was_side_effect_free ops fs p expected_content =
     (case expected_content of
        Some c \<Rightarrow> read_file_text ops fs p = Inr c
      | None \<Rightarrow> False)"

definition note_existing_path_delta_support :: "'fs executor_fs \<Rightarrow> 'fs \<Rightarrow> rstr \<Rightarrow> bool \<Rightarrow> bool" where
  "note_existing_path_delta_support ops fs p ex =
     (case get_metadata ops fs p of
        Inr metadata \<Rightarrow> if is_file metadata \<and> \<not> is_symlink metadata then ex else False
      | Inl e \<Rightarrow> if kind e = NotFound then ex else False)"

definition read_optional_file_text_for_delta ::
  "'fs executor_fs \<Rightarrow> 'fs \<Rightarrow> rstr \<Rightarrow> bool \<Rightarrow> bool \<times> rstr option" where
  "read_optional_file_text_for_delta ops fs p ex =
     (let ex = note_existing_path_delta_support ops fs p ex in
      case read_file_text ops fs p of
        Inr content \<Rightarrow> (ex, Some content)
      | Inl e \<Rightarrow> if kind e = NotFound then (ex, None) else (False, None))"

definition write_file_with_missing_parent_retry ::
  "'fs executor_fs \<Rightarrow> 'fs \<Rightarrow> rstr \<Rightarrow> rstr \<Rightarrow> 'fs \<times> (anyhow_error, unit) rresult" where
  "write_file_with_missing_parent_retry ops fs path_abs contents =
     (let failed = lit ''Failed to write file '' @ path_abs in
      case write_file ops fs path_abs contents of
        (fs, Inr _) \<Rightarrow> (fs, Inr ())
      | (fs, Inl err) \<Rightarrow>
          if kind err = NotFound then
            (case (case parent path_abs of
                     Some parent_abs \<Rightarrow> create_directory ops fs parent_abs
                   | None \<Rightarrow> (fs, Inr ())) of
               (fs, Inl err) \<Rightarrow>
                 (fs, Inl (AnyIo (lit ''Failed to create parent directories for '' @ path_abs) err))
             | (fs, Inr _) \<Rightarrow>
                 (case write_file ops fs path_abs contents of
                    (fs, r) \<Rightarrow> (fs, with_context failed r)))
          else (fs, with_context failed (Inl err)))"

text \<open>A panic would be \<open>None\<close>; \<open>new_contents_total\<close> in \<open>Patch_Replace\<close> excludes it.\<close>

definition derive_new_contents_from_chunks ::
  "'fs executor_fs \<Rightarrow> 'fs \<Rightarrow> rstr \<Rightarrow> update_file_chunk list \<Rightarrow>
     (apply_patch_error, rstr \<times> rstr) rresult option" where
  "derive_new_contents_from_chunks ops fs path_abs chunks =
     (case read_file_text ops fs path_abs of
        Inl err \<Rightarrow> Some (Inl (IoError (lit ''Failed to read file to update '' @ path_abs) err))
      | Inr original_contents \<Rightarrow>
          map_option (map_sum id (Pair original_contents))
            (new_contents_from_chunks path_abs original_contents chunks))"

section \<open>Applying hunks\<close>

record affected_paths =
  added :: "rstr list"
  modified :: "rstr list"
  deleted :: "rstr list"

definition affected_empty :: affected_paths where
  "affected_empty = \<lparr>added = [], modified = [], deleted = []\<rparr>"

type_synonym 'fs hunk_result = "'fs \<times> applied_patch_delta \<times> (anyhow_error, unit) rresult"

definition apply_add ::
  "'fs executor_fs \<Rightarrow> 'fs \<Rightarrow> applied_patch_delta \<Rightarrow> rstr \<Rightarrow> rstr \<Rightarrow> 'fs hunk_result" where
  "apply_add ops fs delta path_abs contents =
     (case read_optional_file_text_for_delta ops fs path_abs (exact delta) of
        (ex, overwritten) \<Rightarrow>
          (case write_file_with_missing_parent_retry ops fs path_abs contents of
             (fs, Inl e) \<Rightarrow> (fs, delta\<lparr>exact := False\<rparr>, Inl e)
           | (fs, Inr _) \<Rightarrow>
               (fs, delta_push \<lparr>path = path_abs, change = AddChange contents overwritten\<rparr>
                      (delta\<lparr>exact := ex\<rparr>), Inr ())))"

definition apply_delete ::
  "'fs executor_fs \<Rightarrow> 'fs \<Rightarrow> applied_patch_delta \<Rightarrow> rstr \<Rightarrow> 'fs hunk_result" where
  "apply_delete ops fs delta path_abs =
     (let delta = delta\<lparr>exact := note_existing_path_delta_support ops fs path_abs (exact delta)\<rparr>;
          deleted_content = (case read_file_text ops fs path_abs of Inr c \<Rightarrow> Some c | Inl _ \<Rightarrow> None);
          delta = (if deleted_content = None then delta\<lparr>exact := False\<rparr> else delta);
          context = lit ''Failed to delete file '' @ path_abs
      in case with_context context (ensure_not_directory ops fs path_abs) of
           Inl e \<Rightarrow> (fs, delta, Inl e)
         | Inr _ \<Rightarrow>
             (case remove_file ops fs path_abs of
                (fs, Inl e) \<Rightarrow>
                  (fs, delta_and (remove_failure_was_side_effect_free ops fs path_abs deleted_content) delta,
                   Inl (AnyIo context e))
              | (fs, Inr _) \<Rightarrow>
                  (fs, (case deleted_content of
                          Some content \<Rightarrow>
                            delta_push \<lparr>path = path_abs, change = DeleteChange content\<rparr> delta
                        | None \<Rightarrow> delta), Inr ())))"

text \<open>The branch of an update with a move: write the destination, then remove the source.\<close>

definition apply_move ::
  "'fs executor_fs \<Rightarrow> 'fs \<Rightarrow> applied_patch_delta \<Rightarrow> rstr \<Rightarrow> rstr \<Rightarrow> rstr \<Rightarrow> rstr \<Rightarrow> 'fs hunk_result" where
  "apply_move ops fs delta path_abs dest_abs original_contents new_contents =
     (case read_optional_file_text_for_delta ops fs dest_abs (exact delta) of
        (ex, overwritten) \<Rightarrow>
          (case write_file_with_missing_parent_retry ops fs dest_abs new_contents of
             (fs, Inl e) \<Rightarrow> (fs, delta\<lparr>exact := False\<rparr>, Inl e)
           | (fs, Inr _) \<Rightarrow>
               (let delta = delta\<lparr>exact := ex\<rparr>;
                    dest_write_change_index = length (changes delta);
                    delta = delta_push \<lparr>path = dest_abs, change = AddChange new_contents overwritten\<rparr> delta;
                    context = lit ''Failed to remove original '' @ path_abs
                in case with_context context (ensure_not_directory ops fs path_abs) of
                     Inl e \<Rightarrow> (fs, delta, Inl e)
                   | Inr _ \<Rightarrow>
                       (case remove_file ops fs path_abs of
                          (fs, Inl e) \<Rightarrow>
                            (fs, delta_and
                               (remove_failure_was_side_effect_free ops fs path_abs (Some original_contents))
                               delta, Inl (AnyIo context e))
                        | (fs, Inr _) \<Rightarrow>
                            (fs, delta\<lparr>changes := (changes delta)[dest_write_change_index :=
                               \<lparr>path = path_abs,
                                change = UpdateChange (Some dest_abs) original_contents overwritten
                                  new_contents\<rparr>]\<rparr>, Inr ())))))"

definition apply_update ::
  "'fs executor_fs \<Rightarrow> rstr option \<Rightarrow> rstr \<Rightarrow> 'fs \<Rightarrow> applied_patch_delta \<Rightarrow> rstr \<Rightarrow> rstr option \<Rightarrow>
     update_file_chunk list \<Rightarrow> 'fs hunk_result option" where
  "apply_update ops home cwd fs delta path_abs dest chunks =
     (let delta = delta\<lparr>exact := note_existing_path_delta_support ops fs path_abs (exact delta)\<rparr> in
      case derive_new_contents_from_chunks ops fs path_abs chunks of
        None \<Rightarrow> None
      | Some (Inl e) \<Rightarrow> Some (fs, delta, Inl (AnyPatch e))
      | Some (Inr (original_contents, new_contents)) \<Rightarrow>
          Some (case dest of
            Some d \<Rightarrow>
              apply_move ops fs delta path_abs (resolve_path_against_base home d cwd)
                original_contents new_contents
          | None \<Rightarrow>
              (case write_file ops fs path_abs new_contents of
                 (fs, r) \<Rightarrow>
                   (case with_context (lit ''Failed to write file '' @ path_abs) r of
                      Inl e \<Rightarrow> (fs, delta\<lparr>exact := False\<rparr>, Inl e)
                    | Inr _ \<Rightarrow>
                        (fs, delta_push \<lparr>path = path_abs,
                           change = UpdateChange None original_contents None new_contents\<rparr> delta, Inr ())))))"

fun apply_hunk ::
  "'fs executor_fs \<Rightarrow> rstr option \<Rightarrow> rstr \<Rightarrow> hunk \<Rightarrow> 'fs \<Rightarrow> applied_patch_delta \<Rightarrow> 'fs hunk_result option"
where
  "apply_hunk ops home cwd (AddFile p contents) fs delta =
     Some (apply_add ops fs delta (resolve_path_against_base home p cwd) contents)"
| "apply_hunk ops home cwd (DeleteFile p) fs delta =
     Some (apply_delete ops fs delta (resolve_path_against_base home p cwd))"
| "apply_hunk ops home cwd (UpdateFile p dest chunks) fs delta =
     apply_update ops home cwd fs delta (resolve_path_against_base home p cwd) dest chunks"

fun note_affected :: "hunk \<Rightarrow> affected_paths \<Rightarrow> affected_paths" where
  "note_affected (AddFile p c) a = a\<lparr>added := added a @ [hunk_path (AddFile p c)]\<rparr>"
| "note_affected (DeleteFile p) a = a\<lparr>deleted := deleted a @ [hunk_path (DeleteFile p)]\<rparr>"
| "note_affected (UpdateFile p d c) a = a\<lparr>modified := modified a @ [hunk_path (UpdateFile p d c)]\<rparr>"

fun apply_hunks_loop ::
  "'fs executor_fs \<Rightarrow> rstr option \<Rightarrow> rstr \<Rightarrow> hunk list \<Rightarrow> 'fs \<Rightarrow> applied_patch_delta \<Rightarrow> affected_paths \<Rightarrow>
     ('fs \<times> applied_patch_delta \<times> (anyhow_error, affected_paths) rresult) option"
where
  "apply_hunks_loop ops home cwd [] fs delta affected = Some (fs, delta, Inr affected)"
| "apply_hunks_loop ops home cwd (h # hs) fs delta affected =
     (case apply_hunk ops home cwd h fs delta of
        None \<Rightarrow> None
      | Some (fs, delta, Inl e) \<Rightarrow> Some (fs, delta, Inl e)
      | Some (fs, delta, Inr _) \<Rightarrow> apply_hunks_loop ops home cwd hs fs delta (note_affected h affected))"

definition apply_hunks_to_files ::
  "'fs executor_fs \<Rightarrow> rstr option \<Rightarrow> rstr \<Rightarrow> hunk list \<Rightarrow> 'fs \<Rightarrow> applied_patch_delta \<Rightarrow>
     ('fs \<times> applied_patch_delta \<times> (anyhow_error, affected_paths) rresult) option" where
  "apply_hunks_to_files ops home cwd hs fs delta =
     (if hs = [] then Some (fs, delta, Inl (AnyMsg (lit ''No files were modified.'')))
      else apply_hunks_loop ops home cwd hs fs delta affected_empty)"

section \<open>Entry points\<close>

fun write_lines :: "'w writer \<Rightarrow> 'w \<Rightarrow> rstr list \<Rightarrow> 'w \<times> (io_error, unit) rresult" where
  "write_lines wr w [] = (w, Inr ())"
| "write_lines wr w (l # ls) =
     (case wr w (l @ [LF]) of
        (w, Inl e) \<Rightarrow> (w, Inl e)
      | (w, Inr _) \<Rightarrow> write_lines wr w ls)"

definition print_summary :: "'w writer \<Rightarrow> 'w \<Rightarrow> affected_paths \<Rightarrow> 'w \<times> (io_error, unit) rresult" where
  "print_summary wr w affected =
     write_lines wr w (lit ''Success. Updated the following files:''
        # map (\<lambda>p. lit ''A '' @ p) (added affected)
        @ map (\<lambda>p. lit ''M '' @ p) (modified affected)
        @ map (\<lambda>p. lit ''D '' @ p) (deleted affected))"

type_synonym ('fs, 'w) patch_outcome =
  "'fs \<times> 'w \<times> 'w \<times> (apply_patch_failure, applied_patch_delta) rresult"

definition apply_hunks ::
  "'fs executor_fs \<Rightarrow> 'w writer \<Rightarrow> rstr option \<Rightarrow> rstr \<Rightarrow> hunk list \<Rightarrow> 'fs \<Rightarrow> 'w \<Rightarrow> 'w \<Rightarrow>
     ('fs, 'w) patch_outcome option" where
  "apply_hunks ops wr home cwd hs fs stdout stderr =
     (case apply_hunks_to_files ops home cwd hs fs delta_empty of
        None \<Rightarrow> None
      | Some (fs, delta, Inr affected) \<Rightarrow>
          (case print_summary wr stdout affected of
             (stdout, Inl e) \<Rightarrow>
               Some (fs, stdout, stderr,
                 Inl \<lparr>failure_error = apply_patch_error_from e, failure_delta = delta\<rparr>)
           | (stdout, Inr _) \<Rightarrow> Some (fs, stdout, stderr, Inr delta))
      | Some (fs, delta, Inl error) \<Rightarrow>
          (let msg = anyhow_text error in
           case wr stderr (msg @ [LF]) of
             (stderr, Inl e) \<Rightarrow>
               Some (fs, stdout, stderr,
                 Inl \<lparr>failure_error = apply_patch_error_from e, failure_delta = delta\<rparr>)
           | (stderr, Inr _) \<Rightarrow>
               (let error' = (case error of
                      AnyIo _ io \<Rightarrow> apply_patch_error_from io
                    | _ \<Rightarrow> IoError msg (Io_Error (OtherKind 0) msg))
                in Some (fs, stdout, stderr,
                     Inl \<lparr>failure_error = error', failure_delta = delta\<rparr>))))"

fun parse_failure_line :: "parse_error \<Rightarrow> rstr" where
  "parse_failure_line (InvalidPatchError m) = lit ''Invalid patch: '' @ m"
| "parse_failure_line (InvalidHunkError m n) =
     lit ''Invalid patch hunk on line '' @ show_nat n @ lit '': '' @ m"

definition apply_patch ::
  "'fs executor_fs \<Rightarrow> 'w writer \<Rightarrow> rstr option \<Rightarrow> rstr \<Rightarrow> rstr \<Rightarrow> 'fs \<Rightarrow> 'w \<Rightarrow> 'w \<Rightarrow>
     ('fs, 'w) patch_outcome option" where
  "apply_patch ops wr home cwd patch_text fs stdout stderr =
     (case parse_patch patch_text of
        Inl e \<Rightarrow>
          (case wr stderr (parse_failure_line e @ [LF]) of
             (stderr, Inl io) \<Rightarrow>
               Some (fs, stdout, stderr, Inl (without_delta (apply_patch_error_from io)))
           | (stderr, Inr _) \<Rightarrow> Some (fs, stdout, stderr, Inl (without_delta (ParseError e))))
      | Inr source \<Rightarrow> apply_hunks ops wr home cwd (hunks source) fs stdout stderr)"


section \<open>What a filesystem promises\<close>

definition content :: "'fs executor_fs \<Rightarrow> 'fs \<Rightarrow> (rstr \<rightharpoonup> rstr)" where
  "content ops fs p = (case read_file_text ops fs p of Inr c \<Rightarrow> Some c | Inl _ \<Rightarrow> None)"

text \<open>
  A successful write sets the text of its path and of no other; a write that reports a missing
  path and the creation of a directory set none; a successful removal removes its path and no
  other; a failed removal has removed the path or has changed nothing. Nothing is assumed of
  a write that fails for another reason.
\<close>

definition fs_laws :: "'fs executor_fs \<Rightarrow> bool" where
  "fs_laws ops \<longleftrightarrow>
     (\<forall>fs p c fs'. write_file ops fs p c = (fs', Inr ()) \<longrightarrow>
        content ops fs' = (content ops fs)(p \<mapsto> c)) \<and>
     (\<forall>fs p c fs' e. write_file ops fs p c = (fs', Inl e) \<longrightarrow> kind e = NotFound \<longrightarrow>
        content ops fs' = content ops fs) \<and>
     (\<forall>fs p fs' r. create_directory ops fs p = (fs', r) \<longrightarrow> content ops fs' = content ops fs) \<and>
     (\<forall>fs p fs'. remove_file ops fs p = (fs', Inr ()) \<longrightarrow>
        content ops fs' = (content ops fs)(p := None)) \<and>
     (\<forall>fs p fs' e. remove_file ops fs p = (fs', Inl e) \<longrightarrow>
        content ops fs' = content ops fs \<or> content ops fs' = (content ops fs)(p := None))"

lemma fs_lawsD:
  assumes "fs_laws ops"
  shows "write_file ops fs p c = (fs', Inr ()) \<Longrightarrow> content ops fs' = (content ops fs)(p \<mapsto> c)"
    and "write_file ops fs p c = (fs', Inl e) \<Longrightarrow> kind e = NotFound \<Longrightarrow> content ops fs' = content ops fs"
    and "create_directory ops fs p = (fs', r) \<Longrightarrow> content ops fs' = content ops fs"
    and "remove_file ops fs p = (fs', Inr ()) \<Longrightarrow> content ops fs' = (content ops fs)(p := None)"
    and "remove_file ops fs p = (fs', Inl e) \<Longrightarrow>
      content ops fs' = content ops fs \<or> content ops fs' = (content ops fs)(p := None)"
  using assms unfolding fs_laws_def by blast+

section \<open>Deltas describe what was committed\<close>

text \<open>The meaning of a recorded change, forwards and backwards.\<close>

fun replay_change :: "applied_patch_change \<Rightarrow> (rstr \<rightharpoonup> rstr) \<Rightarrow> (rstr \<rightharpoonup> rstr)" where
  "replay_change ch m =
     (case change ch of
        AddChange c _ \<Rightarrow> m(path ch \<mapsto> c)
      | DeleteChange _ \<Rightarrow> m(path ch := None)
      | UpdateChange None _ _ new \<Rightarrow> m(path ch \<mapsto> new)
      | UpdateChange (Some d) _ _ new \<Rightarrow> (m(d \<mapsto> new))(path ch := None))"

fun undo_change :: "applied_patch_change \<Rightarrow> (rstr \<rightharpoonup> rstr) \<Rightarrow> (rstr \<rightharpoonup> rstr)" where
  "undo_change ch m =
     (case change ch of
        AddChange _ overwritten \<Rightarrow> m(path ch := overwritten)
      | DeleteChange c \<Rightarrow> m(path ch \<mapsto> c)
      | UpdateChange None old _ _ \<Rightarrow> m(path ch \<mapsto> old)
      | UpdateChange (Some d) old overwritten _ \<Rightarrow> (m(path ch \<mapsto> old))(d := overwritten))"

definition replay :: "applied_patch_change list \<Rightarrow> (rstr \<rightharpoonup> rstr) \<Rightarrow> (rstr \<rightharpoonup> rstr)" where
  "replay cs = fold replay_change cs"

definition undo :: "applied_patch_change list \<Rightarrow> (rstr \<rightharpoonup> rstr) \<Rightarrow> (rstr \<rightharpoonup> rstr)" where
  "undo cs = foldr undo_change cs"

text \<open>The changes recorded between two states are exactly those made, if the delta is still exact.\<close>

definition committed ::
  "'fs executor_fs \<Rightarrow> 'fs \<Rightarrow> applied_patch_delta \<Rightarrow> 'fs \<Rightarrow> applied_patch_delta \<Rightarrow> bool" where
  "committed ops fs d fs' d' \<longleftrightarrow>
     (exact d' \<longrightarrow> exact d \<and> (\<exists>cs. changes d' = changes d @ cs \<and>
        replay cs (content ops fs) = content ops fs' \<and> undo cs (content ops fs') = content ops fs))"

lemma committed_refl: "exact d' \<longrightarrow> exact d \<Longrightarrow> changes d' = changes d \<Longrightarrow> content ops fs' = content ops fs
    \<Longrightarrow> committed ops fs d fs' d'"
  by (auto simp: committed_def replay_def undo_def)

lemma committed_trans:
  assumes "committed ops fs d fs' d'" "committed ops fs' d' fs'' d''"
  shows "committed ops fs d fs'' d''"
proof -
  { assume "exact d''"
    with assms obtain cs cs' where
      "exact d" "changes d' = changes d @ cs" "changes d'' = changes d' @ cs'"
      "replay cs (content ops fs) = content ops fs'" "undo cs (content ops fs') = content ops fs"
      "replay cs' (content ops fs') = content ops fs''" "undo cs' (content ops fs'') = content ops fs'"
      by (auto simp: committed_def)
    then have "exact d \<and> changes d'' = changes d @ (cs @ cs') \<and>
        replay (cs @ cs') (content ops fs) = content ops fs'' \<and>
        undo (cs @ cs') (content ops fs'') = content ops fs"
      by (simp add: replay_def undo_def)
    then have "exact d \<and> (\<exists>cs. changes d'' = changes d @ cs \<and>
        replay cs (content ops fs) = content ops fs'' \<and> undo cs (content ops fs'') = content ops fs)"
      by blast }
  then show ?thesis unfolding committed_def by blast
qed

lemma committed_one:
  assumes "exact d' \<Longrightarrow> exact d" "changes d' = changes d @ [ch]"
    and "exact d' \<Longrightarrow> replay_change ch (content ops fs) = content ops fs'"
    and "exact d' \<Longrightarrow> undo_change ch (content ops fs') = content ops fs"
  shows "committed ops fs d fs' d'"
  unfolding committed_def replay_def undo_def using assms by auto

lemma committed_inexact: "\<not> exact d' \<Longrightarrow> committed ops fs d fs' d'"
  by (simp add: committed_def)

lemma note_existing_exact: "note_existing_path_delta_support ops fs p ex \<Longrightarrow> ex"
  by (auto simp: note_existing_path_delta_support_def split: sum.splits if_splits)

lemma read_optional_exact:
  assumes "read_optional_file_text_for_delta ops fs p ex = (ex', overwritten)" "ex'"
  shows "ex" "overwritten = content ops fs p"
  using assms note_existing_exact[of ops fs p ex]
  by (auto simp: read_optional_file_text_for_delta_def Let_def content_def split: sum.splits if_splits)

lemma write_retry_content:
  assumes "fs_laws ops" "write_file_with_missing_parent_retry ops fs p c = (fs', Inr ())"
  shows "content ops fs' = (content ops fs)(p \<mapsto> c)"
proof -
  note laws = fs_lawsD[OF assms(1)]
  obtain fs1 r1 where w: "write_file ops fs p c = (fs1, r1)" by fastforce
  show ?thesis
  proof (cases r1)
    case (Inr u)
    with w assms(2) laws(1)[of fs p c fs1] show ?thesis
      by (simp add: write_file_with_missing_parent_retry_def)
  next
    case (Inl e)
    with w assms(2) have nf: "kind e = NotFound"
      by (auto simp: write_file_with_missing_parent_retry_def with_context_def Let_def split: if_splits)
    obtain fs2 r2 where cd: "(case parent p of Some q \<Rightarrow> create_directory ops fs1 q | None \<Rightarrow> (fs1, Inr ()))
        = (fs2, r2)" by fastforce
    have "content ops fs2 = content ops fs"
      using cd laws(2)[of fs p c fs1 e] laws(3)[of fs1 _ fs2 r2] w Inl nf by (auto split: option.splits)
    moreover obtain fs3 r3 where w3: "write_file ops fs2 p c = (fs3, r3)" by fastforce
    moreover have "fs3 = fs' \<and> r3 = Inr ()"
      using assms(2) w Inl nf cd w3
      by (cases r3) (auto simp: write_file_with_missing_parent_retry_def with_context_def Let_def split: sum.splits)
    ultimately show ?thesis using laws(1)[of fs2 p c fs'] by simp
  qed
qed

lemma apply_add_committed:
  assumes "fs_laws ops" "apply_add ops fs d p c = (fs', d', r)"
  shows "committed ops fs d fs' d'"
proof -
  obtain ex ow where ro: "read_optional_file_text_for_delta ops fs p (exact d) = (ex, ow)" by fastforce
  obtain fs1 r1 where w: "write_file_with_missing_parent_retry ops fs p c = (fs1, r1)" by fastforce
  show ?thesis
  proof (cases r1)
    case (Inl e)
    with assms(2) ro w show ?thesis by (intro committed_inexact) (auto simp: apply_add_def)
  next
    case (Inr u)
    with assms(2) ro w have d': "fs' = fs1"
      "d' = delta_push \<lparr>path = p, change = AddChange c ow\<rparr> (d\<lparr>exact := ex\<rparr>)"
      by (auto simp: apply_add_def)
    show ?thesis
      by (rule committed_one[of _ _ "\<lparr>path = p, change = AddChange c ow\<rparr>"])
         (use d' read_optional_exact[OF ro] write_retry_content[OF assms(1), of fs p c fs1] w Inr
          in \<open>auto simp: delta_push_def\<close>)
  qed
qed

lemma apply_delete_committed:
  assumes "fs_laws ops" "apply_delete ops fs d p = (fs', d', r)"
  shows "committed ops fs d fs' d'"
proof -
  define dc where "dc = content ops fs p"
  define d1 where "d1 = d\<lparr>exact := note_existing_path_delta_support ops fs p (exact d) \<and> dc \<noteq> None\<rparr>"
  have d1: "exact d1 \<Longrightarrow> exact d \<and> dc \<noteq> None" "changes d1 = changes d"
    using note_existing_exact by (auto simp: d1_def)
  have body: "apply_delete ops fs d p =
     (let context = lit ''Failed to delete file '' @ p in
      case with_context context (ensure_not_directory ops fs p) of
           Inl e \<Rightarrow> (fs, d1, Inl e)
         | Inr _ \<Rightarrow>
             (case remove_file ops fs p of
                (fs, Inl e) \<Rightarrow> (fs, delta_and (remove_failure_was_side_effect_free ops fs p dc) d1,
                   Inl (AnyIo context e))
              | (fs, Inr _) \<Rightarrow>
                  (fs, (case dc of
                          Some c \<Rightarrow> delta_push \<lparr>path = p, change = DeleteChange c\<rparr> d1
                        | None \<Rightarrow> d1), Inr ())))"
    by (auto simp: apply_delete_def d1_def dc_def content_def Let_def split: sum.splits)
  obtain fs1 r1 where rm: "remove_file ops fs p = (fs1, r1)" by fastforce
  note laws = fs_lawsD(4,5)[OF assms(1)]
  show ?thesis
  proof (cases "ensure_not_directory ops fs p")
    case (Inl e)
    with assms(2) body d1 show ?thesis
      by (intro committed_refl) (auto simp: with_context_def Let_def)
  next
    case (Inr u)
    note ok = this
    show ?thesis
    proof (cases r1)
      case (Inl e)
      with assms(2) body ok rm have d': "fs' = fs1"
        "d' = delta_and (remove_failure_was_side_effect_free ops fs1 p dc) d1"
        by (auto simp: with_context_def Let_def)
      show ?thesis
      proof (cases "exact d'")
        case True
        then have "content ops fs1 p \<noteq> None" "exact d"
          using d' d1 by (auto simp: delta_and_def remove_failure_was_side_effect_free_def content_def
              split: option.splits)
        then have "content ops fs1 = content ops fs" using laws(2)[of fs p fs1 e] rm Inl by auto
        with d' d1(2) \<open>exact d\<close> show ?thesis by (intro committed_refl) (auto simp: delta_and_def)
      qed (rule committed_inexact)
    next
      case (Inr u)
      show ?thesis
      proof (cases dc)
        case None
        with assms(2) body ok rm Inr d1 show ?thesis
          by (intro committed_inexact) (auto simp: with_context_def Let_def)
      next
        case (Some c)
        with assms(2) body ok rm Inr have d': "fs' = fs1"
          "d' = delta_push \<lparr>path = p, change = DeleteChange c\<rparr> d1"
          by (auto simp: with_context_def Let_def)
        show ?thesis
          by (rule committed_one[of _ _ "\<lparr>path = p, change = DeleteChange c\<rparr>"])
             (use d' d1 laws(1)[of fs p fs1] rm Inr Some dc_def in \<open>auto simp: delta_push_def\<close>)
      qed
    qed
  qed
qed


lemma undo_move:
  assumes "m p = Some old" "ow = m dest"
  shows "(((m(dest \<mapsto> new))(p := None))(p \<mapsto> old))(dest := ow) = m"
  using assms by (auto simp: fun_eq_iff)

lemma apply_move_committed:
  assumes "fs_laws ops" "apply_move ops fs d p dest old new = (fs', d', r)" "content ops fs p = Some old"
  shows "committed ops fs d fs' d'"
proof -
  obtain ex ow where ro: "read_optional_file_text_for_delta ops fs dest (exact d) = (ex, ow)" by fastforce
  obtain fs1 r1 where w: "write_file_with_missing_parent_retry ops fs dest new = (fs1, r1)" by fastforce
  obtain fs2 r2 where rm: "remove_file ops fs1 p = (fs2, r2)" by fastforce
  let ?add = "\<lparr>path = dest, change = AddChange new ow\<rparr>"
  define d1 where "d1 = delta_push ?add (d\<lparr>exact := ex\<rparr>)"
  note RO = read_optional_exact[OF ro] and laws = fs_lawsD(4,5)[OF assms(1)]
  show ?thesis
  proof (cases r1)
    case (Inl e)
    with assms(2) ro w show ?thesis by (intro committed_inexact) (auto simp: apply_move_def)
  next
    case (Inr u)
    then have c1: "content ops fs1 = (content ops fs)(dest \<mapsto> new)"
      using write_retry_content[OF assms(1), of fs dest new fs1] w by simp
    have part: "committed ops fs d fs1 d1"
      by (rule committed_one[of _ _ ?add]) (use RO c1 in \<open>auto simp: d1_def delta_push_def\<close>)
    have body: "apply_move ops fs d p dest old new =
      (let context = lit ''Failed to remove original '' @ p in
       case with_context context (ensure_not_directory ops fs1 p) of
         Inl e \<Rightarrow> (fs1, d1, Inl e)
       | Inr _ \<Rightarrow> (case r2 of
           Inl e \<Rightarrow> (fs2, delta_and (remove_failure_was_side_effect_free ops fs2 p (Some old)) d1,
             Inl (AnyIo context e))
         | Inr _ \<Rightarrow> (fs2, d1\<lparr>changes := (changes d1)[length (changes d) :=
             \<lparr>path = p, change = UpdateChange (Some dest) old ow new\<rparr>]\<rparr>, Inr ())))"
      using ro w Inr rm by (simp add: apply_move_def d1_def Let_def split: sum.splits)
    show ?thesis
    proof (cases "ensure_not_directory ops fs1 p")
      case (Inl e)
      with assms(2) body part show ?thesis by (auto simp: with_context_def Let_def)
    next
      case (Inr u)
      note ok = this
      show ?thesis
      proof (cases r2)
        case (Inl e)
        with assms(2) body ok have d': "fs' = fs2"
          "d' = delta_and (remove_failure_was_side_effect_free ops fs2 p (Some old)) d1"
          by (auto simp: with_context_def Let_def)
        show ?thesis
        proof (cases "exact d'")
          case True
          then have "content ops fs2 p \<noteq> None" "exact d1"
            using d' by (auto simp: delta_and_def remove_failure_was_side_effect_free_def content_def)
          then have "content ops fs2 = content ops fs1" using laws(2)[of fs1 p fs2 e] rm Inl by auto
          with d' \<open>exact d1\<close> have "committed ops fs1 d1 fs' d'"
            by (intro committed_refl) (auto simp: delta_and_def)
          with part show ?thesis by (rule committed_trans)
        qed (rule committed_inexact)
      next
        case (Inr u)
        let ?upd = "\<lparr>path = p, change = UpdateChange (Some dest) old ow new\<rparr>"
        have d': "fs' = fs2" "exact d' = ex" "changes d' = changes d @ [?upd]"
          using assms(2) body ok Inr by (auto simp: with_context_def Let_def d1_def delta_push_def)
        have c2: "content ops fs2 = ((content ops fs)(dest \<mapsto> new))(p := None)"
          using laws(1)[of fs1 p fs2] rm Inr c1 by simp
        show ?thesis
          by (rule committed_one[of _ _ ?upd])
             (use d' RO c2 undo_move[of "content ops fs" p old ow dest new] assms(3) in auto)
      qed
    qed
  qed
qed

lemma derive_read:
  assumes "derive_new_contents_from_chunks ops fs p cs = Some (Inr (old, new))"
  shows "content ops fs p = Some old"
  using assms
  by (auto simp: derive_new_contents_from_chunks_def content_def split: sum.splits)
     (case_tac z; simp)

lemma apply_update_committed:
  assumes "fs_laws ops" "apply_update ops home cwd fs d p dest cs = Some (fs', d', r)"
  shows "committed ops fs d fs' d'"
proof -
  define d1 where "d1 = d\<lparr>exact := note_existing_path_delta_support ops fs p (exact d)\<rparr>"
  have d1: "exact d1 \<Longrightarrow> exact d" "changes d1 = changes d"
    using note_existing_exact by (auto simp: d1_def)
  have start: "committed ops fs d fs d1" using d1 by (intro committed_refl) auto
  obtain r1 where der: "derive_new_contents_from_chunks ops fs p cs = Some r1"
    using assms(2) by (cases "derive_new_contents_from_chunks ops fs p cs") (auto simp: apply_update_def)
  show ?thesis
  proof (cases r1)
    case (Inl e)
    with assms(2) der start show ?thesis by (auto simp: apply_update_def d1_def Let_def)
  next
    case (Inr on)
    obtain old new where on: "on = (old, new)" by fastforce
    have old: "content ops fs p = Some old" using derive_read[of ops fs p cs old new] der Inr on by simp
    note res = Inr on
    show ?thesis
    proof (cases dest)
      case (Some q)
      with assms(2) der res have
        "apply_move ops fs d1 p (resolve_path_against_base home q cwd) old new = (fs', d', r)"
        by (simp add: apply_update_def d1_def Let_def)
      from apply_move_committed[OF assms(1) this old] start show ?thesis by (blast intro: committed_trans)
    next
      case None
      obtain fs1 r2 where w: "write_file ops fs p new = (fs1, r2)" by fastforce
      let ?upd = "\<lparr>path = p, change = UpdateChange None old None new\<rparr>"
      show ?thesis
      proof (cases r2)
        case (Inl e)
        with assms(2) der res None w show ?thesis
          by (intro committed_inexact) (auto simp: apply_update_def with_context_def Let_def)
      next
        case (Inr u)
        with assms(2) der res None w have d': "fs' = fs1" "d' = delta_push ?upd d1"
          by (auto simp: apply_update_def with_context_def d1_def Let_def)
        show ?thesis
          by (rule committed_one[of _ _ ?upd])
             (use d' d1 old fs_lawsD(1)[OF assms(1), of fs p new fs1] w Inr
              in \<open>auto simp: delta_push_def fun_upd_idem\<close>)
      qed
    qed
  qed
qed

lemma apply_hunk_committed:
  "fs_laws ops \<Longrightarrow> apply_hunk ops home cwd h fs d = Some (fs', d', r) \<Longrightarrow> committed ops fs d fs' d'"
  by (cases h) (auto dest: apply_add_committed apply_delete_committed apply_update_committed)

lemma apply_hunks_loop_committed:
  assumes "fs_laws ops" "apply_hunks_loop ops home cwd hs fs d a = Some (fs', d', r)"
  shows "committed ops fs d fs' d'"
  using assms(2)
proof (induction hs arbitrary: fs d a)
  case Nil
  then show ?case by (auto intro: committed_refl)
next
  case (Cons h hs)
  obtain fs1 d1 r1 where h: "apply_hunk ops home cwd h fs d = Some (fs1, d1, r1)"
    using Cons.prems by (auto split: option.splits)
  note first = apply_hunk_committed[OF assms(1) h]
  show ?case
  proof (cases r1)
    case (Inl e)
    with Cons.prems h first show ?thesis by simp
  next
    case (Inr u)
    with Cons.prems h have "apply_hunks_loop ops home cwd hs fs1 d1 (note_affected h a) = Some (fs', d', r)"
      by simp
    from committed_trans[OF first Cons.IH[OF this]] show ?thesis .
  qed
qed


section \<open>Every run ends in an answer\<close>

lemma apply_update_total: "apply_update ops home cwd fs d p dest cs \<noteq> None"
proof -
  have "derive_new_contents_from_chunks ops fs p cs \<noteq> None"
    using new_contents_total[of p]
    by (auto simp: derive_new_contents_from_chunks_def split: sum.splits)
  then show ?thesis
    unfolding apply_update_def Let_def by (simp del: not_None_eq split: option.split sum.split prod.split)
qed

lemma apply_hunk_total: "apply_hunk ops home cwd h fs d \<noteq> None"
  using apply_update_total by (cases h) auto

lemma apply_hunks_loop_total:
  "\<exists>fs' d' r. apply_hunks_loop ops home cwd hs fs d a = Some (fs', d', r) \<and>
     (\<forall>a'. r = Inr a' \<longrightarrow> a' = fold note_affected hs a)"
proof (induction hs arbitrary: fs d a)
  case (Cons h hs)
  obtain fs1 d1 r1 where "apply_hunk ops home cwd h fs d = Some (fs1, d1, r1)"
    using apply_hunk_total by (metis option.exhaust prod_cases3)
  with Cons.IH[of fs1 d1 "note_affected h a"] show ?case by (cases r1) auto
qed simp

fun is_add :: "hunk \<Rightarrow> bool" where
  "is_add (AddFile p c) = True" | "is_add h = False"

fun is_delete :: "hunk \<Rightarrow> bool" where
  "is_delete (DeleteFile p) = True" | "is_delete h = False"

lemma fold_note_affected:
  "fold note_affected hs a =
     \<lparr>added = added a @ map hunk_path (filter is_add hs),
      modified = modified a @ map hunk_path (filter (\<lambda>h. \<not> is_add h \<and> \<not> is_delete h) hs),
      deleted = deleted a @ map hunk_path (filter is_delete hs)\<rparr>"
proof (induction hs arbitrary: a)
  case (Cons h hs)
  then show ?case by (cases h) simp_all
qed simp

text \<open>
  C32. Applying hunks always returns, with an error when there is no hunk; on success the
  summary names each hunk's path exactly once, in the order of the patch and under the heading
  of its kind.
\<close>

theorem apply_hunks_to_files_answers:
  "\<exists>fs' d' r. apply_hunks_to_files ops home cwd hs fs d = Some (fs', d', r) \<and>
     (if hs = [] then r = Inl (AnyMsg (lit ''No files were modified.'')) \<and> fs' = fs \<and> d' = d
      else case r of
        Inl e \<Rightarrow> True
      | Inr a \<Rightarrow>
          added a = map hunk_path (filter is_add hs) \<and>
          deleted a = map hunk_path (filter is_delete hs) \<and>
          modified a = map hunk_path (filter (\<lambda>h. \<not> is_add h \<and> \<not> is_delete h) hs))"
proof (cases "hs = []")
  case False
  obtain fs' d' r where "apply_hunks_loop ops home cwd hs fs d affected_empty = Some (fs', d', r)"
    "\<forall>a'. r = Inr a' \<longrightarrow> a' = fold note_affected hs affected_empty"
    using apply_hunks_loop_total[of ops home cwd hs fs d affected_empty] by blast
  with False show ?thesis
    by (cases r) (simp_all add: apply_hunks_to_files_def fold_note_affected affected_empty_def)
qed (simp add: apply_hunks_to_files_def)

section \<open>The delta of a run\<close>

fun outcome_delta :: "(apply_patch_failure, applied_patch_delta) rresult \<Rightarrow> applied_patch_delta" where
  "outcome_delta (Inl f) = failure_delta f"
| "outcome_delta (Inr d) = d"

lemma apply_hunks_delta:
  assumes "apply_hunks ops wr home cwd hs fs so se = Some (fs', so', se', r)"
  shows "\<exists>r'. apply_hunks_to_files ops home cwd hs fs delta_empty = Some (fs', outcome_delta r, r')"
  using assms
  by (auto simp: apply_hunks_def Let_def split: option.splits sum.splits prod.splits)

lemma apply_hunks_to_files_committed:
  assumes "fs_laws ops" "apply_hunks_to_files ops home cwd hs fs d = Some (fs', d', r)"
  shows "committed ops fs d fs' d'"
  using assms apply_hunks_loop_committed[OF assms(1)]
  by (auto simp: apply_hunks_to_files_def intro: committed_refl split: if_splits)

text \<open>
  A filesystem in memory: files as a map, with the list of existing directories. A write below
  a missing directory reports \<open>NotFound\<close>.
\<close>

type_synonym mem_fs = "(rstr \<rightharpoonup> rstr) \<times> rstr list"

definition mem_not_found :: io_error where
  "mem_not_found = Io_Error NotFound (lit ''not found'')"

definition mem_ops :: "mem_fs executor_fs" where
  "mem_ops =
     \<lparr>get_metadata = (\<lambda>(m, ds) p.
        if p \<in> set ds then Inr \<lparr>is_directory = True, is_file = False, is_symlink = False\<rparr>
        else if m p \<noteq> None then Inr \<lparr>is_directory = False, is_file = True, is_symlink = False\<rparr>
        else Inl mem_not_found),
      read_file_text = (\<lambda>(m, ds) p. case m p of Some c \<Rightarrow> Inr c | None \<Rightarrow> Inl mem_not_found),
      write_file = (\<lambda>(m, ds) p c.
        if case parent p of Some q \<Rightarrow> q \<in> set ds | None \<Rightarrow> False then ((m(p \<mapsto> c), ds), Inr ())
        else ((m, ds), Inl mem_not_found)),
      create_directory = (\<lambda>(m, ds) p. ((m, p # ds), Inr ())),
      remove_file = (\<lambda>(m, ds) p.
        if m p \<noteq> None then ((m(p := None), ds), Inr ()) else ((m, ds), Inl mem_not_found))\<rparr>"

definition vec_writer :: "rstr writer" where
  "vec_writer w s = (w @ s, Inr ())"

lemma mem_content [simp]: "content mem_ops (m, ds) = m"
  by (auto simp: content_def mem_ops_def split: option.splits)

lemma fs_laws_mem: "fs_laws mem_ops"
proof -
  have "write_file mem_ops = (\<lambda>(m, ds) p c.
        if case parent p of Some q \<Rightarrow> q \<in> set ds | None \<Rightarrow> False then ((m(p \<mapsto> c), ds), Inr ())
        else ((m, ds), Inl mem_not_found))"
    "create_directory mem_ops = (\<lambda>(m, ds) p. ((m, p # ds), Inr ()))"
    "remove_file mem_ops = (\<lambda>(m, ds) p.
        if m p \<noteq> None then ((m(p := None), ds), Inr ()) else ((m, ds), Inl mem_not_found))"
    by (simp_all add: mem_ops_def)
  then show ?thesis
    unfolding fs_laws_def by (auto split: if_splits)
qed

text \<open>
  C2. The contract of \<open>AppliedPatchDelta\<close>. When a run of \<open>apply_patch\<close>, successful or
  failed, reports an exact delta, then the files hold what replaying the recorded changes on
  the initial files gives, and undoing the changes with the contents the delta saved restores
  the initial files.
\<close>

theorem apply_patch_delta_exact:
  assumes "fs_laws ops" "apply_patch ops wr home cwd p fs so se = Some (fs', so', se', r)"
    and "exact (outcome_delta r)"
  shows "replay (changes (outcome_delta r)) (content ops fs) = content ops fs'
    \<and> undo (changes (outcome_delta r)) (content ops fs') = content ops fs"
proof (cases "parse_patch p")
  case (Inl e)
  with assms(2) have "fs' = fs" "changes (outcome_delta r) = []"
    by (auto simp: apply_patch_def without_delta_def delta_empty_def split: prod.splits sum.splits)
  then show ?thesis by (simp add: replay_def undo_def)
next
  case (Inr src)
  with assms(2) obtain r' where
    "apply_hunks_to_files ops home cwd (hunks src) fs delta_empty = Some (fs', outcome_delta r, r')"
    using apply_hunks_delta by (fastforce simp: apply_patch_def)
  from apply_hunks_to_files_committed[OF assms(1) this] assms(3) show ?thesis
    by (auto simp: committed_def delta_empty_def)
qed

definition sample_patch :: rstr where
  "sample_patch = join [LF]
     [lit ''*** Begin Patch'', lit ''*** Add File: d/new.txt'', lit ''+hello'',
      lit ''*** Update File: a.txt'', lit ''*** Move to: b.txt'', lit ''@@'', lit ''-x'', lit ''+y'',
      lit ''*** Update File: none.txt'', lit ''@@'', lit ''-q'', lit ''*** End Patch'']"

definition sample_fs :: mem_fs where
  "sample_fs = ([lit ''/w/a.txt'' \<mapsto> lit ''x'' @ [LF]], [lit ''/w''])"

definition sample_changes :: "applied_patch_change list" where
  "sample_changes =
     [\<lparr>path = lit ''/w/d/new.txt'', change = AddChange (lit ''hello'' @ [LF]) None\<rparr>,
      \<lparr>path = lit ''/w/a.txt'',
       change = UpdateChange (Some (lit ''/w/b.txt'')) (lit ''x'' @ [LF]) None (lit ''y'' @ [LF])\<rparr>]"


theorem apply_patch_delta_exact_witness:
  "\<exists>fs' so se r.
     apply_patch mem_ops vec_writer None (lit ''/w'') sample_patch sample_fs [] [] = Some (fs', so, se, r)
     \<and> exact (outcome_delta r) \<and> changes (outcome_delta r) = sample_changes
     \<and> replay sample_changes (content mem_ops sample_fs) = content mem_ops fs'
     \<and> undo sample_changes (content mem_ops fs') = content mem_ops sample_fs"
proof -
  let ?run = "apply_patch mem_ops vec_writer None (lit ''/w'') sample_patch sample_fs [] []"
  have "map_option (\<lambda>(fs, so, se, r). outcome_delta r) ?run
      = Some \<lparr>changes = sample_changes, exact = True\<rparr>" by code_simp
  then obtain fs' so se r where run: "?run = Some (fs', so, se, r)"
    and d: "outcome_delta r = \<lparr>changes = sample_changes, exact = True\<rparr>"
    by auto
  then show ?thesis using apply_patch_delta_exact[OF fs_laws_mem run] by auto
qed

text \<open>
  C39. A move onto the file itself destroys the file: the destination is written first and then
  removed as the source, and the hunk succeeds.
\<close>

theorem move_onto_itself_loses_file:
  assumes "fs_laws ops" "apply_move ops fs d p p old new = (fs', d', Inr ())"
  shows "content ops fs' p = None"
proof -
  have "\<exists>fs1. remove_file ops fs1 p = (fs', Inr ())"
    using assms(2)
    by (auto simp: apply_move_def with_context_def Let_def split: prod.splits sum.splits)
  then show ?thesis using fs_lawsD(4)[OF assms(1)] by fastforce
qed

theorem move_onto_itself_loses_file_witness:
  "\<exists>fs' d'. apply_move mem_ops sample_fs delta_empty (lit ''/w/a.txt'') (lit ''/w/a.txt'')
       (lit ''x'' @ [LF]) (lit ''y'' @ [LF]) = (fs', d', Inr ())
     \<and> content mem_ops fs' (lit ''/w/a.txt'') = None"
proof -
  let ?run = "apply_move mem_ops sample_fs delta_empty (lit ''/w/a.txt'') (lit ''/w/a.txt'')
       (lit ''x'' @ [LF]) (lit ''y'' @ [LF])"
  have "snd (snd ?run) = Inr ()" by code_simp
  then obtain fs' d' where run: "?run = (fs', d', Inr ())" by (cases ?run) auto
  with move_onto_itself_loses_file[OF fs_laws_mem run] show ?thesis by blast
qed

end
