(* ===== verification/Head_Tail_Buffer.thy ===== *)
theory Head_Tail_Buffer
  imports Rust_Prelude
begin

text \<open>
  \<open>core/src/unified_exec/head_tail_buffer.rs\<close>: the capped buffer for the output of a command,
  which keeps a prefix and a suffix. The specification is the whole output since the last drain;
  the buffer shows its first and last bytes and counts the rest.
\<close>

section \<open>The buffer\<close>

record 'b head_tail_buffer =
  max_bytes :: nat
  head_budget :: nat
  tail_budget :: nat
  head :: "'b list list"
  tail :: "'b list list"
  head_bytes :: nat
  tail_bytes :: nat
  omitted_bytes :: nat

definition new_buffer :: "nat \<Rightarrow> 'b head_tail_buffer" where
  "new_buffer cap = \<lparr>max_bytes = cap, head_budget = cap div 2, tail_budget = cap - cap div 2,
     head = [], tail = [], head_bytes = 0, tail_bytes = 0, omitted_bytes = 0\<rparr>"

definition retained_bytes :: "'b head_tail_buffer \<Rightarrow> nat" where
  "retained_bytes b = sat_add (head_bytes b) (tail_bytes b)"

text \<open>The loop of \<open>trim_tail_to_budget\<close> over the tail, its byte count and the omitted count.\<close>

fun trim_loop :: "nat \<Rightarrow> 'b list list \<Rightarrow> nat \<Rightarrow> nat \<Rightarrow> 'b list list \<times> nat \<times> nat" where
  "trim_loop excess chunks tbytes omitted =
     (if excess = 0 then (chunks, tbytes, omitted)
      else case chunks of
        [] \<Rightarrow> ([], tbytes, omitted)
      | front # rest \<Rightarrow>
          if length front \<le> excess
          then trim_loop (excess - length front) rest (tbytes - length front)
                 (sat_add omitted (length front))
          else (drop excess front # rest, tbytes - excess, sat_add omitted excess))"

declare trim_loop.simps [simp del]

definition trim_tail_to_budget :: "'b head_tail_buffer \<Rightarrow> 'b head_tail_buffer" where
  "trim_tail_to_budget b =
     (case trim_loop (tail_bytes b - tail_budget b) (tail b) (tail_bytes b) (omitted_bytes b) of
        (chunks, tbytes, omitted) \<Rightarrow> b\<lparr>tail := chunks, tail_bytes := tbytes, omitted_bytes := omitted\<rparr>)"

definition push_to_tail :: "'b list \<Rightarrow> 'b head_tail_buffer \<Rightarrow> 'b head_tail_buffer" where
  "push_to_tail chunk b =
     (if tail_budget b = 0 then b\<lparr>omitted_bytes := sat_add (omitted_bytes b) (length chunk)\<rparr>
      else if length chunk \<ge> tail_budget b then
        (let start = length chunk - tail_budget b;
             kept = drop start chunk;
             dropped = length chunk - length kept
         in b\<lparr>omitted_bytes := sat_add (sat_add (omitted_bytes b) (tail_bytes b)) dropped,
              tail := [kept], tail_bytes := length kept\<rparr>)
      else
        trim_tail_to_budget
          (b\<lparr>tail_bytes := sat_add (tail_bytes b) (length chunk), tail := tail b @ [chunk]\<rparr>))"

definition push_chunk :: "'b list \<Rightarrow> 'b head_tail_buffer \<Rightarrow> 'b head_tail_buffer" where
  "push_chunk chunk b =
     (if max_bytes b = 0 then b\<lparr>omitted_bytes := sat_add (omitted_bytes b) (length chunk)\<rparr>
      else if head_bytes b < head_budget b then
        (let remaining_head = head_budget b - head_bytes b in
         if length chunk \<le> remaining_head then
           b\<lparr>head_bytes := sat_add (head_bytes b) (length chunk), head := head b @ [chunk]\<rparr>
         else
           (let head_part = take remaining_head chunk;
                tail_part = drop remaining_head chunk;
                b = (if head_part \<noteq> []
                     then b\<lparr>head_bytes := sat_add (head_bytes b) (length head_part),
                            head := head b @ [head_part]\<rparr>
                     else b)
            in push_to_tail tail_part b))
      else push_to_tail chunk b)"

definition snapshot_chunks :: "'b head_tail_buffer \<Rightarrow> 'b list list" where
  "snapshot_chunks b = head b @ tail b"

definition to_bytes :: "'b head_tail_buffer \<Rightarrow> 'b list" where
  "to_bytes b = concat (head b) @ concat (tail b)"

definition drain_chunks :: "'b head_tail_buffer \<Rightarrow> 'b list list \<times> 'b head_tail_buffer" where
  "drain_chunks b = (head b @ tail b,
     b\<lparr>head := [], tail := [], head_bytes := 0, tail_bytes := 0, omitted_bytes := 0\<rparr>)"

datatype 'b buffer_op = Push "'b list" | Drain

fun buffer_step :: "'b head_tail_buffer \<Rightarrow> 'b buffer_op \<Rightarrow> 'b head_tail_buffer" where
  "buffer_step b (Push chunk) = push_chunk chunk b"
| "buffer_step b Drain = snd (drain_chunks b)"

section \<open>The specification\<close>

text \<open>The output since the last drain, and what a buffer of \<open>cap\<close> bytes shows of it.\<close>

fun output_step :: "'b list \<Rightarrow> 'b buffer_op \<Rightarrow> 'b list" where
  "output_step h (Push chunk) = h @ chunk"
| "output_step h Drain = []"

definition shown_head :: "nat \<Rightarrow> 'b list \<Rightarrow> 'b list" where
  "shown_head cap h = take (cap div 2) h"

definition shown_tail :: "nat \<Rightarrow> 'b list \<Rightarrow> 'b list" where
  "shown_tail cap h = take_last (cap - cap div 2) (drop (cap div 2) h)"

definition displays :: "nat \<Rightarrow> 'b head_tail_buffer \<Rightarrow> 'b list \<Rightarrow> bool" where
  "displays cap b h \<longleftrightarrow>
     cap \<le> USIZE_MAX \<and> max_bytes b = cap \<and> head_budget b = cap div 2 \<and> tail_budget b = cap - cap div 2 \<and>
     concat (head b) = shown_head cap h \<and> concat (tail b) = shown_tail cap h \<and>
     head_bytes b = length (shown_head cap h) \<and> tail_bytes b = length (shown_tail cap h) \<and>
     omitted_bytes b = min USIZE_MAX (length h - length (shown_head cap h) - length (shown_tail cap h))"

section \<open>The buffer implements it\<close>

lemma sat_add_min: "sat_add (min USIZE_MAX x) y = min USIZE_MAX (x + y)"
  by (simp add: sat_add_def)

lemma trim_loop_spec:
  assumes "excess \<le> length (concat chunks)"
  shows "\<exists>chunks'. trim_loop excess chunks tbytes (min USIZE_MAX om) = (chunks', tbytes - excess, min USIZE_MAX (om + excess))
           \<and> concat chunks' = drop excess (concat chunks)"
  using assms
proof (induction chunks arbitrary: excess tbytes om)
  case (Cons front rest)
  show ?case
  proof (cases "excess = 0 \<or> excess < length front")
    case True
    then show ?thesis by (auto simp: trim_loop.simps sat_add_min)
  next
    case False
    with Cons.IH[of "excess - length front" "tbytes - length front" "om + length front"] Cons.prems
    show ?thesis by (subst trim_loop.simps) (auto simp: sat_add_min)
  qed
qed (simp add: trim_loop.simps)

lemma push_to_tail_spec:
  assumes "concat (tail b) = take_last (tail_budget b) old" "tail_bytes b = length (take_last (tail_budget b) old)"
    and "omitted_bytes b = min USIZE_MAX om" "tail_budget b \<le> 2 ^ 63"
  shows "\<exists>chunks. push_to_tail chunk b =
      b\<lparr>tail := chunks, tail_bytes := length (take_last (tail_budget b) (old @ chunk)),
        omitted_bytes := min USIZE_MAX (om + length (take_last (tail_budget b) old) + length chunk
          - length (take_last (tail_budget b) (old @ chunk)))\<rparr>
    \<and> concat chunks = take_last (tail_budget b) (old @ chunk)"
proof -
  consider "tail_budget b = 0" | "tail_budget b \<noteq> 0" "tail_budget b \<le> length chunk"
    | (fit) "length chunk < tail_budget b" by linarith
  then show ?thesis
  proof cases
    case 1
    then show ?thesis using assms
      by (intro exI[of _ "tail b"]) (simp add: push_to_tail_def sat_add_min)
  next
    case 2
    then show ?thesis using assms
      by (intro exI[of _ "[take_last (tail_budget b) chunk]"])
         (simp add: push_to_tail_def sat_add_min take_last_append_long Let_def flip: take_last_def)
  next
    case fit
    let ?n = "tail_budget b" and ?t = "take_last (tail_budget b) old"
    define e where "e = length ?t + length chunk - ?n"
    have tb: "sat_add (tail_bytes b) (length chunk) = length ?t + length chunk"
      using fit assms(2,4) by (simp add: sat_add_def USIZE_MAX_def)
    have cat: "concat (tail b @ [chunk]) = ?t @ chunk" using assms(1) by simp
    obtain chunks where chunks: "trim_loop e (tail b @ [chunk]) (length ?t + length chunk) (min USIZE_MAX om)
        = (chunks, length ?t + length chunk - e, min USIZE_MAX (om + e))"
      "concat chunks = drop e (?t @ chunk)"
      using trim_loop_spec[of e "tail b @ [chunk]" "length ?t + length chunk" om] cat
      by (auto simp: e_def)
    have res: "drop e (?t @ chunk) = take_last ?n (old @ chunk)"
      by (subst take_last_append) (simp add: take_last_def[of ?n "?t @ chunk"] e_def)
    then have len: "length ?t + length chunk - e = length (take_last ?n (old @ chunk))"
      by (metis length_append length_drop)
    have om: "om + e = om + length ?t + length chunk - length (take_last ?n (old @ chunk))"
    proof -
      have "e \<le> length ?t + length chunk" by (simp add: e_def)
      with len show ?thesis by linarith
    qed
    show ?thesis
      using fit tb chunks res len om assms(3)
      by (intro exI[of _ chunks]) (simp add: push_to_tail_def trim_tail_to_budget_def e_def)
  qed
qed


lemma shown_push_head:
  assumes "length h + length chunk \<le> cap div 2"
  shows "shown_head cap (h @ chunk) = h @ chunk" "shown_head cap h = h"
    and "shown_tail cap (h @ chunk) = []" "shown_tail cap h = []"
  using assms by (auto simp: shown_head_def shown_tail_def take_last_def)

lemma displays_new: "cap \<le> USIZE_MAX \<Longrightarrow> displays cap (new_buffer cap) []"
  by (simp add: displays_def new_buffer_def shown_head_def shown_tail_def take_last_def)

text \<open>A chunk, or the rest of one, that goes to the tail once the head is full.\<close>

lemma displays_push_tail:
  assumes "displays cap b h" "cap div 2 \<le> length h"
  shows "displays cap (push_to_tail chunk b) (h @ chunk)"
proof -
  let ?d = "drop (cap div 2) h" and ?n = "cap - cap div 2"
  let ?om = "length h - length (shown_head cap h) - length (shown_tail cap h)"
  have D: "tail_budget b = ?n" "concat (tail b) = take_last ?n ?d" "tail_bytes b = length (take_last ?n ?d)"
    "omitted_bytes b = min USIZE_MAX ?om" "cap \<le> USIZE_MAX"
    using assms(1) by (auto simp: displays_def shown_tail_def)
  have small: "?n \<le> 2 ^ 63" using D(5) by (simp add: USIZE_MAX_def)
  obtain chunks where t: "push_to_tail chunk b =
      b\<lparr>tail := chunks, tail_bytes := length (take_last ?n (?d @ chunk)),
        omitted_bytes := min USIZE_MAX (?om + length (take_last ?n ?d) + length chunk
          - length (take_last ?n (?d @ chunk)))\<rparr>" "concat chunks = take_last ?n (?d @ chunk)"
    using push_to_tail_spec[of b ?d ?om chunk, unfolded D(1), OF D(2-4) small] by blast
  have sh: "shown_head cap (h @ chunk) = shown_head cap h"
    "shown_tail cap (h @ chunk) = take_last ?n (?d @ chunk)"
    using assms(2) by (auto simp: shown_head_def shown_tail_def)
  have "length (shown_head cap h) + length (shown_tail cap h) \<le> length h"
    by (simp add: shown_head_def shown_tail_def)
  then have om: "?om + length (take_last ?n ?d) + length chunk - length (take_last ?n (?d @ chunk))
      = length (h @ chunk) - length (shown_head cap (h @ chunk)) - length (shown_tail cap (h @ chunk))"
    unfolding sh shown_tail_def[symmetric] length_append by linarith
  show ?thesis
    using assms(1) t(2) unfolding t(1) displays_def om
    by (simp add: sh del: length_take_last)
qed

lemma displays_fill_head:
  assumes "displays cap b h" "length h < cap div 2" "length chunk \<le> cap div 2 - length h"
  shows "displays cap (b\<lparr>head_bytes := sat_add (head_bytes b) (length chunk), head := head b @ [chunk]\<rparr>)
    (h @ chunk)"
  using assms shown_push_head[of h chunk cap]
  by (auto simp: displays_def sat_add_def USIZE_MAX_def)

lemma displays_push:
  assumes "displays cap b h"
  shows "displays cap (push_chunk chunk b) (h @ chunk)"
proof -
  have hb: "head_bytes b = min (length h) (cap div 2)" "head_budget b = cap div 2" "max_bytes b = cap"
    using assms by (auto simp: displays_def shown_head_def)
  consider (zero) "cap = 0" | (full) "cap \<noteq> 0" "cap div 2 \<le> length h"
    | (fits) "cap \<noteq> 0" "length h < cap div 2" "length chunk \<le> cap div 2 - length h"
    | (split) "cap \<noteq> 0" "length h < cap div 2" "cap div 2 - length h < length chunk" by linarith
  then show ?thesis
  proof cases
    case zero
    with assms show ?thesis
      by (auto simp: push_chunk_def displays_def shown_head_def shown_tail_def sat_add_min)
  next
    case full
    with hb displays_push_tail[OF assms full(2)] show ?thesis by (simp add: push_chunk_def)
  next
    case fits
    with hb displays_fill_head[OF assms fits(2,3)] show ?thesis by (simp add: push_chunk_def)
  next
    case split
    define r where "r = cap div 2 - length h"
    let ?b = "b\<lparr>head_bytes := sat_add (head_bytes b) (length (take r chunk)), head := head b @ [take r chunk]\<rparr>"
    have "displays cap ?b (h @ take r chunk)"
      using displays_fill_head[OF assms split(2), of "take r chunk"] split r_def by simp
    from displays_push_tail[OF this, of "drop r chunk"] split
    have "displays cap (push_to_tail (drop r chunk) ?b) (h @ chunk)" by (simp add: r_def)
    moreover have "push_chunk chunk b = push_to_tail (drop r chunk) ?b"
      using split hb by (auto simp: push_chunk_def r_def Let_def)
    ultimately show ?thesis by simp
  qed
qed

lemma displays_drain: "displays cap b h \<Longrightarrow> displays cap (snd (drain_chunks b)) []"
  by (simp add: displays_def drain_chunks_def shown_head_def shown_tail_def take_last_def)

interpretation output_buffer: simulation buffer_step output_step "displays cap" for cap
proof
  fix b :: "'b head_tail_buffer" and h i
  assume "displays cap b h"
  then show "displays cap (buffer_step b i) (output_step h i)"
    by (cases i) (auto intro: displays_push displays_drain)
qed

lemma shown_length:
  "length (shown_head cap h) + length (shown_tail cap h) = min cap (length h)"
proof -
  have "q \<le> c \<Longrightarrow> min n q + min (c - q) (n - q) = min c n" for q c n :: nat
    by linarith
  from this[of "cap div 2" cap "length h"] show ?thesis
    by (simp add: shown_head_def shown_tail_def min.commute)
qed

lemma displays_length:
  assumes "displays cap b h"
  shows "length (to_bytes b) = min cap (length h)" "retained_bytes b = length (to_bytes b)"
    and "omitted_bytes b = min USIZE_MAX (length h - length (to_bytes b))"
proof -
  have bytes: "to_bytes b = shown_head cap h @ shown_tail cap h"
    using assms by (simp add: displays_def to_bytes_def)
  then show len: "length (to_bytes b) = min cap (length h)" using shown_length[of cap h] by simp
  have "cap \<le> USIZE_MAX" using assms by (simp add: displays_def)
  with assms len bytes show "retained_bytes b = length (to_bytes b)"
    by (simp add: displays_def retained_bytes_def sat_add_exact)
  show "omitted_bytes b = min USIZE_MAX (length h - length (to_bytes b))"
    using assms bytes by (simp add: displays_def del: length_take_last)
qed

text \<open>
  C4. Whatever was pushed and drained, in whatever chunks, the buffer shows the first
  \<open>max_bytes / 2\<close> bytes of the output since the last drain followed by the last bytes of the
  rest, as many as the budget leaves; it never retains more than \<open>max_bytes\<close>, shows an output
  that fits unchanged, and counts every other byte as omitted (up to the largest \<open>usize\<close>).
\<close>

theorem head_tail_buffer_shows_ends:
  fixes cap :: nat and ops :: "'b buffer_op list"
  assumes "cap \<le> USIZE_MAX" "b = foldl buffer_step (new_buffer cap) ops" "h = foldl output_step [] ops"
  shows "to_bytes b = take (cap div 2) h @ take_last (cap - cap div 2) (drop (cap div 2) h)
    \<and> concat (snapshot_chunks b) = to_bytes b
    \<and> length (to_bytes b) = min cap (length h) \<and> retained_bytes b = length (to_bytes b)
    \<and> omitted_bytes b = min USIZE_MAX (length h - length (to_bytes b))"
proof -
  have D: "displays cap b h"
    using output_buffer.run_rel[OF displays_new[OF assms(1)], of ops] unfolding assms(2,3) .
  have "to_bytes b = shown_head cap h @ shown_tail cap h"
    using D by (simp add: displays_def to_bytes_def)
  moreover have "concat (snapshot_chunks b) = to_bytes b"
    by (simp add: to_bytes_def snapshot_chunks_def)
  ultimately show ?thesis
    using displays_length[OF D] unfolding shown_head_def shown_tail_def by blast
qed

theorem head_tail_buffer_shows_ends_witness:
  "to_bytes (foldl buffer_step (new_buffer 4) [Push [9::nat], Drain, Push [1, 2, 3], Push [4, 5], Push [6]])
     = [1, 2, 5, 6]
   \<and> omitted_bytes (foldl buffer_step (new_buffer 4) [Push [9::nat], Drain, Push [1, 2, 3], Push [4, 5], Push [6]])
     = 2"
proof -
  let ?ops = "[Push [9::nat], Drain, Push [1, 2, 3], Push [4, 5], Push [6]]"
  have "(4::nat) \<le> USIZE_MAX" by (simp add: USIZE_MAX_def)
  from head_tail_buffer_shows_ends[OF this refl refl, of ?ops] show ?thesis
    by (simp add: take_last_def USIZE_MAX_def)
qed

end
