(* ===== verification/Protocol_Models.thy ===== *)
theory Protocol_Models
  imports Rust_Prelude
begin

text \<open>
  The data of \<open>protocol/src/models.rs\<close> that the session components exchange: messages, tool
  calls and their outputs, with the conversions of a tool output to text. JSON values are trees;
  a JSON number is kept as its text, and an object is the list of its entries in the order of
  the map.
\<close>

section \<open>JSON\<close>

datatype json =
    JNull
  | JBool bool
  | JNumber rstr
  | JString rstr
  | JArray "json list"
  | JObject "(rstr \<times> json) list"

fun json_get :: "rstr \<Rightarrow> json \<Rightarrow> json option" where
  "json_get k (JObject entries) = map_of entries k"
| "json_get k _ = None"

fun json_as_bool :: "json \<Rightarrow> bool option" where
  "json_as_bool (JBool b) = Some b"
| "json_as_bool _ = None"

fun json_as_str :: "json \<Rightarrow> rstr option" where
  "json_as_str (JString s) = Some s"
| "json_as_str _ = None"

section \<open>Messages and tool calls\<close>

datatype image_detail = Auto | Low | High | Original

datatype content_item =
    InputText rstr
  | InputImage rstr "image_detail option"
  | OutputText rstr

datatype message_phase = Commentary | FinalAnswer

datatype reasoning_summary = SummaryText rstr

datatype reasoning_content = ReasoningText rstr | ReasoningPlainText rstr

datatype local_shell_status = Completed | InProgress | Incomplete

record local_shell_exec_action =
  command :: "rstr list"
  timeout_ms :: "nat option"
  working_directory :: "rstr option"
  env :: "(rstr \<times> rstr) list option"
  user :: "rstr option"

datatype web_search_action =
    Search "rstr option" "rstr list option"
  | OpenPage "rstr option"
  | FindInPage "rstr option" "rstr option"
  | OtherSearchAction

datatype output_content_item =
    OutputItemText rstr
  | OutputItemImage rstr "image_detail option"
  | OutputItemEncrypted rstr

datatype function_call_output_body =
    Text rstr
  | ContentItems "output_content_item list"

record function_call_output_payload =
  body :: function_call_output_body
  success :: "bool option"

text \<open>The fields of each variant are in the order of the source.\<close>

datatype response_item =
    Message "rstr option" rstr "content_item list" "message_phase option"
  | Reasoning rstr "reasoning_summary list" "reasoning_content list option" "rstr option"
  | LocalShellCall "rstr option" "rstr option" local_shell_status local_shell_exec_action
  | FunctionCall "rstr option" rstr "rstr option" rstr rstr
  | ToolSearchCall "rstr option" "rstr option" "rstr option" rstr json
  | FunctionCallOutput rstr function_call_output_payload
  | CustomToolCall "rstr option" "rstr option" rstr rstr rstr
  | CustomToolCallOutput rstr "rstr option" function_call_output_payload
  | ToolSearchOutput "rstr option" rstr rstr "json list"
  | WebSearchCall "rstr option" "rstr option" "web_search_action option"
  | ImageGenerationCall rstr rstr "rstr option" rstr
  | Compaction rstr
  | CompactionTrigger
  | ContextCompaction "rstr option"
  | Other

section \<open>Tool output as text\<close>

definition function_call_output_content_items_to_text :: "output_content_item list \<Rightarrow> rstr option" where
  "function_call_output_content_items_to_text items =
     (let text_segments = List.map_filter
            (\<lambda>item. case item of
                OutputItemText text \<Rightarrow> if trim text \<noteq> [] then Some text else None
              | OutputItemImage _ _ \<Rightarrow> None
              | OutputItemEncrypted _ \<Rightarrow> None) items
      in if text_segments = [] then None else Some (join [LF] text_segments))"

fun body_to_text :: "function_call_output_body \<Rightarrow> rstr option" where
  "body_to_text (Text t) = Some t"
| "body_to_text (ContentItems items) = function_call_output_content_items_to_text items"

definition payload_from_text :: "rstr \<Rightarrow> function_call_output_payload" where
  "payload_from_text t = \<lparr>body = Text t, success = None\<rparr>"

fun is_user_message :: "response_item \<Rightarrow> bool" where
  "is_user_message (Message _ role _ _) \<longleftrightarrow> role = lit ''user''"
| "is_user_message _ \<longleftrightarrow> False"

end
