(* ===== verification/History_Normalize.thy ===== *)
theory History_Normalize
  imports Protocol_Models
begin

text \<open>
  \<open>core/src/context_manager/normalize.rs\<close>: repairing a conversation before it is sent, so that
  every tool call has an output and every output a call, and removing the counterpart of a
  removed item. \<open>error_or_panic\<close> panics in a debug build; the flag \<open>debug\<close> chooses the build
  and a panic is \<open>None\<close>.
\<close>

section \<open>Missing outputs\<close>

definition aborted :: function_call_output_payload where
  "aborted = payload_from_text (lit ''aborted'')"

fun is_function_output_for :: "rstr \<Rightarrow> response_item \<Rightarrow> bool" where
  "is_function_output_for cid (FunctionCallOutput existing _) \<longleftrightarrow> existing = cid"
| "is_function_output_for cid _ \<longleftrightarrow> False"

fun is_search_output_for :: "rstr \<Rightarrow> response_item \<Rightarrow> bool" where
  "is_search_output_for cid (ToolSearchOutput (Some existing) _ _ _) \<longleftrightarrow> existing = cid"
| "is_search_output_for cid _ \<longleftrightarrow> False"

fun is_custom_output_for :: "rstr \<Rightarrow> response_item \<Rightarrow> bool" where
  "is_custom_output_for cid (CustomToolCallOutput existing _ _) \<longleftrightarrow> existing = cid"
| "is_custom_output_for cid _ \<longleftrightarrow> False"

text \<open>The output to insert for one item, with a flag for the calls reported by \<open>error_or_panic\<close>.\<close>

fun missing_output :: "response_item list \<Rightarrow> response_item \<Rightarrow> (bool \<times> response_item) option" where
  "missing_output items (FunctionCall _ _ _ _ cid) =
     (if list_ex (is_function_output_for cid) items then None
      else Some (False, FunctionCallOutput cid aborted))"
| "missing_output items (ToolSearchCall _ (Some cid) _ _ _) =
     (if list_ex (is_search_output_for cid) items then None
      else Some (False, ToolSearchOutput (Some cid) (lit ''completed'') (lit ''client'') []))"
| "missing_output items (CustomToolCall _ _ cid _ _) =
     (if list_ex (is_custom_output_for cid) items then None
      else Some (True, CustomToolCallOutput cid None aborted))"
| "missing_output items (LocalShellCall _ (Some cid) _ _) =
     (if list_ex (is_function_output_for cid) items then None
      else Some (True, FunctionCallOutput cid aborted))"
| "missing_output items _ = None"

fun missing_outputs :: "response_item list \<Rightarrow> nat \<Rightarrow> response_item list \<Rightarrow> (nat \<times> bool \<times> response_item) list" where
  "missing_outputs items idx [] = []"
| "missing_outputs items idx (item # rest) =
     (case missing_output items item of
        None \<Rightarrow> missing_outputs items (Suc idx) rest
      | Some m \<Rightarrow> (idx, m) # missing_outputs items (Suc idx) rest)"

definition insert_outputs ::
  "(nat \<times> bool \<times> response_item) list \<Rightarrow> response_item list \<Rightarrow> response_item list option" where
  "insert_outputs missing items =
     foldl (\<lambda>acc (idx, _, out). Option.bind acc (vec_insert (idx + 1) out)) (Some items) (rev missing)"

definition ensure_call_outputs_present :: "bool \<Rightarrow> response_item list \<Rightarrow> response_item list option" where
  "ensure_call_outputs_present debug items =
     (let missing = missing_outputs items 0 items in
      if debug \<and> list_ex (\<lambda>(_, reported, _). reported) missing then None
      else insert_outputs missing items)"

section \<open>Orphan outputs\<close>

definition HARNESS_NOTE_CALL_PREFIX :: rstr where
  "HARNESS_NOTE_CALL_PREFIX = lit ''harness_''"

fun function_call_id :: "response_item \<Rightarrow> rstr option" where
  "function_call_id (FunctionCall _ _ _ _ cid) = Some cid" | "function_call_id _ = None"

fun tool_search_call_id :: "response_item \<Rightarrow> rstr option" where
  "tool_search_call_id (ToolSearchCall _ cid _ _ _) = cid" | "tool_search_call_id _ = None"

fun local_shell_call_id :: "response_item \<Rightarrow> rstr option" where
  "local_shell_call_id (LocalShellCall _ cid _ _) = cid" | "local_shell_call_id _ = None"

fun custom_tool_call_id :: "response_item \<Rightarrow> rstr option" where
  "custom_tool_call_id (CustomToolCall _ _ cid _ _) = Some cid" | "custom_tool_call_id _ = None"

abbreviation call_ids :: "(response_item \<Rightarrow> rstr option) \<Rightarrow> response_item list \<Rightarrow> rstr list" where
  "call_ids f items \<equiv> List.map_filter f items"

text \<open>The predicate of \<open>retain\<close>; every \<open>False\<close> is also reported by \<open>error_or_panic\<close>.\<close>

fun retain_item :: "response_item list \<Rightarrow> response_item \<Rightarrow> bool" where
  "retain_item items (FunctionCallOutput cid _) \<longleftrightarrow>
     starts_with HARNESS_NOTE_CALL_PREFIX cid
     \<or> cid \<in> set (call_ids function_call_id items) \<or> cid \<in> set (call_ids local_shell_call_id items)"
| "retain_item items (CustomToolCallOutput cid _ _) \<longleftrightarrow> cid \<in> set (call_ids custom_tool_call_id items)"
| "retain_item items (ToolSearchOutput cid _ execution _) \<longleftrightarrow>
     execution = lit ''server''
     \<or> (case cid of Some i \<Rightarrow> i \<in> set (call_ids tool_search_call_id items) | None \<Rightarrow> True)"
| "retain_item items _ \<longleftrightarrow> True"

definition remove_orphan_outputs :: "bool \<Rightarrow> response_item list \<Rightarrow> response_item list option" where
  "remove_orphan_outputs debug items =
     (if debug \<and> \<not> list_all (retain_item items) items then None
      else Some (filter (retain_item items) items))"

section \<open>Counterparts\<close>

fun remove_first_matching :: "(response_item \<Rightarrow> bool) \<Rightarrow> response_item list \<Rightarrow> response_item list" where
  "remove_first_matching P [] = []"
| "remove_first_matching P (x # xs) = (if P x then xs else x # remove_first_matching P xs)"

fun remove_corresponding_for :: "response_item list \<Rightarrow> response_item \<Rightarrow> response_item list" where
  "remove_corresponding_for items (FunctionCall _ _ _ _ cid) =
     remove_first_matching (is_function_output_for cid) items"
| "remove_corresponding_for items (FunctionCallOutput cid _) =
     (if list_ex (\<lambda>i. function_call_id i = Some cid) items
      then remove_first_matching (\<lambda>i. function_call_id i = Some cid) items
      else remove_first_matching (\<lambda>i. local_shell_call_id i = Some cid) items)"
| "remove_corresponding_for items (ToolSearchCall _ (Some cid) _ _ _) =
     remove_first_matching (is_search_output_for cid) items"
| "remove_corresponding_for items (ToolSearchOutput (Some cid) _ _ _) =
     remove_first_matching (\<lambda>i. tool_search_call_id i = Some cid) items"
| "remove_corresponding_for items (CustomToolCall _ _ cid _ _) =
     remove_first_matching (is_custom_output_for cid) items"
| "remove_corresponding_for items (CustomToolCallOutput cid _ _) =
     remove_first_matching (\<lambda>i. custom_tool_call_id i = Some cid) items"
| "remove_corresponding_for items (LocalShellCall _ (Some cid) _ _) =
     remove_first_matching (is_function_output_for cid) items"
| "remove_corresponding_for items _ = items"

section \<open>Images\<close>

datatype input_modality = TextModality | ImageModality

definition IMAGE_CONTENT_OMITTED_PLACEHOLDER :: rstr where
  "IMAGE_CONTENT_OMITTED_PLACEHOLDER = lit ''image content omitted because you do not support image input''"

fun strip_content :: "content_item \<Rightarrow> content_item" where
  "strip_content (InputImage _ _) = InputText IMAGE_CONTENT_OMITTED_PLACEHOLDER"
| "strip_content c = c"

fun strip_output_content :: "output_content_item \<Rightarrow> output_content_item" where
  "strip_output_content (OutputItemImage _ _) = OutputItemText IMAGE_CONTENT_OMITTED_PLACEHOLDER"
| "strip_output_content c = c"

definition strip_payload :: "function_call_output_payload \<Rightarrow> function_call_output_payload" where
  "strip_payload output =
     (case body output of
        ContentItems items \<Rightarrow> output\<lparr>body := ContentItems (map strip_output_content items)\<rparr>
      | Text _ \<Rightarrow> output)"

fun strip_item :: "response_item \<Rightarrow> response_item" where
  "strip_item (Message cid role content phase) = Message cid role (map strip_content content) phase"
| "strip_item (FunctionCallOutput cid output) = FunctionCallOutput cid (strip_payload output)"
| "strip_item (CustomToolCallOutput cid name output) = CustomToolCallOutput cid name (strip_payload output)"
| "strip_item (ImageGenerationCall cid status prompt result) = ImageGenerationCall cid status prompt []"
| "strip_item item = item"

definition strip_images_when_unsupported :: "input_modality list \<Rightarrow> response_item list \<Rightarrow> response_item list" where
  "strip_images_when_unsupported modalities items =
     (if ImageModality \<in> set modalities then items else map strip_item items)"

definition normalize_items :: "bool \<Rightarrow> input_modality list \<Rightarrow> response_item list \<Rightarrow> response_item list option" where
  "normalize_items debug modalities items =
     Option.bind (ensure_call_outputs_present debug items) (\<lambda>items.
     Option.bind (remove_orphan_outputs debug items) (\<lambda>items.
       Some (strip_images_when_unsupported modalities items)))"

section \<open>Calls and outputs by key\<close>

text \<open>The pairing of the source: a shell call is answered by a function output.\<close>

datatype pair_key = FunctionKey rstr | SearchKey rstr | CustomKey rstr

fun call_key :: "response_item \<Rightarrow> pair_key option" where
  "call_key (FunctionCall _ _ _ _ cid) = Some (FunctionKey cid)"
| "call_key (LocalShellCall _ cid _ _) = map_option FunctionKey cid"
| "call_key (ToolSearchCall _ cid _ _ _) = map_option SearchKey cid"
| "call_key (CustomToolCall _ _ cid _ _) = Some (CustomKey cid)"
| "call_key _ = None"

fun output_key :: "response_item \<Rightarrow> pair_key option" where
  "output_key (FunctionCallOutput cid _) = Some (FunctionKey cid)"
| "output_key (ToolSearchOutput cid _ _ _) = map_option SearchKey cid"
| "output_key (CustomToolCallOutput cid _ _) = Some (CustomKey cid)"
| "output_key _ = None"

text \<open>Outputs the code keeps without a call: harness notes and searches run by the server.\<close>

fun exempt :: "response_item \<Rightarrow> bool" where
  "exempt (FunctionCallOutput cid _) \<longleftrightarrow> starts_with HARNESS_NOTE_CALL_PREFIX cid"
| "exempt (ToolSearchOutput _ _ execution _) \<longleftrightarrow> execution = lit ''server''"
| "exempt _ \<longleftrightarrow> False"

definition call_keys :: "response_item list \<Rightarrow> pair_key list" where
  "call_keys items = List.map_filter call_key items"

definition output_keys :: "response_item list \<Rightarrow> pair_key list" where
  "output_keys items = List.map_filter output_key items"

definition calls_answered :: "response_item list \<Rightarrow> bool" where
  "calls_answered items \<longleftrightarrow> set (call_keys items) \<subseteq> set (output_keys items)"

definition outputs_called :: "response_item list \<Rightarrow> bool" where
  "outputs_called items \<longleftrightarrow>
     list_all (\<lambda>i. case output_key i of Some k \<Rightarrow> exempt i \<or> k \<in> set (call_keys items) | None \<Rightarrow> True) items"

lemma set_call_keys: "k \<in> set (call_keys items) \<longleftrightarrow> (\<exists>i \<in> set items. call_key i = Some k)"
  by (force simp: call_keys_def List.map_filter_def)

lemma set_output_keys: "k \<in> set (output_keys items) \<longleftrightarrow> (\<exists>i \<in> set items. output_key i = Some k)"
  by (force simp: output_keys_def List.map_filter_def)

lemma output_for_iff:
  "is_function_output_for cid i \<longleftrightarrow> output_key i = Some (FunctionKey cid)"
  "is_search_output_for cid i \<longleftrightarrow> output_key i = Some (SearchKey cid)"
  "is_custom_output_for cid i \<longleftrightarrow> output_key i = Some (CustomKey cid)"
  by (cases i; auto split: option.splits elim: is_search_output_for.elims)+


lemma call_id_iff:
  "(function_call_id i = Some cid \<or> local_shell_call_id i = Some cid) \<longleftrightarrow> call_key i = Some (FunctionKey cid)"
  "tool_search_call_id i = Some cid \<longleftrightarrow> call_key i = Some (SearchKey cid)"
  "custom_tool_call_id i = Some cid \<longleftrightarrow> call_key i = Some (CustomKey cid)"
  by (cases i; auto)+

lemma call_not_output: "call_key i = Some k \<Longrightarrow> output_key i = None"
  by (cases i) auto

lemma in_call_ids: "cid \<in> set (call_ids f items) \<longleftrightarrow> (\<exists>i \<in> set items. f i = Some cid)"
  by (force simp: List.map_filter_def)

section \<open>What normalisation establishes\<close>

lemma missing_output_None:
  "missing_output items i = None \<longleftrightarrow> (\<forall>k. call_key i = Some k \<longrightarrow> k \<in> set (output_keys items))"
  by (cases "(items, i)" rule: missing_output.cases)
     (auto simp: set_output_keys list_ex_iff output_for_iff)

lemma missing_output_Some:
  assumes "missing_output items i = Some (r, out)"
  shows "output_key out = call_key i" "call_key out = None"
  using assms by (cases "(items, i)" rule: missing_output.cases; auto split: if_splits)+

definition with_output :: "response_item list \<Rightarrow> response_item \<Rightarrow> response_item list" where
  "with_output items i = i # (case missing_output items i of None \<Rightarrow> [] | Some (r, out) \<Rightarrow> [out])"

definition ensured :: "response_item list \<Rightarrow> response_item list" where
  "ensured items = concat (map (with_output items) items)"

lemma with_output_simps:
  "missing_output items i = None \<Longrightarrow> with_output items i = [i]"
  "missing_output items i = Some (r, out) \<Longrightarrow> with_output items i = [i, out]"
  by (simp_all add: with_output_def)

lemma set_with_output:
  "x \<in> set (with_output items i) \<longleftrightarrow> x = i \<or> (\<exists>r. missing_output items i = Some (r, x))"
  by (cases "missing_output items i") (auto simp: with_output_def)

lemma insert_outputs_Cons:
  "insert_outputs ((idx, r, out) # ms) items = Option.bind (insert_outputs ms items) (vec_insert (idx + 1) out)"
  by (simp add: insert_outputs_def)

lemma insert_outputs_at:
  "insert_outputs (missing_outputs items (length pre) suf) (pre @ suf) =
     Some (pre @ concat (map (with_output items) suf))"
proof (induction suf arbitrary: pre)
  case (Cons i suf)
  note IH = Cons.IH[of "pre @ [i]", simplified]
  show ?case
  proof (cases "missing_output items i")
    case None
    with IH show ?thesis by (simp add: with_output_simps)
  next
    case (Some m)
    with IH show ?thesis
      by (cases m) (simp add: with_output_simps insert_outputs_Cons vec_insert_def)
  qed
qed (simp add: insert_outputs_def)

lemma ensure_release: "ensure_call_outputs_present False items = Some (ensured items)"
  using insert_outputs_at[of items "[]" items] by (simp add: ensure_call_outputs_present_def ensured_def)

lemma set_ensured: "x \<in> set (ensured items) \<longleftrightarrow>
    x \<in> set items \<or> (\<exists>i \<in> set items. \<exists>r. missing_output items i = Some (r, x))"
  by (auto simp: ensured_def set_with_output)

lemma call_keys_ensured: "set (call_keys (ensured items)) = set (call_keys items)"
  by (intro set_eqI) (metis missing_output_Some(2) option.distinct(1) set_call_keys set_ensured)

lemma calls_answered_ensured: "calls_answered (ensured items)"
proof -
  have "k \<in> set (output_keys (ensured items))" if "i \<in> set items" "call_key i = Some k" for i k
  proof (cases "missing_output items i")
    case None
    then have "k \<in> set (output_keys items)" using that(2) by (simp add: missing_output_None)
    then show ?thesis by (metis set_ensured set_output_keys)
  next
    case (Some m)
    then obtain r out where "missing_output items i = Some (r, out)" by (cases m) auto
    then show ?thesis using that by (metis missing_output_Some(1) set_ensured set_output_keys)
  qed
  then show ?thesis
    unfolding calls_answered_def call_keys_ensured by (metis set_call_keys subsetI)
qed

lemma ensured_id:
  assumes "calls_answered items"
  shows "ensured items = items"
proof -
  have "with_output items i = [i]" if "i \<in> set items" for i
    using assms that unfolding calls_answered_def
    by (intro with_output_simps) (metis missing_output_None set_call_keys subsetD)
  then have "map (with_output items) items = map (\<lambda>i. [i]) items" by (intro map_cong) auto
  then have "ensured items = concat (map (\<lambda>i. [i]) items)" unfolding ensured_def by (rule arg_cong)
  then show ?thesis by simp
qed

lemma retain_item_iff:
  "retain_item items i \<longleftrightarrow> (\<forall>k. output_key i = Some k \<longrightarrow> exempt i \<or> k \<in> set (call_keys items))"
  by (cases i) (auto simp: in_call_ids set_call_keys call_id_iff[symmetric] split: option.splits)

lemma outputs_called_iff: "outputs_called items \<longleftrightarrow> (\<forall>i \<in> set items. retain_item items i)"
  by (auto simp: outputs_called_def retain_item_iff list_all_iff split: option.splits)

lemma retain_call: "call_key i = Some k \<Longrightarrow> retain_item items i"
  using call_not_output[of i] by (simp add: retain_item_iff)

lemma call_keys_retained: "set (call_keys (filter (retain_item xs) items)) = set (call_keys items)"
proof (intro set_eqI)
  fix k
  have "(\<exists>i \<in> set (filter (retain_item xs) items). call_key i = Some k) \<longleftrightarrow> (\<exists>i \<in> set items. call_key i = Some k)"
    by (auto dest: retain_call)
  then show "k \<in> set (call_keys (filter (retain_item xs) items)) \<longleftrightarrow> k \<in> set (call_keys items)"
    by (simp add: set_call_keys)
qed

lemma calls_answered_retained:
  assumes "calls_answered items"
  shows "calls_answered (filter (retain_item items) items)"
  unfolding calls_answered_def call_keys_retained
proof
  fix k assume k: "k \<in> set (call_keys items)"
  then obtain out where "out \<in> set items" "output_key out = Some k"
    using assms unfolding calls_answered_def by (metis set_output_keys subsetD)
  with k show "k \<in> set (output_keys (filter (retain_item items) items))"
    by (auto simp: set_output_keys retain_item_iff intro!: bexI[of _ out])
qed

lemma outputs_called_retained: "outputs_called (filter (retain_item items) items)"
proof -
  have "retain_item (filter (retain_item items) items) i = retain_item items i" for i
    by (simp add: retain_item_iff[of _ i] call_keys_retained)
  then show ?thesis by (simp add: outputs_called_iff)
qed

lemma strip_keys [simp]:
  "call_key (strip_item i) = call_key i" "output_key (strip_item i) = output_key i"
  "exempt (strip_item i) = exempt i"
  by (cases i; simp)+

lemma strip_lists [simp]:
  "call_keys (map strip_item items) = call_keys items" "output_keys (map strip_item items) = output_keys items"
  by (simp_all add: call_keys_def output_keys_def List.map_filter_def comp_def filter_map)

lemma strip_answered:
  "calls_answered (map strip_item items) = calls_answered items"
  "outputs_called (map strip_item items) = outputs_called items"
  by (simp_all add: calls_answered_def outputs_called_iff retain_item_iff)

lemma strip_payload_idem [simp]: "strip_payload (strip_payload p) = strip_payload p"
proof -
  have "strip_output_content (strip_output_content c) = strip_output_content c" for c by (cases c) auto
  then show ?thesis by (auto simp: strip_payload_def split: function_call_output_body.splits)
qed

lemma strip_item_idem [simp]: "strip_item (strip_item i) = strip_item i"
proof -
  have "strip_content (strip_content c) = strip_content c" for c by (cases c) auto
  then show ?thesis by (cases i) auto
qed


fun shows_image :: "response_item \<Rightarrow> bool" where
  "shows_image (Message _ _ content _) \<longleftrightarrow> list_ex (\<lambda>c. case c of InputImage _ _ \<Rightarrow> True | _ \<Rightarrow> False) content"
| "shows_image (FunctionCallOutput _ output) \<longleftrightarrow>
     (case body output of ContentItems cs \<Rightarrow>
        list_ex (\<lambda>c. case c of OutputItemImage _ _ \<Rightarrow> True | _ \<Rightarrow> False) cs | Text _ \<Rightarrow> False)"
| "shows_image (CustomToolCallOutput _ _ output) \<longleftrightarrow>
     (case body output of ContentItems cs \<Rightarrow>
        list_ex (\<lambda>c. case c of OutputItemImage _ _ \<Rightarrow> True | _ \<Rightarrow> False) cs | Text _ \<Rightarrow> False)"
| "shows_image (ImageGenerationCall _ _ _ result) \<longleftrightarrow> result \<noteq> []"
| "shows_image _ \<longleftrightarrow> False"

lemma strip_content_no_image:
  "\<not> list_ex (\<lambda>c. case c of InputImage _ _ \<Rightarrow> True | _ \<Rightarrow> False) (map strip_content cs)"
proof (induction cs)
  case (Cons c cs)
  then show ?case by (cases c) auto
qed simp

lemma strip_output_no_image:
  "\<not> list_ex (\<lambda>c. case c of OutputItemImage _ _ \<Rightarrow> True | _ \<Rightarrow> False) (map strip_output_content cs)"
proof (induction cs)
  case (Cons c cs)
  then show ?case by (cases c) auto
qed simp

lemma strip_no_image: "\<not> shows_image (strip_item i)"
  using strip_content_no_image strip_output_no_image
  by (cases i) (auto simp: strip_payload_def split: function_call_output_body.splits)

definition visible :: "input_modality list \<Rightarrow> response_item \<Rightarrow> response_item" where
  "visible modalities i = (if ImageModality \<in> set modalities then i else strip_item i)"

lemma strip_images_visible: "strip_images_when_unsupported modalities items = map (visible modalities) items"
  by (simp add: strip_images_when_unsupported_def visible_def[abs_def])

lemma visible_answered:
  "calls_answered (map (visible m) items) = calls_answered items"
  "outputs_called (map (visible m) items) = outputs_called items"
  using strip_answered by (cases "ImageModality \<in> set m"; simp add: visible_def[abs_def])+

definition normalized :: "input_modality list \<Rightarrow> response_item list \<Rightarrow> response_item list" where
  "normalized m items = map (visible m) (filter (retain_item (ensured items)) (ensured items))"

lemma normalize_release: "normalize_items False m items = Some (normalized m items)"
  by (simp add: normalize_items_def ensure_release remove_orphan_outputs_def strip_images_visible
      normalized_def)

lemma normalized_pairs: "calls_answered (normalized m items)" "outputs_called (normalized m items)"
  using calls_answered_retained[OF calls_answered_ensured, of items] outputs_called_retained[of "ensured items"]
  by (simp_all add: normalized_def visible_answered)

lemma normalized_fixed:
  assumes "calls_answered items" "outputs_called items"
  shows "normalized m items = map (visible m) items"
proof -
  have "filter (retain_item items) items = items" using assms(2) by (simp add: outputs_called_iff)
  then show ?thesis using ensured_id[OF assms(1)] by (simp add: normalized_def)
qed

text \<open>
  The repaired history, item by item: an orphan output is left out, and a call without an output
  is followed by one that says it was aborted.
\<close>

fun aborted_output :: "pair_key \<Rightarrow> response_item" where
  "aborted_output (FunctionKey cid) = FunctionCallOutput cid aborted"
| "aborted_output (SearchKey cid) = ToolSearchOutput (Some cid) (lit ''completed'') (lit ''client'') []"
| "aborted_output (CustomKey cid) = CustomToolCallOutput cid None aborted"

definition orphan_output :: "response_item list \<Rightarrow> response_item \<Rightarrow> bool" where
  "orphan_output items i =
     (case output_key i of Some k \<Rightarrow> \<not> exempt i \<and> k \<notin> set (call_keys items) | None \<Rightarrow> False)"

definition answer_if_missing :: "response_item list \<Rightarrow> response_item \<Rightarrow> response_item list" where
  "answer_if_missing items i =
     (case call_key i of
        Some k \<Rightarrow> if k \<in> set (output_keys items) then [] else [aborted_output k]
      | None \<Rightarrow> [])"

definition repaired :: "response_item list \<Rightarrow> response_item list" where
  "repaired items =
     concat (map (\<lambda>i. if orphan_output items i then [] else i # answer_if_missing items i) items)"

text \<open>
  An item as it is shown: as it is, or for a model without images with a placeholder for each
  image. The frame of an item is the item without its parts.
\<close>

fun item_parts :: "response_item \<Rightarrow> (content_item + output_content_item) list" where
  "item_parts (Message _ _ content _) = map Inl content"
| "item_parts (FunctionCallOutput _ output) =
     (case body output of ContentItems cs \<Rightarrow> map Inr cs | Text _ \<Rightarrow> [])"
| "item_parts (CustomToolCallOutput _ _ output) =
     (case body output of ContentItems cs \<Rightarrow> map Inr cs | Text _ \<Rightarrow> [])"
| "item_parts _ = []"

definition payload_frame :: "function_call_output_payload \<Rightarrow> function_call_output_payload" where
  "payload_frame output =
     (case body output of ContentItems _ \<Rightarrow> output\<lparr>body := ContentItems []\<rparr> | Text _ \<Rightarrow> output)"

fun item_frame :: "response_item \<Rightarrow> response_item" where
  "item_frame (Message cid role _ phase) = Message cid role [] phase"
| "item_frame (FunctionCallOutput cid output) = FunctionCallOutput cid (payload_frame output)"
| "item_frame (CustomToolCallOutput cid name output) = CustomToolCallOutput cid name (payload_frame output)"
| "item_frame (ImageGenerationCall cid status prompt _) = ImageGenerationCall cid status prompt []"
| "item_frame i = i"

fun without_image :: "content_item + output_content_item \<Rightarrow> content_item + output_content_item" where
  "without_image (Inl (InputImage _ _)) = Inl (InputText IMAGE_CONTENT_OMITTED_PLACEHOLDER)"
| "without_image (Inr (OutputItemImage _ _)) = Inr (OutputItemText IMAGE_CONTENT_OMITTED_PLACEHOLDER)"
| "without_image part = part"

definition shown_as :: "input_modality list \<Rightarrow> response_item \<Rightarrow> response_item \<Rightarrow> bool" where
  "shown_as modalities i j \<longleftrightarrow>
     (if ImageModality \<in> set modalities then j = i
      else item_frame j = item_frame i \<and> item_parts j = map without_image (item_parts i) \<and> \<not> shows_image j)"

lemma missing_output_aborted:
  "missing_output items i = Some (r, out) \<Longrightarrow> \<exists>k. call_key i = Some k \<and> out = aborted_output k"
  by (cases "(items, i)" rule: missing_output.cases) (auto split: if_splits)

lemma with_output_answer: "with_output items i = i # answer_if_missing items i"
proof (cases "missing_output items i")
  case None
  then show ?thesis
    using missing_output_None[of items i]
    by (auto simp: with_output_simps answer_if_missing_def split: option.splits)
next
  case (Some m)
  then obtain r k where "missing_output items i = Some (r, aborted_output k)" "call_key i = Some k"
    using missing_output_aborted by (cases m) fastforce
  then show ?thesis
    using missing_output_None[of items i] by (simp add: with_output_simps answer_if_missing_def)
qed

lemma retain_not_orphan: "retain_item items i \<longleftrightarrow> \<not> orphan_output items i"
  by (auto simp: retain_item_iff orphan_output_def split: option.splits)

lemma retain_ensured: "retain_item (ensured items) i = retain_item items i"
  by (simp add: retain_item_iff call_keys_ensured)

lemma retain_answer:
  assumes "i \<in> set items"
  shows "filter (retain_item items) (answer_if_missing items i) = answer_if_missing items i"
proof -
  have "output_key (aborted_output k) = Some k" for k by (cases k) simp_all
  then show ?thesis
    using assms by (auto simp: answer_if_missing_def retain_item_iff set_call_keys split: option.splits)
qed

lemma retain_only_outputs: "\<not> retain_item items i \<Longrightarrow> answer_if_missing items i = []"
  using call_not_output[of i] by (cases "call_key i") (auto simp: retain_item_iff answer_if_missing_def)

lemma retained_repaired: "filter (retain_item (ensured items)) (ensured items) = repaired items"
proof -
  have "filter (retain_item items) (concat (map (with_output items) xs)) =
      concat (map (\<lambda>i. if orphan_output items i then [] else i # answer_if_missing items i) xs)"
    if "set xs \<subseteq> set items" for xs
    using that
  proof (induction xs)
    case (Cons i xs)
    then show ?case
      using retain_answer[of i items] retain_only_outputs[of items i]
      by (auto simp: with_output_answer retain_not_orphan[abs_def])
  qed simp
  from this[of items] have "filter (retain_item items) (ensured items) = repaired items"
    by (simp add: ensured_def repaired_def)
  then show ?thesis by (simp add: retain_ensured[abs_def])
qed

lemma strip_parts:
  "item_frame (strip_item i) = item_frame i" "item_parts (strip_item i) = map without_image (item_parts i)"
proof -
  have c: "Inl (strip_content c) = without_image (Inl c)" "Inr (strip_output_content d) = without_image (Inr d)"
    for c d by (cases c; cases d; simp)+
  show "item_frame (strip_item i) = item_frame i"
    by (cases i) (simp_all add: strip_payload_def payload_frame_def split: function_call_output_body.splits)
  show "item_parts (strip_item i) = map without_image (item_parts i)"
    by (cases i) (simp_all add: strip_payload_def c split: function_call_output_body.splits)
qed

lemma visible_shown: "shown_as modalities i (visible modalities i)"
  by (simp add: shown_as_def visible_def strip_parts strip_no_image)

text \<open>
  C5. The history sent to the model. In a release build normalisation always returns. The result
  is the history without the outputs whose call is missing, with an output added after each call
  that has none, everything else kept in order; each item is shown as it is or, when images are
  not supported, with a placeholder for each image and no other change. So in the result every
  tool call with a call id has an output, and every output a call but for the harness notes, the
  searches run by the server and search outputs without a call id, which are kept without one
  (the comment of \<open>normalize_history\<close> knows no exception). Normalising again changes nothing.
\<close>

theorem normalized_history:
  "\<exists>out. normalize_items False modalities items = Some out
    \<and> list_all2 (shown_as modalities) (repaired items) out
    \<and> calls_answered out \<and> outputs_called out
    \<and> normalize_items False modalities out = Some out"
proof -
  let ?out = "normalized modalities items"
  have vis: "visible modalities (visible modalities i) = visible modalities i" for i
    by (simp add: visible_def)
  have "map (visible modalities) ?out = ?out"
    by (simp add: normalized_def vis)
  then have again: "normalize_items False modalities ?out = Some ?out"
    using normalized_fixed[OF normalized_pairs] by (simp add: normalize_release)
  have "list_all2 (shown_as modalities) (repaired items) ?out"
    unfolding normalized_def retained_repaired by (simp add: list_all2_conv_all_nth visible_shown)
  then show ?thesis
    using normalized_pairs[of modalities items] again by (simp add: normalize_release)
qed

section \<open>Removing an item with its counterpart\<close>

definition paired :: "response_item list \<Rightarrow> bool" where
  "paired items \<longleftrightarrow> distinct (call_keys items) \<and> distinct (output_keys items)
     \<and> calls_answered items \<and> outputs_called items"

text \<open>The counterpart of an item: the output of a call, the call of an output.\<close>

definition counterpart :: "response_item \<Rightarrow> response_item \<Rightarrow> bool" where
  "counterpart x i \<longleftrightarrow> (call_key x \<noteq> None \<and> output_key i = call_key x)
     \<or> (output_key x \<noteq> None \<and> call_key i = output_key x)"

lemma remove_first_matching_filter:
  assumes "\<And>i j. i < length xs \<Longrightarrow> j < length xs \<Longrightarrow> P (xs ! i) \<Longrightarrow> P (xs ! j) \<Longrightarrow> i = j"
  shows "remove_first_matching P xs = filter (\<lambda>x. \<not> P x) xs"
  using assms
proof (induction xs)
  case (Cons x xs)
  show ?case
  proof (cases "P x")
    case True
    have "\<not> P y" if "y \<in> set xs" for y
      using Cons.prems[of 0] True that by (fastforce simp: in_set_conv_nth)
    with True show ?thesis by (simp add: filter_id_conv)
  next
    case False
    have "remove_first_matching P xs = filter (\<lambda>x. \<not> P x) xs"
      by (rule Cons.IH) (use Cons.prems[of "Suc _" "Suc _"] in auto)
    with False show ?thesis by simp
  qed
qed simp

lemma map_filter_unique:
  assumes "distinct (List.map_filter f xs)" "i < length xs" "j < length xs" "f (xs ! i) = Some k" "f (xs ! j) = Some k"
  shows "i = j"
  using assms
proof (induction xs arbitrary: i j)
  case (Cons x xs)
  have notin: "f x = Some k \<Longrightarrow> l < length xs \<Longrightarrow> f (xs ! l) \<noteq> Some k" for l
    using Cons.prems(1) by (force simp: List.map_filter_def in_set_conv_nth)
  show ?case
    using Cons.prems Cons.IH[of "i - 1" "j - 1"] notin
    by (cases i; cases j) (auto simp: List.map_filter_def split: if_splits)
qed simp

lemma remove_output_filter:
  assumes "distinct (output_keys items)"
  shows "remove_first_matching (\<lambda>i. output_key i = Some k) items = filter (\<lambda>i. output_key i \<noteq> Some k) items"
  using map_filter_unique[OF assms[unfolded output_keys_def]]
  by (intro remove_first_matching_filter) blast

lemma remove_call_filter:
  assumes "distinct (call_keys items)" "\<And>i. i \<in> set items \<Longrightarrow> P i \<longleftrightarrow> call_key i = Some k"
  shows "remove_first_matching P items = filter (\<lambda>i. call_key i \<noteq> Some k) items"
proof -
  have "remove_first_matching P items = filter (\<lambda>i. \<not> P i) items"
    using map_filter_unique[OF assms(1)[unfolded call_keys_def]] assms(2)
    by (intro remove_first_matching_filter) (metis nth_mem)
  also have "\<dots> = filter (\<lambda>i. call_key i \<noteq> Some k) items" using assms(2) by (intro filter_cong) auto
  finally show ?thesis .
qed

lemma same_call:
  assumes "distinct (call_keys items)" "i \<in> set items" "j \<in> set items" "call_key i = Some k" "call_key j = Some k"
  shows "i = j"
  using map_filter_unique[OF assms(1)[unfolded call_keys_def]] assms(2-5) by (metis in_set_conv_nth)

lemma remove_function_call_filter:
  assumes "distinct (call_keys items)"
  shows "remove_corresponding_for items (FunctionCallOutput cid out) =
    filter (\<lambda>i. call_key i \<noteq> Some (FunctionKey cid)) items"
proof (cases "list_ex (\<lambda>i. function_call_id i = Some cid) items")
  case True
  then obtain j where j: "j \<in> set items" "function_call_id j = Some cid" by (auto simp: list_ex_iff)
  have "function_call_id i = Some cid \<longleftrightarrow> call_key i = Some (FunctionKey cid)" if "i \<in> set items" for i
    using same_call[OF assms that j(1)] j(2) call_id_iff(1) by blast
  with remove_call_filter[OF assms this] True show ?thesis by simp
next
  case False
  have "local_shell_call_id i = Some cid \<longleftrightarrow> call_key i = Some (FunctionKey cid)" if "i \<in> set items" for i
    using call_id_iff(1)[of i cid] False that by (auto simp: list_ex_iff)
  with remove_call_filter[OF assms this] False show ?thesis by simp
qed

lemma remove_corresponding_filter:
  assumes "distinct (call_keys items)" "distinct (output_keys items)"
  shows "remove_corresponding_for items x = filter (\<lambda>i. \<not> counterpart x i) items"
proof -
  note rules = remove_output_filter[OF assms(2)] remove_call_filter[OF assms(1) refl]
    remove_function_call_filter[OF assms(1)]
  show ?thesis
    by (cases "(items, x)" rule: remove_corresponding_for.cases)
       (simp_all add: counterpart_def output_for_iff[abs_def] call_id_iff(2,3) rules
          del: remove_corresponding_for.simps(2))
qed

lemma map_filter_subset: "subseq xs ys \<Longrightarrow> distinct (List.map_filter f ys) \<Longrightarrow> distinct (List.map_filter f xs)"
proof -
  assume "subseq xs ys" "distinct (List.map_filter f ys)"
  moreover have "subseq (List.map_filter f xs) (List.map_filter f ys)" if "subseq xs ys"
    using that unfolding List.map_filter_def by (intro subseq_map subseq_filter)
  ultimately show ?thesis by (metis distinct_nthsI subseq_conv_nths)
qed

text \<open>Removing one item and its counterpart, wherever it is.\<close>

lemma paired_remove:
  assumes "paired (xs @ x # ys)"
  shows "paired (filter (\<lambda>i. \<not> counterpart x i) (xs @ ys))"
proof -
  let ?all = "xs @ x # ys" and ?rest = "filter (\<lambda>i. \<not> counterpart x i) (xs @ ys)"
  have P: "distinct (call_keys ?all)" "distinct (output_keys ?all)" "calls_answered ?all" "outputs_called ?all"
    using assms by (simp_all add: paired_def)
  have sub: "subseq ?rest ?all"
    by (rule subseq_order.trans[OF subseq_filter_left], rule list_emb_append_mono) auto
  have dist: "distinct (call_keys ?rest)" "distinct (output_keys ?rest)"
    using map_filter_subset[OF sub] P(1,2) by (simp_all add: call_keys_def output_keys_def)
  have keys: "call_keys ?all = call_keys xs @ call_keys [x] @ call_keys ys"
    "output_keys ?all = output_keys xs @ output_keys [x] @ output_keys ys"
    by (simp_all add: call_keys_def output_keys_def List.map_filter_def)
  have one_call: "call_key i \<noteq> Some k" if "call_key x = Some k" "i \<in> set (xs @ ys)" for i k
  proof
    assume "call_key i = Some k"
    then have "k \<in> set (call_keys xs) \<or> k \<in> set (call_keys ys)" "k \<in> set (call_keys [x])"
      using that by (auto simp: set_call_keys)
    then show False using P(1) unfolding keys by auto
  qed
  have one_output: "output_key i \<noteq> Some k" if "output_key x = Some k" "i \<in> set (xs @ ys)" for i k
  proof
    assume "output_key i = Some k"
    then have "k \<in> set (output_keys xs) \<or> k \<in> set (output_keys ys)" "k \<in> set (output_keys [x])"
      using that by (auto simp: set_output_keys)
    then show False using P(2) unfolding keys by auto
  qed
  have "\<exists>out \<in> set ?rest. output_key out = Some k" if i: "i \<in> set ?rest" "call_key i = Some k" for i k
  proof -
    obtain out where out: "out \<in> set ?all" "output_key out = Some k"
    proof -
      have "k \<in> set (call_keys ?all)" unfolding set_call_keys using i by auto
      then have "k \<in> set (output_keys ?all)" using P(3) unfolding calls_answered_def by (rule rev_subsetD)
      then show ?thesis using that unfolding set_output_keys by blast
    qed
    moreover have "out \<noteq> x" using i out(2) by (auto simp: counterpart_def)
    moreover have "\<not> counterpart x out"
      using out(2) i one_call[of k i] call_not_output[of out] by (auto simp: counterpart_def)
    ultimately show ?thesis by auto
  qed
  moreover have "\<exists>c \<in> set ?rest. call_key c = Some k"
    if i: "i \<in> set ?rest" "output_key i = Some k" "\<not> exempt i" for i k
  proof -
    obtain c where c: "c \<in> set ?all" "call_key c = Some k"
    proof -
      have "retain_item ?all i" using P(4) i(1) unfolding outputs_called_iff by auto
      then have "k \<in> set (call_keys ?all)" using i(2,3) unfolding retain_item_iff by blast
      then show ?thesis using that unfolding set_call_keys by blast
    qed
    moreover have "c \<noteq> x" using i c(2) by (auto simp: counterpart_def)
    moreover have "\<not> counterpart x c"
      using c(2) i one_output[of k i] call_not_output[of c] by (auto simp: counterpart_def)
    ultimately show ?thesis by auto
  qed
  ultimately show ?thesis
    using dist unfolding paired_def calls_answered_def outputs_called_iff retain_item_iff subset_iff
      set_call_keys set_output_keys by blast
qed

end
