(* ===== verification/Text_Truncation.thy ===== *)
theory Text_Truncation
  imports Protocol_Models
begin

text \<open>
  \<open>utils/string/src/truncate.rs\<close>, \<open>utils/output-truncation\<close> and the \<open>TruncationPolicy\<close> of
  the protocol: cutting the middle out of a long text on character boundaries, under a budget
  of bytes or of approximate tokens.
\<close>

section \<open>Budgets\<close>

definition APPROX_BYTES_PER_TOKEN :: nat where "APPROX_BYTES_PER_TOKEN = 4"

definition sat_mul :: "nat \<Rightarrow> nat \<Rightarrow> nat" where
  "sat_mul a b = min (a * b) USIZE_MAX"

definition approx_tokens_from_byte_count :: "nat \<Rightarrow> nat" where
  "approx_tokens_from_byte_count bytes =
     sat_add bytes (APPROX_BYTES_PER_TOKEN - 1) div APPROX_BYTES_PER_TOKEN"

definition approx_token_count :: "rstr \<Rightarrow> nat" where
  "approx_token_count text = sat_add (blen text) (APPROX_BYTES_PER_TOKEN - 1) div APPROX_BYTES_PER_TOKEN"

definition approx_bytes_for_tokens :: "nat \<Rightarrow> nat" where
  "approx_bytes_for_tokens tokens = sat_mul tokens APPROX_BYTES_PER_TOKEN"

datatype truncation_policy = Bytes nat | Tokens nat

fun token_budget :: "truncation_policy \<Rightarrow> nat" where
  "token_budget (Bytes bytes) = approx_tokens_from_byte_count bytes"
| "token_budget (Tokens tokens) = tokens"

fun byte_budget :: "truncation_policy \<Rightarrow> nat" where
  "byte_budget (Bytes bytes) = bytes"
| "byte_budget (Tokens tokens) = approx_bytes_for_tokens tokens"

text \<open>
  Multiplication of a policy by an \<open>f64\<close>. A positive \<open>f64\<close> is a mantissa below \<open>2 ^ 53\<close>
  and an exponent; conversions and products round to the nearest such value, ties to even.
\<close>

fun bit_length :: "nat \<Rightarrow> nat" where
  "bit_length n = (if n = 0 then 0 else Suc (bit_length (n div 2)))"

declare bit_length.simps [simp del]

definition round_f64 :: "nat \<Rightarrow> nat \<times> nat" where
  "round_f64 n =
     (let s = bit_length n - 53 in
      if s = 0 then (n, 0)
      else
        (let q = n div 2 ^ s; r = n mod 2 ^ s; half = 2 ^ (s - 1)
         in (if half < r \<or> r = half \<and> odd q then q + 1 else q, s)))"

text \<open>
  \<open>(n as f64 * multiplier).ceil() as usize\<close> for a multiplier \<open>m / 2 ^ k\<close>.
\<close>

definition mul_f64_ceil :: "nat \<Rightarrow> nat \<Rightarrow> nat \<Rightarrow> nat" where
  "mul_f64_ceil m k n =
     (case round_f64 n of (q, s) \<Rightarrow>
        (case round_f64 (q * m) of (q', s') \<Rightarrow>
           min USIZE_MAX
             (if k \<le> s + s' then q' * 2 ^ (s + s' - k)
              else (q' + 2 ^ (k - (s + s')) - 1) div 2 ^ (k - (s + s')))))"

fun policy_mul :: "nat \<Rightarrow> nat \<Rightarrow> truncation_policy \<Rightarrow> truncation_policy" where
  "policy_mul m k (Bytes bytes) = Bytes (mul_f64_ceil m k bytes)"
| "policy_mul m k (Tokens tokens) = Tokens (mul_f64_ceil m k tokens)"

section \<open>Cutting the middle\<close>

text \<open>Slicing at a byte offset panics inside a character.\<close>

fun split_at_byte :: "nat \<Rightarrow> rstr \<Rightarrow> (rstr \<times> rstr) option" where
  "split_at_byte n s =
     (if n = 0 then Some ([], s)
      else case s of
        [] \<Rightarrow> None
      | c # cs \<Rightarrow>
          if len_utf8 c \<le> n then map_option (apfst ((#) c)) (split_at_byte (n - len_utf8 c) cs)
          else None)"

declare split_at_byte.simps [simp del]

record split_state =
  prefix_end :: nat
  suffix_start :: nat
  removed_chars :: nat
  suffix_started :: bool

fun split_loop :: "nat \<Rightarrow> nat \<Rightarrow> nat \<Rightarrow> rstr \<Rightarrow> split_state \<Rightarrow> split_state" where
  "split_loop beginning_bytes tail_start_target idx [] st = st"
| "split_loop beginning_bytes tail_start_target idx (ch # rest) st =
     (let char_end = idx + len_utf8 ch;
          st = (if char_end \<le> beginning_bytes then st\<lparr>prefix_end := char_end\<rparr>
                else if tail_start_target \<le> idx then
                  (if suffix_started st then st else st\<lparr>suffix_start := idx, suffix_started := True\<rparr>)
                else st\<lparr>removed_chars := sat_add (removed_chars st) 1\<rparr>)
      in split_loop beginning_bytes tail_start_target char_end rest st)"

definition split_string :: "rstr \<Rightarrow> nat \<Rightarrow> nat \<Rightarrow> (nat \<times> rstr \<times> rstr) option" where
  "split_string s beginning_bytes end_bytes =
     (if s = [] then Some (0, [], [])
      else
        (let len = blen s;
             st = split_loop beginning_bytes (len - end_bytes) 0 s
                    \<lparr>prefix_end = 0, suffix_start = len, removed_chars = 0, suffix_started = False\<rparr>;
             start = (if suffix_start st < prefix_end st then prefix_end st else suffix_start st)
         in Option.bind (split_at_byte (prefix_end st) s) (\<lambda>(before, _).
            Option.bind (split_at_byte start s) (\<lambda>(_, after).
              Some (removed_chars st, before, after)))))"

definition split_budget :: "nat \<Rightarrow> nat \<times> nat" where
  "split_budget budget = (let left = budget div 2 in (left, budget - left))"

definition format_truncation_marker :: "bool \<Rightarrow> nat \<Rightarrow> rstr" where
  "format_truncation_marker use_tokens removed_count =
     (if use_tokens then [8230] @ show_nat removed_count @ lit '' tokens truncated'' @ [8230]
      else [8230] @ show_nat removed_count @ lit '' chars truncated'' @ [8230])"

definition removed_units :: "bool \<Rightarrow> nat \<Rightarrow> nat \<Rightarrow> nat" where
  "removed_units use_tokens removed_bytes removed =
     (if use_tokens then approx_tokens_from_byte_count removed_bytes else removed)"

definition truncate_with_byte_estimate :: "rstr \<Rightarrow> nat \<Rightarrow> bool \<Rightarrow> rstr option" where
  "truncate_with_byte_estimate s max_bytes use_tokens =
     (if s = [] then Some []
      else if max_bytes = 0 then
        Some (format_truncation_marker use_tokens (removed_units use_tokens (blen s) (length s)))
      else if blen s \<le> max_bytes then Some s
      else
        (case split_budget max_bytes of (left_budget, right_budget) \<Rightarrow>
           map_option (\<lambda>(removed, left, right).
             left @ format_truncation_marker use_tokens
                      (removed_units use_tokens (blen s - max_bytes) removed) @ right)
             (split_string s left_budget right_budget)))"

definition truncate_middle_chars :: "rstr \<Rightarrow> nat \<Rightarrow> rstr option" where
  "truncate_middle_chars s max_bytes = truncate_with_byte_estimate s max_bytes False"

definition truncate_middle_with_token_budget :: "rstr \<Rightarrow> nat \<Rightarrow> (rstr \<times> nat option) option" where
  "truncate_middle_with_token_budget s max_tokens =
     (if s = [] then Some ([], None)
      else if 0 < max_tokens \<and> blen s \<le> approx_bytes_for_tokens max_tokens then Some (s, None)
      else map_option
        (\<lambda>truncated. if truncated = s then (truncated, None) else (truncated, Some (approx_token_count s)))
        (truncate_with_byte_estimate s (approx_bytes_for_tokens max_tokens) True))"

fun truncate_text :: "rstr \<Rightarrow> truncation_policy \<Rightarrow> rstr option" where
  "truncate_text content (Bytes bytes) = truncate_middle_chars content bytes"
| "truncate_text content (Tokens tokens) =
     map_option fst (truncate_middle_with_token_budget content tokens)"

definition formatted_truncate_text :: "rstr \<Rightarrow> truncation_policy \<Rightarrow> rstr option" where
  "formatted_truncate_text content policy =
     (if blen content \<le> byte_budget policy then Some content
      else map_option
        (\<lambda>result. lit ''Total output lines: '' @ show_nat (length (str_lines content)) @ [LF, LF] @ result)
        (truncate_text content policy))"


section \<open>Tool output\<close>

fun is_text_item :: "output_content_item \<Rightarrow> bool" where
  "is_text_item (OutputItemText _) = True"
| "is_text_item _ = False"

fun item_text :: "output_content_item \<Rightarrow> rstr option" where
  "item_text (OutputItemText text) = Some text"
| "item_text _ = None"

text \<open>The accumulation of \<open>combined\<close>: a line feed between two texts, unless nothing was added yet.\<close>

definition combine_texts :: "rstr list \<Rightarrow> rstr" where
  "combine_texts segments =
     foldl (\<lambda>combined text. (if combined \<noteq> [] then combined @ [LF] else combined) @ text) [] segments"

definition formatted_truncate_text_content_items_with_policy ::
  "output_content_item list \<Rightarrow> truncation_policy \<Rightarrow> (output_content_item list \<times> nat option) option" where
  "formatted_truncate_text_content_items_with_policy items policy =
     (let text_segments = List.map_filter item_text items;
          combined = combine_texts text_segments
      in if text_segments = [] then Some (items, None)
         else if blen combined \<le> byte_budget policy then Some (items, None)
         else map_option
           (\<lambda>text. (OutputItemText text # filter (\<lambda>i. \<not> is_text_item i) items,
                     Some (approx_token_count combined)))
           (formatted_truncate_text combined policy))"

fun with_budget :: "truncation_policy \<Rightarrow> nat \<Rightarrow> truncation_policy" where
  "with_budget (Bytes _) n = Bytes n"
| "with_budget (Tokens _) n = Tokens n"

fun text_cost :: "truncation_policy \<Rightarrow> rstr \<Rightarrow> nat" where
  "text_cost (Bytes _) text = blen text"
| "text_cost (Tokens _) text = approx_token_count text"

fun policy_budget :: "truncation_policy \<Rightarrow> nat" where
  "policy_budget (Bytes b) = byte_budget (Bytes b)"
| "policy_budget (Tokens t) = token_budget (Tokens t)"

text \<open>One item: what is pushed, the budget left and the number of omitted texts.\<close>

fun truncate_item ::
  "truncation_policy \<Rightarrow> output_content_item \<Rightarrow> nat \<times> nat \<Rightarrow> (output_content_item list \<times> nat \<times> nat) option"
where
  "truncate_item policy (OutputItemText text) (remaining, omitted) =
     (if remaining = 0 then Some ([], remaining, omitted + 1)
      else
        (let cost = text_cost policy text in
         if cost \<le> remaining then Some ([OutputItemText text], remaining - cost, omitted)
         else map_option
           (\<lambda>snippet. if snippet = [] then ([], 0, omitted + 1) else ([OutputItemText snippet], 0, omitted))
           (truncate_text text (with_budget policy remaining))))"
| "truncate_item policy (OutputItemImage url detail) (remaining, omitted) =
     Some ([OutputItemImage url detail], remaining, omitted)"
| "truncate_item policy (OutputItemEncrypted c) (remaining, omitted) =
     Some ([OutputItemEncrypted c], remaining, omitted)"

fun truncate_items ::
  "truncation_policy \<Rightarrow> output_content_item list \<Rightarrow> nat \<times> nat \<Rightarrow> (output_content_item list \<times> nat) option"
where
  "truncate_items policy [] (remaining, omitted) = Some ([], omitted)"
| "truncate_items policy (item # items) (remaining, omitted) =
     Option.bind (truncate_item policy item (remaining, omitted)) (\<lambda>(pushed, remaining, omitted).
       map_option (apfst ((@) pushed)) (truncate_items policy items (remaining, omitted)))"

definition omitted_note :: "nat \<Rightarrow> output_content_item" where
  "omitted_note omitted =
     OutputItemText (lit ''[omitted '' @ show_nat omitted @ lit '' text items ...]'')"

definition truncate_function_output_items_with_policy ::
  "output_content_item list \<Rightarrow> truncation_policy \<Rightarrow> output_content_item list option" where
  "truncate_function_output_items_with_policy items policy =
     map_option (\<lambda>(out, omitted). if 0 < omitted then out @ [omitted_note omitted] else out)
       (truncate_items policy items (policy_budget policy, 0))"

section \<open>Characters and bytes\<close>

text \<open>The longest prefix and the longest suffix within a number of bytes.\<close>

fun take_bytes :: "nat \<Rightarrow> rstr \<Rightarrow> rstr" where
  "take_bytes n [] = []"
| "take_bytes n (c # cs) = (if len_utf8 c \<le> n then c # take_bytes (n - len_utf8 c) cs else [])"

definition take_last_bytes :: "nat \<Rightarrow> rstr \<Rightarrow> rstr" where
  "take_last_bytes n s = rev (take_bytes n (rev s))"

lemma take_bytes_split:
  "\<exists>r. s = take_bytes n s @ r \<and> blen (take_bytes n s) \<le> n \<and> (r = [] \<or> n < blen (take_bytes n s) + len_utf8 (hd r))"
proof (induction n s rule: take_bytes.induct)
  case (2 n c cs)
  show ?case
  proof (cases "len_utf8 c \<le> n")
    case True
    with 2 obtain r where "cs = take_bytes (n - len_utf8 c) cs @ r" "blen (take_bytes (n - len_utf8 c) cs) \<le> n - len_utf8 c"
      "r = [] \<or> n - len_utf8 c < blen (take_bytes (n - len_utf8 c) cs) + len_utf8 (hd r)" by blast
    with True show ?thesis by (intro exI[of _ r]) auto
  qed (simp add: exI[of _ "c # cs"])
qed simp

lemma take_last_bytes_split:
  "\<exists>r. s = r @ take_last_bytes n s \<and> blen (take_last_bytes n s) \<le> n \<and>
     (r = [] \<or> n < blen (take_last_bytes n s) + len_utf8 (last r))"
proof -
  obtain r where r: "rev s = take_bytes n (rev s) @ r" "blen (take_bytes n (rev s)) \<le> n"
    "r = [] \<or> n < blen (take_bytes n (rev s)) + len_utf8 (hd r)"
    using take_bytes_split[of "rev s" n] by blast
  have "s = rev r @ take_last_bytes n s"
    using arg_cong[OF r(1), of rev] by (simp add: take_last_bytes_def)
  moreover have "blen (take_last_bytes n s) = blen (take_bytes n (rev s))"
    by (simp add: take_last_bytes_def)
  ultimately show ?thesis using r(2,3) by (intro exI[of _ "rev r"]) (auto simp: last_rev)
qed

lemma split_at_byte_append: "split_at_byte (blen p) (p @ q) = Some (p, q)"
proof (induction p)
  case Nil
  then show ?case by (subst split_at_byte.simps) simp
next
  case (Cons c p)
  then show ?case by (subst split_at_byte.simps) simp
qed

text \<open>The three phases of the loop: the kept prefix, the removed middle, the kept suffix.\<close>

lemma split_loop_append:
  "split_loop b t i (xs @ ys) st = split_loop b t (i + blen xs) ys (split_loop b t i xs st)"
  by (induction xs arbitrary: i st) (simp_all add: add.assoc Let_def)

lemma split_loop_prefix:
  "i + blen xs \<le> b \<Longrightarrow>
   split_loop b t i xs st = (if xs = [] then st else st\<lparr>prefix_end := i + blen xs\<rparr>)"
  by (induction xs arbitrary: i st) (auto simp: add.assoc Let_def)

lemma split_loop_middle:
  assumes "xs = [] \<or> b < i + len_utf8 (hd xs)" "xs = [] \<or> i + blen (butlast xs) < t"
    and "removed_chars st + length xs \<le> USIZE_MAX"
  shows "split_loop b t i xs st = st\<lparr>removed_chars := removed_chars st + length xs\<rparr>"
  using assms
proof (induction xs arbitrary: i st)
  case (Cons c cs)
  have nxt: "cs = [] \<or> b < i + len_utf8 c + len_utf8 (hd cs)" using Cons.prems(1) by auto
  have tgt: "i < t" "cs = [] \<or> i + len_utf8 c + blen (butlast cs) < t"
    using Cons.prems(2) by (auto simp: split: if_splits)
  show ?case
    using Cons.IH[of "i + len_utf8 c" "st\<lparr>removed_chars := removed_chars st + 1\<rparr>"] nxt tgt Cons.prems
    by (auto simp: sat_add_exact)
qed simp

lemma split_loop_suffix:
  assumes "xs = [] \<or> b < i + len_utf8 (hd xs)" "t \<le> i" "\<not> suffix_started st"
  shows "split_loop b t i xs st =
    (if xs = [] then st else st\<lparr>suffix_start := i, suffix_started := True\<rparr>)"
proof -
  have go: "split_loop b t j ys st' = st'"
    if "ys = [] \<or> b < j + len_utf8 (hd ys)" "t \<le> j" "suffix_started st'" for j ys st'
    using that
  proof (induction ys arbitrary: j)
    case (Cons c cs)
    have "cs = [] \<or> b < j + len_utf8 c + len_utf8 (hd cs)" using Cons.prems(1) by auto
    with Cons show ?case by auto
  qed simp
  show ?thesis
  proof (cases xs)
    case (Cons c cs)
    have "cs = [] \<or> b < i + len_utf8 c + len_utf8 (hd cs)" using assms(1) Cons by auto
    with Cons assms go[of cs "i + len_utf8 c"] show ?thesis by auto
  qed simp
qed


text \<open>What the loop computes, when the two budgets leave something to remove.\<close>

lemma split_string_spec:
  assumes "b + e < blen s" "blen s \<le> USIZE_MAX"
  shows "\<exists>m. s = take_bytes b s @ m @ take_last_bytes e s \<and> m \<noteq> [] \<and>
    split_string s b e = Some (length m, take_bytes b s, take_last_bytes e s)"
proof -
  define p q where "p = take_bytes b s" and "q = take_last_bytes e s"
  obtain r where r: "s = p @ r" "blen p \<le> b" "r = [] \<or> b < blen p + len_utf8 (hd r)"
    using take_bytes_split[of s b] by (auto simp: p_def)
  obtain r' where r': "s = r' @ q" "blen q \<le> e" "r' = [] \<or> e < blen q + len_utf8 (last r')"
    using take_last_bytes_split[of s e] by (auto simp: q_def)
  from r(1) r'(1) have "p @ r = r' @ q" by simp
  moreover have "blen s = blen p + blen r" "blen s = blen r' + blen q"
    using arg_cong[OF r(1), of blen] arg_cong[OF r'(1), of blen] by simp_all
  ultimately obtain m where m: "r = m @ q" "r' = p @ m" "m \<noteq> []"
    using r(2) r'(2) assms(1) by (fastforce simp: append_eq_append_conv2)
  have s: "s = p @ m @ q" using r(1) m(1) by simp
  have head: "b < blen p + len_utf8 (hd m)" using r(3) m by auto
  have tail: "e < blen q + len_utf8 (last m)" using r'(3) m by auto
  have m_eq: "m = butlast m @ [last m]" using m(3) by simp
  then have bm: "blen m = blen (butlast m) + len_utf8 (last m)"
    by (metis add_0_right blen_Cons blen_Nil blen_append)
  have hm: "len_utf8 (hd m) \<le> blen m" using m(3) by (cases m) auto
  let ?st = "\<lparr>prefix_end = 0, suffix_start = blen s, removed_chars = 0, suffix_started = False\<rparr>"
  let ?t = "blen s - e"
  have bs: "blen s = blen p + blen m + blen q" using arg_cong[OF s, of blen] by simp
  have mid: "blen p + blen (butlast m) < ?t" and suf: "?t \<le> blen p + blen m"
    using bs bm tail r'(2) assms(1) by linarith+
  have "length m \<le> USIZE_MAX" using length_le_blen[of m] assms(2) bs by linarith
  then have "split_loop b ?t (blen p) m (?st\<lparr>prefix_end := blen p\<rparr>)
      = ?st\<lparr>prefix_end := blen p, removed_chars := length m\<rparr>"
    using split_loop_middle[of m b "blen p" ?t "?st\<lparr>prefix_end := blen p\<rparr>"] head mid by simp
  moreover have "split_loop b ?t 0 p ?st = ?st\<lparr>prefix_end := blen p\<rparr>"
    using split_loop_prefix[of 0 p b ?t ?st] r(2) by simp
  moreover have "split_loop b ?t (blen p + blen m) q st =
      (if q = [] then st else st\<lparr>suffix_start := blen p + blen m, suffix_started := True\<rparr>)"
    if "\<not> suffix_started st" for st
    using that split_loop_suffix[of q b "blen p + blen m" ?t st] head hm suf by simp
  ultimately have loop: "split_loop b ?t 0 s ?st =
      \<lparr>prefix_end = blen p, suffix_start = blen (p @ m), removed_chars = length m, suffix_started = (q \<noteq> [])\<rparr>"
    by (subst (2) s) (auto simp: split_loop_append bs)
  have "split_at_byte (blen p) s = Some (p, m @ q)" "split_at_byte (blen (p @ m)) s = Some (p @ m, q)"
    using split_at_byte_append[of p "m @ q"] split_at_byte_append[of "p @ m" q] s by simp_all
  with loop have "split_string s b e = Some (length m, p, q)"
    using m(3) s by (simp add: split_string_def Let_def)
  with s m(3) show ?thesis unfolding p_def q_def by blast
qed

lemma truncate_long:
  assumes "max_bytes < blen s" "blen s \<le> USIZE_MAX"
  shows "\<exists>m. s = take_bytes (max_bytes div 2) s @ m @ take_last_bytes (max_bytes - max_bytes div 2) s \<and>
    m \<noteq> [] \<and> truncate_with_byte_estimate s max_bytes use_tokens =
      Some (take_bytes (max_bytes div 2) s
            @ format_truncation_marker use_tokens (removed_units use_tokens (blen s - max_bytes) (length m))
            @ take_last_bytes (max_bytes - max_bytes div 2) s)"
proof -
  have ne: "s \<noteq> []" using assms(1) by auto
  have lt: "max_bytes div 2 + (max_bytes - max_bytes div 2) < blen s" using assms(1) by simp
  obtain m where m: "s = take_bytes (max_bytes div 2) s @ m @ take_last_bytes (max_bytes - max_bytes div 2) s"
    "m \<noteq> []" "split_string s (max_bytes div 2) (max_bytes - max_bytes div 2) =
      Some (length m, take_bytes (max_bytes div 2) s, take_last_bytes (max_bytes - max_bytes div 2) s)"
    using split_string_spec[OF lt assms(2)] by blast
  show ?thesis
  proof (cases "max_bytes = 0")
    case True
    have z: "take_bytes 0 t = []" for t by (cases t) simp_all
    then have "take_last_bytes 0 s = []" by (simp add: take_last_bytes_def)
    with True m z ne show ?thesis by (auto simp: truncate_with_byte_estimate_def)
  next
    case False
    with m ne assms(1) show ?thesis
      by (auto simp: truncate_with_byte_estimate_def split_budget_def Let_def)
  qed
qed

text \<open>
  C33. Cutting the middle of a text. A text within the budget is returned unchanged. A longer one
  becomes the longest prefix that fits in half the budget, a marker, and the longest suffix that
  fits in the other half; the cut never falls inside a character and, when characters are
  counted, the marker states exactly how many were removed.
\<close>

theorem truncate_keeps_ends:
  assumes "blen s \<le> USIZE_MAX"
  shows "if blen s \<le> max_bytes then truncate_with_byte_estimate s max_bytes use_tokens = Some s
    else \<exists>p m q.
      truncate_with_byte_estimate s max_bytes use_tokens =
        Some (p @ format_truncation_marker use_tokens
                    (if use_tokens then approx_tokens_from_byte_count (blen s - max_bytes) else length m) @ q)
      \<and> s = p @ m @ q \<and> m \<noteq> []
      \<and> blen p \<le> max_bytes div 2 \<and> max_bytes div 2 < blen p + len_utf8 (hd m)
      \<and> blen q \<le> max_bytes - max_bytes div 2 \<and> max_bytes - max_bytes div 2 < blen q + len_utf8 (last m)"
proof (cases "blen s \<le> max_bytes")
  case True
  moreover have "s \<noteq> [] \<Longrightarrow> 0 < blen s" by (cases s) simp_all
  ultimately show ?thesis by (auto simp: truncate_with_byte_estimate_def)
next
  case False
  let ?h = "max_bytes div 2" let ?k = "max_bytes - max_bytes div 2"
  obtain m where m: "s = take_bytes ?h s @ m @ take_last_bytes ?k s" "m \<noteq> []"
    "truncate_with_byte_estimate s max_bytes use_tokens =
      Some (take_bytes ?h s
            @ format_truncation_marker use_tokens (removed_units use_tokens (blen s - max_bytes) (length m))
            @ take_last_bytes ?k s)"
    using truncate_long[of max_bytes s use_tokens] False assms by auto
  obtain r where r: "s = take_bytes ?h s @ r" "blen (take_bytes ?h s) \<le> ?h"
    "r = [] \<or> ?h < blen (take_bytes ?h s) + len_utf8 (hd r)" using take_bytes_split[of s ?h] by blast
  obtain r' where r': "s = r' @ take_last_bytes ?k s" "blen (take_last_bytes ?k s) \<le> ?k"
    "r' = [] \<or> ?k < blen (take_last_bytes ?k s) + len_utf8 (last r')" using take_last_bytes_split[of s ?k] by blast
  have "r = m @ take_last_bytes ?k s" using m(1) r(1) by (metis same_append_eq)
  moreover have "r' = take_bytes ?h s @ m" using m(1) r'(1) by (metis append.assoc append_same_eq)
  ultimately show ?thesis
    using False m r(2,3) r'(2,3) by (auto simp: removed_units_def intro!: exI)
qed

theorem truncate_keeps_ends_witness:
  "truncate_with_byte_estimate [97, 128512, 98, 99, 100] 4 False
     = Some ([97] @ format_truncation_marker False 2 @ [99, 100])
   \<and> (\<exists>p m q. [97, 128512, 98, 99, 100] = p @ m @ q \<and> m \<noteq> [] \<and> blen p \<le> 2 \<and> 2 < blen p + len_utf8 (hd m))"
proof -
  have b: "blen [97, 128512, 98, 99, 100] \<le> USIZE_MAX" "\<not> blen [97, 128512, 98, 99, 100] \<le> 4" by code_simp+
  have "truncate_with_byte_estimate [97, 128512, 98, 99, 100] 4 False
     = Some ([97] @ format_truncation_marker False 2 @ [99, 100])" by code_simp
  then show ?thesis using truncate_keeps_ends[OF b(1), of 4 False] b(2) by auto
qed


section \<open>Truncated tool output\<close>

lemma truncate_with_byte_estimate_total:
  assumes "blen s \<le> USIZE_MAX"
  shows "truncate_with_byte_estimate s max_bytes use_tokens \<noteq> None"
proof (cases "blen s \<le> max_bytes")
  case True
  moreover have "s \<noteq> [] \<Longrightarrow> 0 < blen s" by (cases s) simp_all
  ultimately show ?thesis by (auto simp: truncate_with_byte_estimate_def)
next
  case False
  then show ?thesis using truncate_long[of max_bytes s use_tokens] assms by auto
qed

lemma truncate_text_total: "blen s \<le> USIZE_MAX \<Longrightarrow> truncate_text s policy \<noteq> None"
  using truncate_with_byte_estimate_total[of s]
  by (cases policy)
     (simp_all add: truncate_middle_chars_def truncate_middle_with_token_budget_def del: not_None_eq)

abbreviation small_texts :: "output_content_item list \<Rightarrow> bool" where
  "small_texts items \<equiv> \<forall>t. OutputItemText t \<in> set items \<longrightarrow> blen t \<le> USIZE_MAX"

lemma truncate_item_total:
  "(\<forall>t. item = OutputItemText t \<longrightarrow> blen t \<le> USIZE_MAX) \<Longrightarrow>
   \<exists>pushed rem om'. truncate_item policy item (remaining, om) = Some (pushed, rem, om') \<and>
     filter (\<lambda>i. \<not> is_text_item i) pushed = filter (\<lambda>i. \<not> is_text_item i) [item]"
proof (cases item)
  case (OutputItemText t)
  moreover assume "\<forall>t. item = OutputItemText t \<longrightarrow> blen t \<le> USIZE_MAX"
  ultimately obtain sn where "truncate_text t (with_budget policy remaining) = Some sn"
    using truncate_text_total[of t "with_budget policy remaining"] by auto
  with OutputItemText show ?thesis by (auto simp: Let_def)
qed simp_all

lemma truncate_items_total:
  "small_texts items \<Longrightarrow>
   \<exists>out om'. truncate_items policy items (remaining, om) = Some (out, om') \<and>
     filter (\<lambda>i. \<not> is_text_item i) out = filter (\<lambda>i. \<not> is_text_item i) items"
proof (induction items arbitrary: remaining om)
  case (Cons item items)
  obtain pushed rem om1 where item: "truncate_item policy item (remaining, om) = Some (pushed, rem, om1)"
    "filter (\<lambda>i. \<not> is_text_item i) pushed = filter (\<lambda>i. \<not> is_text_item i) [item]"
    using truncate_item_total[of item policy remaining om] Cons.prems by auto
  obtain out om2 where "truncate_items policy items (rem, om1) = Some (out, om2)"
    "filter (\<lambda>i. \<not> is_text_item i) out = filter (\<lambda>i. \<not> is_text_item i) items"
    using Cons.IH[of rem om1] Cons.prems by auto
  with item show ?case by auto
qed simp

definition texts_cost :: "truncation_policy \<Rightarrow> output_content_item list \<Rightarrow> nat" where
  "texts_cost policy items = sum_list (map (text_cost policy) (List.map_filter item_text items))"

lemma text_cost_pos: "t \<noteq> [] \<Longrightarrow> blen t \<le> USIZE_MAX \<Longrightarrow> 0 < text_cost policy t"
proof -
  assume "t \<noteq> []"
  then have "0 < blen t" by (cases t) simp_all
  then show ?thesis
    by (cases policy) (auto simp: approx_token_count_def APPROX_BYTES_PER_TOKEN_def sat_add_def
        USIZE_MAX_def min_def div_greater_zero_iff)
qed

lemma truncate_items_within:
  "small_texts items \<Longrightarrow> OutputItemText [] \<notin> set items \<Longrightarrow> texts_cost policy items \<le> remaining \<Longrightarrow>
   truncate_items policy items (remaining, om) = Some (items, om)"
proof (induction items arbitrary: remaining)
  case (Cons item items)
  show ?case
  proof (cases item)
    case (OutputItemText t)
    have "0 < text_cost policy t"
      using Cons.prems OutputItemText by (intro text_cost_pos) auto
    moreover have "text_cost policy t + texts_cost policy items \<le> remaining"
      using Cons.prems(3) OutputItemText by (simp add: texts_cost_def List.map_filter_def)
    ultimately show ?thesis
      using Cons.IH[of "remaining - text_cost policy t"] Cons.prems OutputItemText by auto
  qed (use Cons in \<open>auto simp: texts_cost_def List.map_filter_def\<close>)
qed simp

text \<open>
  Truncating a structured tool output always succeeds and only ever touches text: images and
  encrypted parts are all kept, in order. When the non-empty texts fit the budget together, the
  output is unchanged.
\<close>

theorem truncate_output_items_contract:
  assumes "small_texts items"
  shows "\<exists>out. truncate_function_output_items_with_policy items policy = Some out
    \<and> filter (\<lambda>i. \<not> is_text_item i) out = filter (\<lambda>i. \<not> is_text_item i) items
    \<and> (OutputItemText [] \<notin> set items \<and> texts_cost policy items \<le> policy_budget policy \<longrightarrow> out = items)"
proof -
  obtain out om where "truncate_items policy items (policy_budget policy, 0) = Some (out, om)"
    "filter (\<lambda>i. \<not> is_text_item i) out = filter (\<lambda>i. \<not> is_text_item i) items"
    using truncate_items_total[OF assms] by blast
  with truncate_items_within[OF assms, of policy "policy_budget policy" 0] show ?thesis
    by (auto simp: truncate_function_output_items_with_policy_def omitted_note_def)
qed

theorem truncate_output_items_contract_witness:
  "\<exists>out. truncate_function_output_items_with_policy
       [OutputItemText (lit ''ab''), OutputItemImage (lit ''u'') None, OutputItemText (lit ''cdefgh'')] (Bytes 5)
      = Some out
    \<and> filter (\<lambda>i. \<not> is_text_item i) out = [OutputItemImage (lit ''u'') None]
    \<and> truncate_function_output_items_with_policy [OutputItemText (lit ''ab'')] (Bytes 2)
      = Some [OutputItemText (lit ''ab'')]"
proof -
  let ?items = "[OutputItemText (lit ''ab''), OutputItemImage (lit ''u'') None, OutputItemText (lit ''cdefgh'')]"
  have "blen (lit ''ab'') \<le> USIZE_MAX" "blen (lit ''cdefgh'') \<le> USIZE_MAX" by code_simp+
  then have h: "small_texts ?items" "small_texts [OutputItemText (lit ''ab'')]" by auto
  have "texts_cost (Bytes 2) [OutputItemText (lit ''ab'')] \<le> policy_budget (Bytes 2)"
    "OutputItemText [] \<notin> set [OutputItemText (lit ''ab'')]" by code_simp+
  with truncate_output_items_contract[OF h(1), of "Bytes 5"] truncate_output_items_contract[OF h(2), of "Bytes 2"]
  show ?thesis by auto
qed

end
