(* ===== verification/Contextual_Fragments.thy ===== *)
theory Contextual_Fragments
  imports Text_Truncation
begin

text \<open>
  \<open>core/src/context\<close> and \<open>core/src/event_mapping.rs\<close>: recognising the fragments of context
  the client injects into a conversation, by their markers, so that they do not count as user
  turns. Hook prompts are recognised by an XML parser; its answer is a parameter.
\<close>

section \<open>Marked fragments\<close>

text \<open>
  A comparison of the first or last bytes with an ASCII marker, ignoring case. The markers are
  ASCII, so a slice that ends inside a character never compares equal.
\<close>

definition starts_with_ignore_case :: "rstr \<Rightarrow> rstr \<Rightarrow> bool" where
  "starts_with_ignore_case marker s \<longleftrightarrow>
     to_ascii_lowercase (take (length marker) s) = to_ascii_lowercase marker"

definition ends_with_ignore_case :: "rstr \<Rightarrow> rstr \<Rightarrow> bool" where
  "ends_with_ignore_case marker s \<longleftrightarrow>
     to_ascii_lowercase (take_last (length marker) s) = to_ascii_lowercase marker"

definition matches_marked_text :: "rstr \<Rightarrow> rstr \<Rightarrow> rstr \<Rightarrow> bool" where
  "matches_marked_text start_marker end_marker t =
     (if start_marker = [] \<or> end_marker = [] then False
      else
        (let trimmed = trim_start t;
             starts_with_marker = starts_with_ignore_case start_marker trimmed;
             trimmed = trim_end trimmed;
             ends_with_marker = ends_with_ignore_case end_marker trimmed
         in starts_with_marker \<and> ends_with_marker))"

definition render_fragment :: "rstr \<times> rstr \<Rightarrow> rstr \<Rightarrow> rstr" where
  "render_fragment markers inner =
     (case markers of (start_marker, end_marker) \<Rightarrow>
        if start_marker = [] \<and> end_marker = [] then inner else start_marker @ inner @ end_marker)"

text \<open>The \<open>type_markers\<close> of the fragments registered with the default matcher.\<close>

definition standard_markers :: "(rstr \<times> rstr) list" where
  "standard_markers =
     [(lit ''# AGENTS.md instructions for '', lit ''</INSTRUCTIONS>''),
      (lit ''<environment_context>'', lit ''</environment_context>''),
      (lit ''<skill>'', lit ''</skill>''),
      (lit ''<user_shell_command>'', lit ''</user_shell_command>''),
      (lit ''<turn_aborted>'', lit ''</turn_aborted>''),
      (lit ''<subagent_notification>'', lit ''</subagent_notification>''),
      (lit ''<goal_context>'', lit ''</goal_context>'')]"

section \<open>Fragments with their own matcher\<close>

definition EXTERNAL_PREFIX :: rstr where "EXTERNAL_PREFIX = lit ''<external_''"

abbreviation GT :: rchar where "GT \<equiv> 62"

definition split_once_gt :: "rstr \<Rightarrow> (rstr \<times> rstr) option" where
  "split_once_gt s =
     (if GT \<in> set s then Some (takeWhile (\<lambda>c. c \<noteq> GT) s, tl (dropWhile (\<lambda>c. c \<noteq> GT) s)) else None)"

definition additional_context_matches :: "rstr \<Rightarrow> bool" where
  "additional_context_matches t =
     (case strip_prefix EXTERNAL_PREFIX (trim t) of
        None \<Rightarrow> False
      | Some rest \<Rightarrow>
          (case split_once_gt rest of
             None \<Rightarrow> False
           | Some (key, value_and_close) \<Rightarrow>
               ends_with (lit ''</external_'' @ key @ [GT]) value_and_close))"

definition MAX_ADDITIONAL_CONTEXT_VALUE_TOKENS :: nat where
  "MAX_ADDITIONAL_CONTEXT_VALUE_TOKENS = 1000"

definition additional_context_body :: "rstr \<Rightarrow> rstr \<Rightarrow> rstr option" where
  "additional_context_body key val =
     map_option (\<lambda>(v, _). key @ [GT] @ v @ lit ''</external_'' @ key)
       (truncate_middle_with_token_budget val MAX_ADDITIONAL_CONTEXT_VALUE_TOKENS)"

definition legacy_unified_exec_matches :: "rstr \<Rightarrow> bool" where
  "legacy_unified_exec_matches t \<longleftrightarrow> starts_with
     (lit ''Warning: The maximum number of unified exec processes you can keep open is'') (trim t)"

definition legacy_apply_patch_matches :: "rstr \<Rightarrow> bool" where
  "legacy_apply_patch_matches t \<longleftrightarrow>
     starts_with (lit ''Warning: apply_patch was requested via '') (trim t)
     \<and> ends_with (lit ''Use the apply_patch tool instead of exec_command.'') (trim t)"

definition legacy_model_mismatch_matches :: "rstr \<Rightarrow> bool" where
  "legacy_model_mismatch_matches t \<longleftrightarrow> starts_with
     (lit ''Warning: Your account was flagged for potentially high-risk cyber activity'') (trim t)"

section \<open>Contextual messages\<close>

definition is_standard_contextual_user_text :: "rstr \<Rightarrow> bool" where
  "is_standard_contextual_user_text t \<longleftrightarrow>
     list_ex (\<lambda>(s, e). matches_marked_text s e t) standard_markers
     \<or> additional_context_matches t \<or> legacy_unified_exec_matches t
     \<or> legacy_apply_patch_matches t \<or> legacy_model_mismatch_matches t"

fun is_contextual_user_fragment :: "(rstr \<Rightarrow> bool) \<Rightarrow> content_item \<Rightarrow> bool" where
  "is_contextual_user_fragment is_hook_prompt (InputText t) \<longleftrightarrow>
     is_hook_prompt t \<or> is_standard_contextual_user_text t"
| "is_contextual_user_fragment is_hook_prompt _ \<longleftrightarrow> False"

definition is_contextual_user_message_content :: "(rstr \<Rightarrow> bool) \<Rightarrow> content_item list \<Rightarrow> bool" where
  "is_contextual_user_message_content is_hook_prompt message \<longleftrightarrow>
     list_ex (is_contextual_user_fragment is_hook_prompt) message"

definition CONTEXTUAL_DEVELOPER_PREFIXES :: "rstr list" where
  "CONTEXTUAL_DEVELOPER_PREFIXES =
     [lit ''<permissions instructions>'', lit ''<model_switch>'', lit ''<collaboration_mode>'',
      lit ''<realtime_conversation>'', lit ''<personality_spec>'']"

fun is_contextual_dev_fragment :: "content_item \<Rightarrow> bool" where
  "is_contextual_dev_fragment (InputText t) \<longleftrightarrow>
     list_ex (\<lambda>prefix. starts_with_ignore_case prefix (trim_start t)) CONTEXTUAL_DEVELOPER_PREFIXES"
| "is_contextual_dev_fragment _ \<longleftrightarrow> False"

definition is_contextual_dev_message_content :: "content_item list \<Rightarrow> bool" where
  "is_contextual_dev_message_content message \<longleftrightarrow> list_ex is_contextual_dev_fragment message"

definition has_non_contextual_dev_message_content :: "content_item list \<Rightarrow> bool" where
  "has_non_contextual_dev_message_content message \<longleftrightarrow>
     list_ex (\<lambda>c. \<not> is_contextual_dev_fragment c) message"

section \<open>What is rendered is recognised\<close>

lemma trim_start_nonspace: "\<not> is_whitespace c \<Longrightarrow> trim_start (c # s) = c # s"
  by (simp add: trim_start_def)

lemma trim_end_nonspace: "\<not> is_whitespace c \<Longrightarrow> trim_end (s @ [c]) = s @ [c]"
  by (simp add: trim_end_def)

lemma trim_between:
  assumes "s = c # s'" "s = s'' @ [d]" "\<not> is_whitespace c" "\<not> is_whitespace d"
  shows "trim_start s = s" "trim_end s = s" "trim s = s"
proof -
  show 1: "trim_start s = s" using trim_start_nonspace[OF assms(3), of s'] assms(1) by simp
  show 2: "trim_end s = s" using trim_end_nonspace[OF assms(4), of s''] assms(2) by simp
  show "trim s = s" using 1 2 by (simp add: trim_def)
qed

lemma matches_rendered:
  assumes "a = c # a'" "e = e' @ [d]" "\<not> is_whitespace c" "\<not> is_whitespace d"
  shows "matches_marked_text a e (a @ inner @ e)"
proof -
  have "trim_start (a @ inner @ e) = a @ inner @ e" "trim_end (a @ inner @ e) = a @ inner @ e"
    using trim_between[of "a @ inner @ e" c "a' @ inner @ e" "a @ inner @ e'" d] assms by simp_all
  moreover have "take_last (length e) (a @ inner @ e) = e"
    using take_last_append_long[of "length e" e "a @ inner"] by simp
  ultimately show ?thesis
    using assms(1,2) by (simp add: matches_marked_text_def starts_with_ignore_case_def ends_with_ignore_case_def)
qed

definition solid_markers :: "rstr \<times> rstr \<Rightarrow> bool" where
  "solid_markers m \<longleftrightarrow> (case m of (a, e) \<Rightarrow>
     a \<noteq> [] \<and> e \<noteq> [] \<and> \<not> is_whitespace (hd a) \<and> \<not> is_whitespace (last e))"

lemma standard_markers_solid: "list_all solid_markers standard_markers"
  by code_simp

lemma split_once_gt_append: "GT \<notin> set key \<Longrightarrow> split_once_gt (key @ GT # rest) = Some (key, rest)"
  unfolding split_once_gt_def by (induction key) auto

lemma additional_context_rendered:
  assumes "GT \<notin> set key" "additional_context_body key val = Some b"
  shows "additional_context_matches (EXTERNAL_PREFIX @ b @ [GT])"
proof -
  obtain v where b: "b = key @ GT # v @ lit ''</external_'' @ key"
    using assms(2) by (auto simp: additional_context_body_def)
  define t where "t = EXTERNAL_PREFIX @ b @ [GT]"
  have pre: "EXTERNAL_PREFIX = 60 # lit ''external_''" by code_simp
  have "trim t = t"
    using trim_between(3)[of t 60 "lit ''external_'' @ b @ [GT]" "EXTERNAL_PREFIX @ b" GT]
    by (simp add: t_def pre is_whitespace_def)
  moreover have "strip_prefix EXTERNAL_PREFIX t = Some (b @ [GT])"
    by (simp add: t_def strip_prefix_iff)
  moreover have "split_once_gt (b @ [GT]) = Some (key, v @ lit ''</external_'' @ key @ [GT])"
    using split_once_gt_append[OF assms(1), of "v @ lit ''</external_'' @ key @ [GT]"] b by simp
  ultimately show ?thesis
    by (auto simp: additional_context_matches_def ends_with_iff t_def[symmetric])
qed

text \<open>
  C37. Two kinds of rendered fragments are recognised later, whatever their body: those with one of
  the seven pairs of markers of the default matcher, and the additional context of a key without
  a closing bracket. A user message that carries one is contextual and does not start a turn. A
  key with a closing bracket is rendered all the same, and need not be recognised.
\<close>

theorem rendered_fragments_recognised:
  assumes "(m \<in> set standard_markers \<and> t = render_fragment m inner)
    \<or> (GT \<notin> set key \<and> additional_context_body key val = Some b
        \<and> t = render_fragment (EXTERNAL_PREFIX, [GT]) b)"
  shows "is_contextual_user_message_content is_hook_prompt (pre @ InputText t # post)
    \<and> map_option (\<lambda>b. is_standard_contextual_user_text (render_fragment (EXTERNAL_PREFIX, [GT]) b))
        (additional_context_body (lit ''a>b'') (lit ''v'')) = Some False"
proof -
  have bracket: "map_option (\<lambda>b. is_standard_contextual_user_text (render_fragment (EXTERNAL_PREFIX, [GT]) b))
      (additional_context_body (lit ''a>b'') (lit ''v'')) = Some False" by code_simp
  have "is_standard_contextual_user_text t"
    using assms
  proof (elim disjE conjE)
    assume m: "m \<in> set standard_markers" "t = render_fragment m inner"
    obtain a e where ae: "m = (a, e)" by fastforce
    with m(1) standard_markers_solid have sol: "a \<noteq> []" "e \<noteq> []" "\<not> is_whitespace (hd a)" "\<not> is_whitespace (last e)"
      by (auto simp: list_all_iff solid_markers_def)
    then have "matches_marked_text a e (a @ inner @ e)"
      by (intro matches_rendered[of a "hd a" "tl a" e "butlast e" "last e"]) simp_all
    with m ae sol show ?thesis
      by (auto simp: is_standard_contextual_user_text_def render_fragment_def list_ex_iff)
  next
    assume "GT \<notin> set key" "additional_context_body key val = Some b"
      "t = render_fragment (EXTERNAL_PREFIX, [GT]) b"
    then show ?thesis
      using additional_context_rendered[of key val b]
      by (simp add: is_standard_contextual_user_text_def render_fragment_def)
  qed
  with bracket show ?thesis by (simp add: is_contextual_user_message_content_def)
qed

theorem rendered_fragments_recognised_witness:
  "is_contextual_user_message_content (\<lambda>_. False)
     [InputText (lit ''<skill>do</skill>'')]
   \<and> is_contextual_user_message_content (\<lambda>_. False)
     [InputText (lit ''<external_k>v</external_k>'')]"
proof -
  have 1: "(lit ''<skill>'', lit ''</skill>'') \<in> set standard_markers"
    "lit ''<skill>do</skill>'' = render_fragment (lit ''<skill>'', lit ''</skill>'') (lit ''do'')"
    by code_simp+
  have 2: "GT \<notin> set (lit ''k'')" "additional_context_body (lit ''k'') (lit ''v'') = Some (lit ''k>v</external_k'')"
    "lit ''<external_k>v</external_k>'' = render_fragment (EXTERNAL_PREFIX, [GT]) (lit ''k>v</external_k'')"
    by code_simp+
  show ?thesis
    using rendered_fragments_recognised[of "(lit ''<skill>'', lit ''</skill>'')" _ "lit ''do''" _ _ _ "\<lambda>_. False" "[]" "[]"]
      rendered_fragments_recognised[of _ _ _ "lit ''k''" "lit ''v''" "lit ''k>v</external_k''" "\<lambda>_. False" "[]" "[]"] 1 2
    by simp
qed

end
