(* ===== verification/History.thy ===== *)
theory History
  imports History_Normalize Contextual_Fragments
begin

text \<open>
  \<open>core/src/context_manager/history.rs\<close> and the token accounting of the protocol: the transcript
  of a thread, what is recorded in it, how it is rolled back, and how its size is estimated.
  Serialisation to JSON, the recognition of hook prompts and of messages between agents, and the
  decoding of images are parameters; so is the turn context kept as a reference, which the code
  only stores.
\<close>

section \<open>Signed 64-bit integers\<close>

definition I64_MAX :: int where "I64_MAX = 2 ^ 63 - 1"

definition I64_MIN :: int where "I64_MIN = - (2 ^ 63)"

definition i64_wrap :: "int \<Rightarrow> int" where
  "i64_wrap x = (x + 2 ^ 63) mod 2 ^ 64 - 2 ^ 63"

definition i64_sat :: "int \<Rightarrow> int" where
  "i64_sat x = max I64_MIN (min I64_MAX x)"

definition i64_from_usize :: "nat \<Rightarrow> int" where
  "i64_from_usize n = min I64_MAX (int n)"

definition i64_sum :: "int list \<Rightarrow> int" where
  "i64_sum xs = foldl (\<lambda>a b. i64_sat (a + b)) 0 xs"

section \<open>Token usage\<close>

record token_usage =
  input_tokens :: int
  cached_input_tokens :: int
  output_tokens :: int
  reasoning_output_tokens :: int
  total_tokens :: int

definition token_usage_default :: token_usage where
  "token_usage_default = \<lparr>input_tokens = 0, cached_input_tokens = 0, output_tokens = 0,
     reasoning_output_tokens = 0, total_tokens = 0\<rparr>"

definition add_assign :: "token_usage \<Rightarrow> token_usage \<Rightarrow> token_usage" where
  "add_assign u v =
     \<lparr>input_tokens = i64_wrap (input_tokens u + input_tokens v),
      cached_input_tokens = i64_wrap (cached_input_tokens u + cached_input_tokens v),
      output_tokens = i64_wrap (output_tokens u + output_tokens v),
      reasoning_output_tokens = i64_wrap (reasoning_output_tokens u + reasoning_output_tokens v),
      total_tokens = i64_wrap (total_tokens u + total_tokens v)\<rparr>"

record token_usage_info =
  total_token_usage :: token_usage
  last_token_usage :: token_usage
  model_context_window :: "int option"

definition append_last_usage :: "token_usage \<Rightarrow> token_usage_info \<Rightarrow> token_usage_info" where
  "append_last_usage last_usage info =
     info\<lparr>total_token_usage := add_assign (total_token_usage info) last_usage, last_token_usage := last_usage\<rparr>"

definition new_or_append ::
  "token_usage_info option \<Rightarrow> token_usage option \<Rightarrow> int option \<Rightarrow> token_usage_info option" where
  "new_or_append info last_usage window =
     (if info = None \<and> last_usage = None then None
      else
        (let info = (case info of
               Some i \<Rightarrow> i
             | None \<Rightarrow> \<lparr>total_token_usage = token_usage_default, last_token_usage = token_usage_default,
                        model_context_window = window\<rparr>);
             info = (case last_usage of Some l \<Rightarrow> append_last_usage l info | None \<Rightarrow> info);
             info = (case window of Some w \<Rightarrow> info\<lparr>model_context_window := Some w\<rparr> | None \<Rightarrow> info)
         in Some info))"

definition fill_to_context_window :: "int \<Rightarrow> token_usage_info \<Rightarrow> token_usage_info" where
  "fill_to_context_window window info =
     (let delta = max 0 (i64_wrap (window - total_tokens (total_token_usage info))) in
      \<lparr>total_token_usage = token_usage_default\<lparr>total_tokens := window\<rparr>,
       last_token_usage = token_usage_default\<lparr>total_tokens := delta\<rparr>,
       model_context_window = Some window\<rparr>)"

definition full_context_window :: "int \<Rightarrow> token_usage_info" where
  "full_context_window window =
     fill_to_context_window window
       \<lparr>total_token_usage = token_usage_default, last_token_usage = token_usage_default,
        model_context_window = Some window\<rparr>"

section \<open>The transcript\<close>

record 'ctx context_manager =
  items :: "response_item list"
  history_version :: nat
  token_info :: "token_usage_info option"
  reference_context_item :: "'ctx option"

definition new_context_manager :: "'ctx context_manager" where
  "new_context_manager = \<lparr>items = [], history_version = 0,
     token_info = new_or_append None None None, reference_context_item = None\<rparr>"

definition set_token_info :: "token_usage_info option \<Rightarrow> 'ctx context_manager \<Rightarrow> 'ctx context_manager" where
  "set_token_info info cm = cm\<lparr>token_info := info\<rparr>"

definition set_reference_context_item :: "'ctx option \<Rightarrow> 'ctx context_manager \<Rightarrow> 'ctx context_manager" where
  "set_reference_context_item item cm = cm\<lparr>reference_context_item := item\<rparr>"

definition set_token_usage_full :: "int \<Rightarrow> 'ctx context_manager \<Rightarrow> 'ctx context_manager" where
  "set_token_usage_full window cm =
     (case token_info cm of
        Some info \<Rightarrow> cm\<lparr>token_info := Some (fill_to_context_window window info)\<rparr>
      | None \<Rightarrow> cm\<lparr>token_info := Some (full_context_window window)\<rparr>)"

definition update_token_info :: "token_usage \<Rightarrow> int option \<Rightarrow> 'ctx context_manager \<Rightarrow> 'ctx context_manager" where
  "update_token_info usage window cm =
     cm\<lparr>token_info := new_or_append (token_info cm) (Some usage) window\<rparr>"

fun is_api_message :: "response_item \<Rightarrow> bool" where
  "is_api_message (Message _ role _ _) \<longleftrightarrow> role \<noteq> lit ''system''"
| "is_api_message CompactionTrigger \<longleftrightarrow> False"
| "is_api_message Other \<longleftrightarrow> False"
| "is_api_message _ \<longleftrightarrow> True"

definition truncate_function_output_payload ::
  "function_call_output_payload \<Rightarrow> truncation_policy \<Rightarrow> function_call_output_payload option" where
  "truncate_function_output_payload output policy =
     map_option (\<lambda>b. \<lparr>body = b, success = success output\<rparr>)
       (case body output of
          Text content \<Rightarrow> map_option Text (truncate_text content policy)
        | ContentItems cs \<Rightarrow>
            map_option ContentItems (truncate_function_output_items_with_policy cs policy))"

text \<open>The \<open>f64\<close> constant 1.2 is \<open>5404319552844595 / 2 ^ 52\<close>.\<close>

definition with_serialization_budget :: "truncation_policy \<Rightarrow> truncation_policy" where
  "with_serialization_budget policy = policy_mul 5404319552844595 52 policy"

fun process_item :: "response_item \<Rightarrow> truncation_policy \<Rightarrow> response_item option" where
  "process_item (FunctionCallOutput cid output) policy =
     map_option (FunctionCallOutput cid)
       (truncate_function_output_payload output (with_serialization_budget policy))"
| "process_item (CustomToolCallOutput cid name output) policy =
     map_option (CustomToolCallOutput cid name)
       (truncate_function_output_payload output (with_serialization_budget policy))"
| "process_item item policy = Some item"

fun record_items ::
  "response_item list \<Rightarrow> truncation_policy \<Rightarrow> 'ctx context_manager \<Rightarrow> 'ctx context_manager option" where
  "record_items [] policy cm = Some cm"
| "record_items (item # rest) policy cm =
     (if \<not> is_api_message item then record_items rest policy cm
      else Option.bind (process_item item policy) (\<lambda>processed.
        record_items rest policy (cm\<lparr>items := items cm @ [processed]\<rparr>)))"

definition for_prompt ::
  "bool \<Rightarrow> input_modality list \<Rightarrow> 'ctx context_manager \<Rightarrow> response_item list option" where
  "for_prompt debug modalities cm = normalize_items debug modalities (items cm)"

definition bump_version :: "'ctx context_manager \<Rightarrow> 'ctx context_manager" where
  "bump_version cm = cm\<lparr>history_version := sat_add (history_version cm) 1\<rparr>"

definition remove_first_item :: "'ctx context_manager \<Rightarrow> 'ctx context_manager" where
  "remove_first_item cm =
     (case items cm of
        [] \<Rightarrow> cm
      | removed # rest \<Rightarrow> cm\<lparr>items := remove_corresponding_for rest removed\<rparr>)"

definition remove_last_item :: "'ctx context_manager \<Rightarrow> 'ctx context_manager \<times> bool" where
  "remove_last_item cm =
     (if items cm = [] then (cm, False)
      else (bump_version
              (cm\<lparr>items := remove_corresponding_for (butlast (items cm)) (last (items cm))\<rparr>), True))"

definition replace :: "response_item list \<Rightarrow> 'ctx context_manager \<Rightarrow> 'ctx context_manager" where
  "replace new_items cm = bump_version (cm\<lparr>items := new_items\<rparr>)"

section \<open>Turns\<close>

text \<open>
  \<open>is_hook\<close> recognises hook prompts, \<open>is_agent\<close> the JSON of a message between agents.
\<close>

fun is_message_content :: "(rstr \<Rightarrow> bool) \<Rightarrow> content_item list \<Rightarrow> bool" where
  "is_message_content is_agent [InputText t] = is_agent t"
| "is_message_content is_agent [OutputText t] = is_agent t"
| "is_message_content is_agent _ = False"

fun is_user_turn_boundary :: "(rstr \<Rightarrow> bool) \<Rightarrow> (rstr \<Rightarrow> bool) \<Rightarrow> response_item \<Rightarrow> bool" where
  "is_user_turn_boundary is_hook is_agent (Message _ role content _) \<longleftrightarrow>
     (role = lit ''user'' \<and> \<not> is_contextual_user_message_content is_hook content)
     \<or> (role = lit ''assistant'' \<and> is_message_content is_agent content)"
| "is_user_turn_boundary is_hook is_agent _ \<longleftrightarrow> False"

definition user_message_positions ::
  "(rstr \<Rightarrow> bool) \<Rightarrow> (rstr \<Rightarrow> bool) \<Rightarrow> response_item list \<Rightarrow> nat list" where
  "user_message_positions is_hook is_agent xs =
     filter (\<lambda>idx. is_user_turn_boundary is_hook is_agent (xs ! idx)) [0..<length xs]"

text \<open>The walk of \<open>trim_pre_turn_context_updates\<close>: the cut and the reference baseline.\<close>

fun trim_pre_turn_context_updates ::
  "(rstr \<Rightarrow> bool) \<Rightarrow> response_item list \<Rightarrow> nat \<Rightarrow> nat \<Rightarrow> 'ctx option \<Rightarrow> nat \<times> 'ctx option" where
  "trim_pre_turn_context_updates is_hook snapshot first_idx cut_idx ref =
     (if first_idx < cut_idx then
        (case snapshot ! (cut_idx - 1) of
           Message _ role content _ \<Rightarrow>
             if role = lit ''developer'' \<and> is_contextual_dev_message_content content then
               trim_pre_turn_context_updates is_hook snapshot first_idx (cut_idx - 1)
                 (if has_non_contextual_dev_message_content content then None else ref)
             else if role = lit ''user'' \<and> is_contextual_user_message_content is_hook content then
               trim_pre_turn_context_updates is_hook snapshot first_idx (cut_idx - 1) ref
             else (cut_idx, ref)
         | _ \<Rightarrow> (cut_idx, ref))
      else (cut_idx, ref))"

declare trim_pre_turn_context_updates.simps [simp del]

definition drop_last_n_user_turns ::
  "(rstr \<Rightarrow> bool) \<Rightarrow> (rstr \<Rightarrow> bool) \<Rightarrow> nat \<Rightarrow> 'ctx context_manager \<Rightarrow> 'ctx context_manager" where
  "drop_last_n_user_turns is_hook is_agent num_turns cm =
     (if num_turns = 0 then cm
      else
        (let snapshot = items cm;
             user_positions = user_message_positions is_hook is_agent snapshot
         in case user_positions of
              [] \<Rightarrow> replace snapshot cm
            | first_idx # _ \<Rightarrow>
                (let cut_idx = (if length user_positions \<le> num_turns then first_idx
                                else user_positions ! (length user_positions - num_turns))
                 in case trim_pre_turn_context_updates is_hook snapshot first_idx cut_idx
                           (reference_context_item cm) of
                      (cut_idx, ref) \<Rightarrow>
                        replace (take cut_idx snapshot) (cm\<lparr>reference_context_item := ref\<rparr>))))"

text \<open>\<open>rposition\<close>.\<close>

definition rposition :: "('a \<Rightarrow> bool) \<Rightarrow> 'a list \<Rightarrow> nat option" where
  "rposition P xs = find (\<lambda>i. P (xs ! i)) (rev [0..<length xs])"

fun is_function_output :: "response_item \<Rightarrow> bool" where
  "is_function_output (FunctionCallOutput _ _) = True" | "is_function_output _ = False"

fun is_output_image :: "output_content_item \<Rightarrow> bool" where
  "is_output_image (OutputItemImage _ _) = True" | "is_output_image _ = False"

definition replace_last_turn_images ::
  "(rstr \<Rightarrow> bool) \<Rightarrow> (rstr \<Rightarrow> bool) \<Rightarrow> rstr \<Rightarrow> 'ctx context_manager \<Rightarrow> 'ctx context_manager \<times> bool" where
  "replace_last_turn_images is_hook is_agent placeholder cm =
     (case rposition (\<lambda>i. is_function_output i \<or> is_user_turn_boundary is_hook is_agent i) (items cm) of
        None \<Rightarrow> (cm, False)
      | Some index \<Rightarrow>
          (case items cm ! index of
             FunctionCallOutput cid output \<Rightarrow>
               (case body output of
                  Text _ \<Rightarrow> (cm, False)
                | ContentItems cs \<Rightarrow>
                    if list_ex is_output_image cs then
                      (bump_version (cm\<lparr>items := (items cm)[index := FunctionCallOutput cid
                         (output\<lparr>body := ContentItems
                            (map (\<lambda>c. if is_output_image c then OutputItemText placeholder else c) cs)\<rparr>)]\<rparr>),
                       True)
                    else (cm, False))
           | _ \<Rightarrow> (cm, False)))"


section \<open>Size estimates\<close>

definition approx_tokens_from_byte_count_i64 :: "int \<Rightarrow> int" where
  "approx_tokens_from_byte_count_i64 bytes =
     (if bytes \<le> 0 then 0 else i64_from_usize (approx_tokens_from_byte_count (nat bytes)))"

definition estimate_reasoning_length :: "nat \<Rightarrow> nat" where
  "estimate_reasoning_length encoded_len = sat_mul encoded_len 3 div 4 - 650"

definition estimate_encrypted_function_output_length :: "nat \<Rightarrow> nat" where
  "estimate_encrypted_function_output_length encoded_len = (sat_mul encoded_len 9 + 15) div 16"

definition RESIZED_IMAGE_BYTES_ESTIMATE :: int where "RESIZED_IMAGE_BYTES_ESTIMATE = 7373"

definition ORIGINAL_IMAGE_PATCH_SIZE :: int where "ORIGINAL_IMAGE_PATCH_SIZE = 32"

definition ORIGINAL_IMAGE_MAX_PATCHES :: nat where "ORIGINAL_IMAGE_MAX_PATCHES = 10000"

definition parse_base64_image_data_url :: "rstr \<Rightarrow> rstr option" where
  "parse_base64_image_data_url url =
     (if \<not> starts_with_ignore_case (lit ''data:'') url then None
      else
        (case position (\<lambda>c. c = 44) url of
           None \<Rightarrow> None
         | Some comma_index \<Rightarrow>
             (let metadata = take comma_index url;
                  payload = drop (comma_index + 1) url;
                  parts = split_on 59 (drop 5 metadata);
                  mime_type = hd parts;
                  has_base64_marker = list_ex (\<lambda>part. to_ascii_lowercase part = lit ''base64'') (tl parts)
              in if \<not> starts_with_ignore_case (lit ''image/'') mime_type then None
                 else if \<not> has_base64_marker then None
                 else Some payload)))"

text \<open>
  \<open>estimate_original_image_bytes\<close>: decoding the payload to the dimensions of the image is a
  parameter; the cache only keeps results of this function.
\<close>

definition estimate_original_image_bytes :: "(rstr \<Rightarrow> (nat \<times> nat) option) \<Rightarrow> rstr \<Rightarrow> int option" where
  "estimate_original_image_bytes decode_image url =
     (case parse_base64_image_data_url url of
        None \<Rightarrow> None
      | Some payload \<Rightarrow>
          (case decode_image payload of
             None \<Rightarrow> None
           | Some (width, height) \<Rightarrow>
               (let patches_wide = i64_sat (int width + (ORIGINAL_IMAGE_PATCH_SIZE - 1)) div ORIGINAL_IMAGE_PATCH_SIZE;
                    patches_high = i64_sat (int height + (ORIGINAL_IMAGE_PATCH_SIZE - 1)) div ORIGINAL_IMAGE_PATCH_SIZE;
                    patch_count = min (nat (i64_sat (patches_wide * patches_high))) ORIGINAL_IMAGE_MAX_PATCHES
                in Some (i64_from_usize (approx_bytes_for_tokens patch_count)))))"

fun item_images :: "response_item \<Rightarrow> (rstr \<times> image_detail option) list" where
  "item_images (Message _ _ content _) =
     List.map_filter (\<lambda>c. case c of InputImage url detail \<Rightarrow> Some (url, detail) | _ \<Rightarrow> None) content"
| "item_images (FunctionCallOutput _ output) =
     (case body output of
        ContentItems cs \<Rightarrow>
          List.map_filter (\<lambda>c. case c of OutputItemImage url detail \<Rightarrow> Some (url, detail) | _ \<Rightarrow> None) cs
      | Text _ \<Rightarrow> [])"
| "item_images (CustomToolCallOutput _ _ output) =
     (case body output of
        ContentItems cs \<Rightarrow>
          List.map_filter (\<lambda>c. case c of OutputItemImage url detail \<Rightarrow> Some (url, detail) | _ \<Rightarrow> None) cs
      | Text _ \<Rightarrow> [])"
| "item_images _ = []"

definition accumulate_image ::
  "(rstr \<Rightarrow> (nat \<times> nat) option) \<Rightarrow> int \<times> int \<Rightarrow> rstr \<times> image_detail option \<Rightarrow> int \<times> int" where
  "accumulate_image decode_image acc img =
     (case acc of (payload_bytes, replacement_bytes) \<Rightarrow>
      case img of (url, detail) \<Rightarrow>
        (case parse_base64_image_data_url url of
           None \<Rightarrow> acc
         | Some payload \<Rightarrow>
             (i64_sat (payload_bytes + i64_from_usize (blen payload)),
              i64_sat (replacement_bytes +
                (case detail of
                   Some Original \<Rightarrow>
                     (case estimate_original_image_bytes decode_image url of
                        Some n \<Rightarrow> n | None \<Rightarrow> RESIZED_IMAGE_BYTES_ESTIMATE)
                 | _ \<Rightarrow> RESIZED_IMAGE_BYTES_ESTIMATE)))))"

definition image_data_url_estimate_adjustment ::
  "(rstr \<Rightarrow> (nat \<times> nat) option) \<Rightarrow> response_item \<Rightarrow> int \<times> int" where
  "image_data_url_estimate_adjustment decode_image item =
     foldl (accumulate_image decode_image) (0, 0) (item_images item)"

fun encrypted_function_output_estimate_adjustment :: "response_item \<Rightarrow> int \<times> int" where
  "encrypted_function_output_estimate_adjustment (FunctionCallOutput _ output) =
     (case body output of
        Text _ \<Rightarrow> (0, 0)
      | ContentItems cs \<Rightarrow>
          foldl (\<lambda>acc c. case c of
              OutputItemEncrypted e \<Rightarrow>
                (i64_sat (fst acc + i64_from_usize (blen e)),
                 i64_sat (snd acc + i64_from_usize (estimate_encrypted_function_output_length (blen e))))
            | _ \<Rightarrow> acc) (0, 0) cs)"
| "encrypted_function_output_estimate_adjustment _ = (0, 0)"

text \<open>\<open>to_json\<close> is \<open>serde_json::to_string\<close>.\<close>

definition estimate_serialized ::
  "(response_item \<Rightarrow> rstr option) \<Rightarrow> (rstr \<Rightarrow> (nat \<times> nat) option) \<Rightarrow> response_item \<Rightarrow> int" where
  "estimate_serialized to_json decode_image item =
     (let raw = (case to_json item of Some s \<Rightarrow> i64_from_usize (blen s) | None \<Rightarrow> 0);
          (image_payload, image_replacement) = image_data_url_estimate_adjustment decode_image item;
          (encrypted_payload, encrypted_replacement) = encrypted_function_output_estimate_adjustment item;
          raw = i64_sat (i64_sat (raw - image_payload) + image_replacement)
      in i64_sat (i64_sat (raw - encrypted_payload) + encrypted_replacement))"

fun estimate_response_item_model_visible_bytes ::
  "(response_item \<Rightarrow> rstr option) \<Rightarrow> (rstr \<Rightarrow> (nat \<times> nat) option) \<Rightarrow> response_item \<Rightarrow> int" where
  "estimate_response_item_model_visible_bytes to_json decode_image (Reasoning a b c (Some content)) =
     i64_from_usize (estimate_reasoning_length (blen content))"
| "estimate_response_item_model_visible_bytes to_json decode_image (Compaction content) =
     i64_from_usize (estimate_reasoning_length (blen content))"
| "estimate_response_item_model_visible_bytes to_json decode_image (ContextCompaction (Some content)) =
     i64_from_usize (estimate_reasoning_length (blen content))"
| "estimate_response_item_model_visible_bytes to_json decode_image item =
     estimate_serialized to_json decode_image item"

definition estimate_item_token_count ::
  "(response_item \<Rightarrow> rstr option) \<Rightarrow> (rstr \<Rightarrow> (nat \<times> nat) option) \<Rightarrow> response_item \<Rightarrow> int" where
  "estimate_item_token_count to_json decode_image item =
     approx_tokens_from_byte_count_i64
       (estimate_response_item_model_visible_bytes to_json decode_image item)"

definition estimate_token_count_with_base_instructions ::
  "(response_item \<Rightarrow> int) \<Rightarrow> rstr \<Rightarrow> 'ctx context_manager \<Rightarrow> int" where
  "estimate_token_count_with_base_instructions estimate base_text cm =
     i64_sat (i64_from_usize (approx_token_count base_text) + i64_sum (map estimate (items cm)))"

fun is_model_generated_item :: "response_item \<Rightarrow> bool" where
  "is_model_generated_item (Message _ role _ _) \<longleftrightarrow> role = lit ''assistant''"
| "is_model_generated_item CompactionTrigger \<longleftrightarrow> False"
| "is_model_generated_item (FunctionCallOutput _ _) \<longleftrightarrow> False"
| "is_model_generated_item (ToolSearchOutput _ _ _ _) \<longleftrightarrow> False"
| "is_model_generated_item (CustomToolCallOutput _ _ _) \<longleftrightarrow> False"
| "is_model_generated_item Other \<longleftrightarrow> False"
| "is_model_generated_item _ \<longleftrightarrow> True"

fun is_codex_generated_item :: "response_item \<Rightarrow> bool" where
  "is_codex_generated_item (FunctionCallOutput _ _) \<longleftrightarrow> True"
| "is_codex_generated_item (ToolSearchOutput _ _ _ _) \<longleftrightarrow> True"
| "is_codex_generated_item (CustomToolCallOutput _ _ _) \<longleftrightarrow> True"
| "is_codex_generated_item (Message _ role _ _) \<longleftrightarrow> role = lit ''developer''"
| "is_codex_generated_item _ \<longleftrightarrow> False"

fun has_encrypted_reasoning :: "response_item \<Rightarrow> bool" where
  "has_encrypted_reasoning (Reasoning _ _ _ (Some _)) = True" | "has_encrypted_reasoning _ = False"

definition get_non_last_reasoning_items_tokens ::
  "(rstr \<Rightarrow> bool) \<Rightarrow> (rstr \<Rightarrow> bool) \<Rightarrow> (response_item \<Rightarrow> int) \<Rightarrow> 'ctx context_manager \<Rightarrow> int" where
  "get_non_last_reasoning_items_tokens is_hook is_agent estimate cm =
     (case rposition (is_user_turn_boundary is_hook is_agent) (items cm) of
        None \<Rightarrow> 0
      | Some last_user_index \<Rightarrow>
          i64_sum (map estimate (filter has_encrypted_reasoning (take last_user_index (items cm)))))"

definition items_after_last_model_generated_item :: "'ctx context_manager \<Rightarrow> response_item list" where
  "items_after_last_model_generated_item cm =
     (case rposition is_model_generated_item (items cm) of
        None \<Rightarrow> []
      | Some index \<Rightarrow> drop (index + 1) (items cm))"

definition get_total_token_usage ::
  "(rstr \<Rightarrow> bool) \<Rightarrow> (rstr \<Rightarrow> bool) \<Rightarrow> (response_item \<Rightarrow> int) \<Rightarrow> bool \<Rightarrow> 'ctx context_manager \<Rightarrow> int" where
  "get_total_token_usage is_hook is_agent estimate server_reasoning_included cm =
     (let last_tokens = (case token_info cm of
            Some info \<Rightarrow> total_tokens (last_token_usage info) | None \<Rightarrow> 0);
          after = i64_sum (map estimate (items_after_last_model_generated_item cm))
      in if server_reasoning_included then i64_sat (last_tokens + after)
         else i64_sat (i64_sat (last_tokens + get_non_last_reasoning_items_tokens is_hook is_agent estimate cm)
                + after))"

record total_token_usage_breakdown =
  last_api_response_total_tokens :: int
  all_history_items_model_visible_bytes :: int
  estimated_tokens_of_items_added :: int
  estimated_bytes_of_items_added :: int

definition get_total_token_usage_breakdown ::
  "(response_item \<Rightarrow> rstr option) \<Rightarrow> (rstr \<Rightarrow> (nat \<times> nat) option) \<Rightarrow> 'ctx context_manager \<Rightarrow>
     total_token_usage_breakdown" where
  "get_total_token_usage_breakdown to_json decode_image cm =
     (let last_usage = (case token_info cm of Some info \<Rightarrow> last_token_usage info | None \<Rightarrow> token_usage_default);
          after = items_after_last_model_generated_item cm;
          bytes = estimate_response_item_model_visible_bytes to_json decode_image
      in \<lparr>last_api_response_total_tokens = total_tokens last_usage,
          all_history_items_model_visible_bytes = i64_sum (map bytes (items cm)),
          estimated_tokens_of_items_added = i64_sum (map (estimate_item_token_count to_json decode_image) after),
          estimated_bytes_of_items_added = i64_sum (map bytes after)\<rparr>)"


section \<open>Rollback\<close>

lemma filter_upt_nth:
  assumes "j < length (filter P [0..<n])" "p = filter P [0..<n] ! j"
  shows "p < n" "P p" "filter P [0..<p] = take j (filter P [0..<n])"
proof -
  have "p \<in> set (filter P [0..<n])" using assms by (metis nth_mem)
  then show p: "p < n" "P p" by auto
  then have "[0..<n] = [0..<p] @ p # [Suc p..<n]"
    by (metis le_add1 add.left_neutral less_imp_le upt_add_eq_append upt_conv_Cons le_add_diff_inverse)
  then have f: "filter P [0..<n] = filter P [0..<p] @ p # filter P [Suc p..<n]" using p(2) by simp
  let ?l = "length (filter P [0..<p])"
  have "distinct (filter P [0..<n])" by simp
  moreover have "?l < length (filter P [0..<n])" "filter P [0..<n] ! ?l = p" using f by simp_all
  ultimately have "j = ?l" using assms by (metis nth_eq_iff_index_eq)
  then show "filter P [0..<p] = take j (filter P [0..<n])" using f by simp
qed

lemma length_filter_take:
  "k \<le> length xs \<Longrightarrow> length (filter B (take k xs)) = length (filter (\<lambda>i. B (xs ! i)) [0..<k])"
proof (induction k)
  case (Suc k)
  then show ?case by (simp add: take_Suc_conv_app_nth)
qed simp

text \<open>The items a rollback trims before a turn; none of them starts a turn.\<close>

fun is_pre_turn_item :: "(rstr \<Rightarrow> bool) \<Rightarrow> response_item \<Rightarrow> bool" where
  "is_pre_turn_item is_hook (Message _ role content _) \<longleftrightarrow>
     (role = lit ''developer'' \<and> is_contextual_dev_message_content content)
     \<or> (role = lit ''user'' \<and> is_contextual_user_message_content is_hook content)"
| "is_pre_turn_item is_hook _ \<longleftrightarrow> False"

lemma pre_turn_not_boundary:
  "is_pre_turn_item is_hook i \<Longrightarrow> \<not> is_user_turn_boundary is_hook is_agent i"
proof -
  have "lit ''developer'' \<noteq> lit ''user''" "lit ''developer'' \<noteq> lit ''assistant''" "lit ''user'' \<noteq> lit ''assistant''"
    by code_simp+
  then show "is_pre_turn_item is_hook i \<Longrightarrow> ?thesis" by (cases i) auto
qed

text \<open>A trimmed developer message that also carries text of its own: the baseline goes with it.\<close>

fun mixes_text :: "response_item \<Rightarrow> bool" where
  "mixes_text (Message _ role content _) \<longleftrightarrow>
     role = lit ''developer'' \<and> \<not> list_all is_contextual_dev_fragment content"
| "mixes_text _ \<longleftrightarrow> False"

lemma trim_step:
  "trim_pre_turn_context_updates is_hook xs first_idx (Suc stop) ref =
     (if first_idx < Suc stop \<and> is_pre_turn_item is_hook (xs ! stop)
      then trim_pre_turn_context_updates is_hook xs first_idx stop (if mixes_text (xs ! stop) then None else ref)
      else (Suc stop, ref))"
proof -
  have r: "lit ''developer'' \<noteq> lit ''user''" by code_simp
  have "has_non_contextual_dev_message_content c \<longleftrightarrow> \<not> list_all is_contextual_dev_fragment c" for c
    by (simp add: has_non_contextual_dev_message_content_def list_ex_iff list_all_iff)
  then show ?thesis
    using r by (subst trim_pre_turn_context_updates.simps) (auto split: response_item.splits)
qed

text \<open>The walk stops after the last item before the cut that is not context, or at the first turn.\<close>

lemma trim_pre_turn_split:
  assumes "first_idx \<le> stop"
  shows "\<exists>stop'. trim_pre_turn_context_updates is_hook xs first_idx stop ref =
      (stop', if list_ex (\<lambda>i. mixes_text (xs ! i)) [stop'..<stop] then None else ref)
    \<and> first_idx \<le> stop' \<and> stop' \<le> stop \<and> list_all (\<lambda>i. is_pre_turn_item is_hook (xs ! i)) [stop'..<stop]
    \<and> (stop' = first_idx \<or> \<not> is_pre_turn_item is_hook (xs ! (stop' - 1)))"
  using assms
proof (induction stop arbitrary: ref)
  case 0
  then show ?case by (simp add: trim_pre_turn_context_updates.simps)
next
  case (Suc stop)
  show ?case
  proof (cases "first_idx < Suc stop \<and> is_pre_turn_item is_hook (xs ! stop)")
    case True
    then obtain stop' where s: "trim_pre_turn_context_updates is_hook xs first_idx stop
        (if mixes_text (xs ! stop) then None else ref) =
        (stop', if list_ex (\<lambda>i. mixes_text (xs ! i)) [stop'..<stop] then None
                else if mixes_text (xs ! stop) then None else ref)"
      "first_idx \<le> stop'" "stop' \<le> stop" "list_all (\<lambda>i. is_pre_turn_item is_hook (xs ! i)) [stop'..<stop]"
      "stop' = first_idx \<or> \<not> is_pre_turn_item is_hook (xs ! (stop' - 1))"
      using Suc.IH by (meson less_Suc_eq_le)
    with True show ?thesis by (intro exI[of _ stop']) (auto simp: trim_step)
  next
    case False
    then show ?thesis
      using Suc.prems by (intro exI[of _ "Suc stop"]) (auto simp: trim_step)
  qed
qed

abbreviation turns :: "(rstr \<Rightarrow> bool) \<Rightarrow> (rstr \<Rightarrow> bool) \<Rightarrow> response_item list \<Rightarrow> nat" where
  "turns is_hook is_agent xs \<equiv> length (filter (is_user_turn_boundary is_hook is_agent) xs)"

lemma turns_positions: "turns is_hook is_agent xs = length (user_message_positions is_hook is_agent xs)"
  using length_filter_take[of "length xs" xs] by (simp add: user_message_positions_def)

lemma drop_last_turns_cases:
  assumes "num_turns \<noteq> 0" "user_message_positions is_hook is_agent (items cm) = first_idx # rest"
    and "stop = (first_idx # rest) ! (length (first_idx # rest) - num_turns)"
    and "trim_pre_turn_context_updates is_hook (items cm) first_idx stop (reference_context_item cm) = (stop', ref')"
  shows "drop_last_n_user_turns is_hook is_agent num_turns cm =
    replace (take stop' (items cm)) (cm\<lparr>reference_context_item := ref'\<rparr>)"
proof -
  have "stop = (if length (first_idx # rest) \<le> num_turns then first_idx
      else (first_idx # rest) ! (length (first_idx # rest) - num_turns))"
    using assms(3) by simp
  then show ?thesis
    using assms(1,4) unfolding drop_last_n_user_turns_def Let_def assms(2) list.case by simp
qed

lemma turns_split:
  "k \<le> length xs \<Longrightarrow> turns is_hook is_agent (drop k xs) = turns is_hook is_agent xs - turns is_hook is_agent (take k xs)"
  by (metis append_take_drop_id diff_add_inverse filter_append length_append)

text \<open>A part of a list by its positions.\<close>

lemma slice_list_ex: "a \<le> b \<Longrightarrow> b \<le> length xs \<Longrightarrow> list_ex (\<lambda>i. P (xs ! i)) [a..<b] = list_ex P (take (b - a) (drop a xs))"
proof -
  assume "a \<le> b" "b \<le> length xs"
  then have "map ((!) xs) [a..<b] = take (b - a) (drop a xs)"
    by (intro nth_equalityI) (simp_all add: add.commute)
  then show ?thesis by (metis (mono_tags, lifting) list.pred_map comp_def list_ex_iff set_map image_iff)
qed

lemma slice_list_all: "a \<le> b \<Longrightarrow> b \<le> length xs \<Longrightarrow> list_all (\<lambda>i. P (xs ! i)) [a..<b] = list_all P (take (b - a) (drop a xs))"
  using slice_list_ex[of a b xs "\<lambda>x. \<not> P x"] by (auto simp: list_ex_iff list_all_iff)

text \<open>
  What a rollback leaves of a history \<open>xs\<close> with turns in it. Everything before the first turn
  stays; the turns that stay end with an item that is not context; the context updates injected
  before the first dropped turn go with it.
\<close>

definition rolled_back ::
  "(rstr \<Rightarrow> bool) \<Rightarrow> (rstr \<Rightarrow> bool) \<Rightarrow> nat \<Rightarrow> response_item list \<Rightarrow>
   response_item list \<Rightarrow> response_item list \<Rightarrow> response_item list \<Rightarrow> response_item list \<Rightarrow> bool" where
  "rolled_back is_hook is_agent num_turns xs pre kept context dropped \<longleftrightarrow>
     xs = pre @ kept @ context @ dropped
     \<and> turns is_hook is_agent pre = 0
     \<and> (if kept = [] then context = []
        else is_user_turn_boundary is_hook is_agent (hd kept) \<and> \<not> is_pre_turn_item is_hook (last kept))
     \<and> list_all (is_pre_turn_item is_hook) context
     \<and> dropped \<noteq> [] \<and> is_user_turn_boundary is_hook is_agent (hd dropped)
     \<and> turns is_hook is_agent dropped = min num_turns (turns is_hook is_agent xs)"

lemma rollback_cut:
  assumes "num_turns \<noteq> 0" "user_message_positions is_hook is_agent xs = first_idx # rest"
    and "stop = (first_idx # rest) ! (length (first_idx # rest) - num_turns)"
  shows "stop < length xs" "is_user_turn_boundary is_hook is_agent (xs ! stop)"
    and "turns is_hook is_agent (drop stop xs) = min num_turns (turns is_hook is_agent xs)"
    and "first_idx \<le> stop" "turns is_hook is_agent (take first_idx xs) = 0"
    and "is_user_turn_boundary is_hook is_agent (xs ! first_idx)"
proof -
  let ?B = "is_user_turn_boundary is_hook is_agent" and ?ps = "first_idx # rest"
  let ?j = "length ?ps - num_turns"
  have ps: "filter (\<lambda>i. ?B (xs ! i)) [0..<length xs] = ?ps"
    using assms(2) by (simp add: user_message_positions_def)
  have j: "?j < length ?ps" using assms(1) by simp
  note at = filter_upt_nth[of _ "\<lambda>i. ?B (xs ! i)" "length xs", unfolded ps]
  show stop: "stop < length xs" "?B (xs ! stop)" using at(1,2)[OF j assms(3)] by blast+
  have "turns is_hook is_agent (take stop xs) = ?j"
    using stop(1) at(3)[OF j assms(3)] j by (simp add: length_filter_take)
  moreover have "turns is_hook is_agent xs = length ?ps" using assms(2) by (simp only: turns_positions)
  ultimately show "turns is_hook is_agent (drop stop xs) = min num_turns (turns is_hook is_agent xs)"
    using turns_split[of stop xs is_hook is_agent] stop(1) by simp
  have "sorted ?ps" using ps by (metis sorted_upt sorted_wrt_filter)
  then show "first_idx \<le> stop" unfolding assms(3) using j by (cases ?j) auto
  have f: "(0 :: nat) < length ?ps" "first_idx = ?ps ! 0" by simp_all
  show "?B (xs ! first_idx)" by (rule at(2)[OF f])
  show "turns is_hook is_agent (take first_idx xs) = 0"
    using at(1,3)[OF f] by (simp add: length_filter_take)
qed

lemma rolled_back_slices:
  assumes "turns is_hook is_agent (take first_idx xs) = 0" "is_user_turn_boundary is_hook is_agent (xs ! first_idx)"
    and "first_idx \<le> stop'" "stop' \<le> stop" "list_all (\<lambda>i. is_pre_turn_item is_hook (xs ! i)) [stop'..<stop]"
    and "stop' = first_idx \<or> \<not> is_pre_turn_item is_hook (xs ! (stop' - 1))"
    and "stop < length xs" "is_user_turn_boundary is_hook is_agent (xs ! stop)"
    and "turns is_hook is_agent (drop stop xs) = min num_turns (turns is_hook is_agent xs)"
  shows "rolled_back is_hook is_agent num_turns xs (take first_idx xs) (take (stop' - first_idx) (drop first_idx xs))
    (take (stop - stop') (drop stop' xs)) (drop stop xs)"
proof -
  let ?kept = "take (stop' - first_idx) (drop first_idx xs)"
  have whole: "xs = take first_idx xs @ ?kept @ take (stop - stop') (drop stop' xs) @ drop stop xs"
  proof -
    have "drop stop' xs = take (stop - stop') (drop stop' xs) @ drop stop xs"
      using assms(4) by (metis append_take_drop_id drop_drop le_add_diff_inverse2)
    moreover have "drop first_idx xs = ?kept @ drop stop' xs"
      using assms(3) by (metis append_take_drop_id drop_drop le_add_diff_inverse2)
    ultimately show ?thesis by (metis append_take_drop_id)
  qed
  have ends: "if ?kept = [] then take (stop - stop') (drop stop' xs) = []
      else is_user_turn_boundary is_hook is_agent (hd ?kept) \<and> \<not> is_pre_turn_item is_hook (last ?kept)"
  proof (cases "stop' = first_idx")
    case True
    have "stop = first_idx"
    proof (rule ccontr)
      assume "stop \<noteq> first_idx"
      then have "is_pre_turn_item is_hook (xs ! first_idx)" using assms(4,5) True by (simp add: list_all_iff)
      then show False using pre_turn_not_boundary assms(2) by blast
    qed
    then show ?thesis using True by simp
  next
    case False
    then have len: "length ?kept = stop' - first_idx" "0 < stop' - first_idx" using assms(3,4,7) by simp_all
    then have "?kept \<noteq> []" by auto
    then have "hd ?kept = xs ! first_idx" "last ?kept = xs ! (stop' - 1)"
      using len assms(3,4,7) by (simp_all add: hd_drop_conv_nth last_conv_nth)
    then show ?thesis using \<open>?kept \<noteq> []\<close> assms(2,6) False by simp
  qed
  have "hd (drop stop xs) = xs ! stop" using assms(7) by (rule hd_drop_conv_nth)
  then show ?thesis
    unfolding rolled_back_def
    using whole ends assms(1,4,5,7-9) slice_list_all[of stop' stop xs "is_pre_turn_item is_hook"] by simp
qed

text \<open>
  C24. Rolling back \<open>num_turns\<close> user turns. Without turns in the history nothing is dropped.
  Otherwise the last \<open>num_turns\<close> turns are dropped (all of them, when there are not more), with
  the context updates injected immediately before the first of them, and nothing else: the items
  before the first turn stay, and what stays does not end in context updates of a dropped turn.
  The baseline for context updates is forgotten exactly when one of the dropped updates was mixed
  with other developer text. Every rollback of at least one turn counts as a rewrite of the
  history, also when there was nothing to drop (the comment calls that case a no-op).
\<close>

theorem rollback_drops_turns:
  "let xs = items cm; cm' = drop_last_n_user_turns is_hook is_agent num_turns cm in
   if num_turns = 0 then cm' = cm
   else if turns is_hook is_agent xs = 0
   then cm' = cm\<lparr>history_version := sat_add (history_version cm) 1\<rparr>
   else \<exists>pre kept context dropped.
     rolled_back is_hook is_agent num_turns xs pre kept context dropped
     \<and> cm' = cm\<lparr>items := pre @ kept, history_version := sat_add (history_version cm) 1,
               reference_context_item := (if list_ex mixes_text context then None else reference_context_item cm)\<rparr>"
proof -
  let ?xs = "items cm" and ?cm = "drop_last_n_user_turns is_hook is_agent num_turns cm"
  show ?thesis
  proof (cases "user_message_positions is_hook is_agent ?xs")
    case Nil
    then have "turns is_hook is_agent ?xs = 0" by (simp only: turns_positions) simp
    then show ?thesis
      using Nil by (cases cm) (simp add: drop_last_n_user_turns_def replace_def bump_version_def Let_def)
  next
    case (Cons first_idx rest)
    have some: "turns is_hook is_agent ?xs \<noteq> 0" using Cons by (simp only: turns_positions) simp
    show ?thesis
    proof (cases "num_turns = 0")
      case False
      define stop where "stop = (first_idx # rest) ! (length (first_idx # rest) - num_turns)"
      note cut = rollback_cut[OF False Cons stop_def]
      obtain stop' where trim: "trim_pre_turn_context_updates is_hook ?xs first_idx stop (reference_context_item cm) =
          (stop', if list_ex (\<lambda>i. mixes_text (?xs ! i)) [stop'..<stop] then None else reference_context_item cm)"
        and T: "first_idx \<le> stop'" "stop' \<le> stop" "list_all (\<lambda>i. is_pre_turn_item is_hook (?xs ! i)) [stop'..<stop]"
          "stop' = first_idx \<or> \<not> is_pre_turn_item is_hook (?xs ! (stop' - 1))"
        using trim_pre_turn_split[OF cut(4)] by blast
      let ?pre = "take first_idx ?xs" and ?kept = "take (stop' - first_idx) (drop first_idx ?xs)"
      let ?ctx = "take (stop - stop') (drop stop' ?xs)" and ?drop = "drop stop ?xs"
      have xs: "take stop' ?xs = ?pre @ ?kept" using T(1) by (metis le_add_diff_inverse take_add)
      have "rolled_back is_hook is_agent num_turns ?xs ?pre ?kept ?ctx ?drop"
        by (rule rolled_back_slices[OF cut(5,6) T cut(1-3)])
      moreover have "?cm = cm\<lparr>items := ?pre @ ?kept, history_version := sat_add (history_version cm) 1,
          reference_context_item := (if list_ex mixes_text ?ctx then None else reference_context_item cm)\<rparr>"
        using drop_last_turns_cases[OF False Cons stop_def trim] slice_list_ex[of stop' stop ?xs mixes_text] T(2) cut(1)
        by (simp add: replace_def bump_version_def xs)
      ultimately show ?thesis using False some by (simp add: Let_def) blast
    qed (simp add: drop_last_n_user_turns_def)
  qed
qed

definition sample_history :: "unit context_manager" where
  "sample_history = \<lparr>items =
     [Message None (lit ''user'') [InputText (lit ''one'')] None,
      Message None (lit ''assistant'') [OutputText (lit ''ok'')] None,
      Message None (lit ''developer'') [InputText (lit ''<model_switch>x'')] None,
      Message None (lit ''user'') [InputText (lit ''two'')] None],
     history_version = 0, token_info = None, reference_context_item = Some ()\<rparr>"

lemma rollback_sample:
  "items (drop_last_n_user_turns (\<lambda>_. False) (\<lambda>_. False) 1 sample_history) = take 2 (items sample_history)"
  by code_simp

section \<open>Removal and recording\<close>

text \<open>
  Removing the oldest or the newest item together with its counterpart keeps a history in
  which calls and outputs are paired one to one, without another normalisation.
\<close>

theorem removal_keeps_pairs:
  assumes "paired (items cm)"
  shows "paired (items (remove_first_item cm)) \<and> paired (items (fst (remove_last_item cm)))"
proof -
  have first: "paired (remove_corresponding_for xs x)" if "paired (x # xs)" for x xs
  proof -
    have "distinct (call_keys xs)" "distinct (output_keys xs)"
      using that map_filter_subset[of xs "x # xs"] by (auto simp: paired_def call_keys_def output_keys_def)
    from remove_corresponding_filter[OF this, of x] paired_remove[of "[]" x xs] that show ?thesis by simp
  qed
  have last: "paired (remove_corresponding_for xs x)" if "paired (xs @ [x])" for x xs
  proof -
    have "distinct (call_keys xs)" "distinct (output_keys xs)"
      using that map_filter_subset[of xs "xs @ [x]"] by (auto simp: paired_def call_keys_def output_keys_def)
    from remove_corresponding_filter[OF this, of x] paired_remove[of xs x "[]"] that show ?thesis by simp
  qed
  show ?thesis
    using assms first last[of "butlast (items cm)" "last (items cm)"]
    by (cases "items cm") (auto simp: remove_first_item_def remove_last_item_def bump_version_def)
qed

theorem removal_keeps_pairs_witness:
  "items (remove_first_item \<lparr>items = [FunctionCall None (lit ''f'') None [] (lit ''1''),
      FunctionCall None (lit ''g'') None [] (lit ''2''), FunctionCallOutput (lit ''1'') aborted,
      FunctionCallOutput (lit ''2'') aborted], history_version = 0, token_info = None,
      reference_context_item = None\<rparr> :: unit context_manager)
    = [FunctionCall None (lit ''g'') None [] (lit ''2''), FunctionCallOutput (lit ''2'') aborted]
   \<and> paired [FunctionCall None (lit ''g'') None [] (lit ''2''), FunctionCallOutput (lit ''2'') aborted]"
proof -
  let ?cm = "\<lparr>items = [FunctionCall None (lit ''f'') None [] (lit ''1''),
      FunctionCall None (lit ''g'') None [] (lit ''2''), FunctionCallOutput (lit ''1'') aborted,
      FunctionCallOutput (lit ''2'') aborted], history_version = 0, token_info = None,
      reference_context_item = None\<rparr> :: unit context_manager"
  have "paired (items ?cm)" by code_simp
  moreover have "items (remove_first_item ?cm)
      = [FunctionCall None (lit ''g'') None [] (lit ''2''), FunctionCallOutput (lit ''2'') aborted]" by code_simp
  ultimately show ?thesis using removal_keeps_pairs[of ?cm] by simp
qed

fun output_payload :: "response_item \<Rightarrow> function_call_output_payload option" where
  "output_payload (FunctionCallOutput _ output) = Some output"
| "output_payload (CustomToolCallOutput _ _ output) = Some output"
| "output_payload _ = None"

definition small_payload :: "function_call_output_payload \<Rightarrow> bool" where
  "small_payload p \<longleftrightarrow> (case body p of Text t \<Rightarrow> blen t \<le> USIZE_MAX | ContentItems cs \<Rightarrow> small_texts cs)"

lemma truncate_payload_total: "small_payload p \<Longrightarrow> truncate_function_output_payload p policy \<noteq> None"
  using truncate_text_total truncate_items_total[of _ policy "policy_budget policy" 0]
  by (fastforce simp: truncate_function_output_payload_def small_payload_def
      truncate_function_output_items_with_policy_def split: function_call_output_body.splits)

lemma process_item_keys:
  assumes "\<And>p. output_payload i = Some p \<Longrightarrow> small_payload p"
  shows "\<exists>j. process_item i policy = Some j \<and> call_key j = call_key i \<and> output_key j = output_key i
    \<and> (output_payload i = None \<longrightarrow> j = i)"
  using assms truncate_payload_total[of _ "with_serialization_budget policy"] by (cases i) fastforce+

text \<open>
  Recording items never fails and only appends: the items that are not system or internal
  messages, in order, each unchanged unless it is a tool output, whose text may be truncated but
  whose call it answers stays the same.
\<close>

theorem record_items_appends:
  assumes "\<forall>i \<in> set new. \<forall>p. output_payload i = Some p \<longrightarrow> small_payload p"
  shows "\<exists>recorded. record_items new policy cm = Some (cm\<lparr>items := items cm @ recorded\<rparr>)
    \<and> list_all2 (\<lambda>i j. call_key j = call_key i \<and> output_key j = output_key i
         \<and> (output_payload i = None \<longrightarrow> j = i)) (filter is_api_message new) recorded"
  using assms
proof (induction new arbitrary: cm)
  case (Cons i new)
  show ?case
  proof (cases "is_api_message i")
    case True
    obtain j where j: "process_item i policy = Some j" "call_key j = call_key i" "output_key j = output_key i"
      "output_payload i = None \<longrightarrow> j = i" using process_item_keys[of i policy] Cons.prems by auto
    obtain rec where "record_items new policy (cm\<lparr>items := items cm @ [j]\<rparr>)
        = Some (cm\<lparr>items := items cm @ j # rec\<rparr>)"
      "list_all2 (\<lambda>i j. call_key j = call_key i \<and> output_key j = output_key i
         \<and> (output_payload i = None \<longrightarrow> j = i)) (filter is_api_message new) rec"
      using Cons.IH[of "cm\<lparr>items := items cm @ [j]\<rparr>"] Cons.prems by auto
    with True j show ?thesis by (intro exI[of _ "j # rec"]) simp
  next
    case False
    with Cons show ?thesis by auto
  qed
qed (auto intro: exI[of _ "[]"])

theorem record_items_appends_witness:
  "\<exists>recorded. record_items [Message None (lit ''system'') [] None, FunctionCallOutput (lit ''1'') aborted]
      (Bytes 3) sample_history = Some (sample_history\<lparr>items := items sample_history @ recorded\<rparr>)
    \<and> length recorded = 1"
proof -
  have "small_payload aborted" by (simp add: small_payload_def aborted_def payload_from_text_def) code_simp
  then have h: "\<forall>i \<in> set [Message None (lit ''system'') [] None, FunctionCallOutput (lit ''1'') aborted].
      \<forall>p. output_payload i = Some p \<longrightarrow> small_payload p" by simp
  have "filter is_api_message [Message None (lit ''system'') [] None, FunctionCallOutput (lit ''1'') aborted]
      = [FunctionCallOutput (lit ''1'') aborted]" by code_simp
  with record_items_appends[OF h, of "Bytes 3" sample_history] obtain recorded where
    "record_items [Message None (lit ''system'') [] None, FunctionCallOutput (lit ''1'') aborted]
      (Bytes 3) sample_history = Some (sample_history\<lparr>items := items sample_history @ recorded\<rparr>)"
    "length recorded = 1"
    using list_all2_lengthD by fastforce
  then show ?thesis by blast
qed


section \<open>Usage\<close>

lemma i64_sat_mono: "x \<le> y \<Longrightarrow> i64_sat x \<le> i64_sat y"
  by (simp add: i64_sat_def)

lemma i64_sat_bounds: "I64_MIN \<le> i64_sat x" "i64_sat x \<le> I64_MAX"
  by (simp_all add: i64_sat_def I64_MIN_def I64_MAX_def)

lemma i64_sat_id: "I64_MIN \<le> x \<Longrightarrow> x \<le> I64_MAX \<Longrightarrow> i64_sat x = x"
  by (simp add: i64_sat_def)

lemma i64_sum_nonneg:
  assumes "\<And>x. x \<in> set xs \<Longrightarrow> 0 \<le> x"
  shows "0 \<le> i64_sum xs"
proof -
  have "0 \<le> foldl (\<lambda>a b. i64_sat (a + b)) a xs" if "0 \<le> a" for a
    using that assms
  proof (induction xs arbitrary: a)
    case (Cons x xs)
    have "0 \<le> i64_sat (a + x)"
      using Cons.prems(1) Cons.prems(2)[of x] by (simp add: i64_sat_def I64_MIN_def I64_MAX_def)
    with Cons show ?case by simp
  qed simp
  then show ?thesis by (simp add: i64_sum_def)
qed

lemma estimate_item_nonneg: "0 \<le> estimate_item_token_count to_json decode_image i"
  by (simp add: estimate_item_token_count_def approx_tokens_from_byte_count_i64_def i64_from_usize_def
      I64_MAX_def)

text \<open>
  C35. The total usage the client works with is never below the usage the server last reported,
  is not lowered by counting earlier reasoning that the server did not include, and stays within
  the 64-bit range.
\<close>

theorem total_usage_bounds:
  assumes "token_info cm = Some info" "last_tokens = total_tokens (last_token_usage info)"
    and "I64_MIN \<le> last_tokens" "last_tokens \<le> I64_MAX"
    and "estimate = estimate_item_token_count to_json decode_image"
  shows "last_tokens \<le> get_total_token_usage is_hook is_agent estimate True cm
    \<and> get_total_token_usage is_hook is_agent estimate True cm
      \<le> get_total_token_usage is_hook is_agent estimate False cm
    \<and> get_total_token_usage is_hook is_agent estimate False cm \<le> I64_MAX"
proof -
  define after where "after = i64_sum (map estimate (items_after_last_model_generated_item cm))"
  define reasoning where "reasoning = get_non_last_reasoning_items_tokens is_hook is_agent estimate cm"
  have nn: "0 \<le> after" "0 \<le> reasoning"
    unfolding after_def reasoning_def get_non_last_reasoning_items_tokens_def assms(5)
    by (auto intro!: i64_sum_nonneg simp: estimate_item_nonneg split: option.splits)
  have keep: "x \<le> i64_sat (x + y)" if "I64_MIN \<le> x" "x \<le> I64_MAX" "0 \<le> y" for x y
    using i64_sat_mono[of x "x + y"] i64_sat_id[of x] that by simp
  have "last_tokens \<le> i64_sat (last_tokens + after)" using keep assms(3,4) nn(1) by blast
  moreover have "i64_sat (last_tokens + after) \<le> i64_sat (i64_sat (last_tokens + reasoning) + after)"
    using keep[OF assms(3,4) nn(2)] by (intro i64_sat_mono) simp
  ultimately show ?thesis
    using assms(1,2) i64_sat_bounds(2)
    by (simp add: get_total_token_usage_def Let_def after_def reasoning_def)
qed

theorem total_usage_bounds_witness:
  "\<exists>info. token_info (update_token_info (token_usage_default\<lparr>total_tokens := 7\<rparr>) None sample_history) = Some info
    \<and> 7 \<le> get_total_token_usage (\<lambda>_. False) (\<lambda>_. False)
        (estimate_item_token_count (\<lambda>_. Some (lit ''abcde'')) (\<lambda>_. None)) True
        (update_token_info (token_usage_default\<lparr>total_tokens := 7\<rparr>) None sample_history)"
proof -
  let ?cm = "update_token_info (token_usage_default\<lparr>total_tokens := 7\<rparr>) None sample_history"
  obtain info where info: "token_info ?cm = Some info" "total_tokens (last_token_usage info) = 7"
    by (simp add: update_token_info_def new_or_append_def append_last_usage_def Let_def)
  have "I64_MIN \<le> 7" "7 \<le> I64_MAX" by (simp_all add: I64_MIN_def I64_MAX_def)
  from total_usage_bounds[OF info(1) info(2)[symmetric] this refl] info(1) show ?thesis by blast
qed

end
