(* ===== verification/Loop_Guard.thy ===== *)
theory Loop_Guard
  imports Protocol_Models "HOL-Library.Word"
begin

text \<open>
  \<open>core/src/pathology.rs\<close>: the penalties and clean retries that answer a looping completion. The
  arithmetic of \<open>f32\<close> is a parameter; the counters are 32-bit words.
\<close>

section \<open>Parameters\<close>

record 'f f32_ops =
  f_zero :: 'f
  f_add :: "'f \<Rightarrow> 'f \<Rightarrow> 'f"
  f_mul :: "'f \<Rightarrow> 'f \<Rightarrow> 'f"
  f_of_u32 :: "32 word \<Rightarrow> 'f"
  f_positive :: "'f \<Rightarrow> bool"
  f_show :: "'f \<Rightarrow> rstr"

record 'f pathology_params =
  repeat_stop :: bool
  ngram_penalty_scale :: 'f
  ngram_penalty_step :: 'f
  ngram_penalty_start_n :: "32 word"
  ngram_penalty_max :: 'f
  backtrack_on_repetition :: bool
  resamples :: "32 word"

definition u32_sat_sub :: "32 word \<Rightarrow> 32 word \<Rightarrow> 32 word" where
  "u32_sat_sub a b = (if a < b then 0 else a - b)"

section \<open>Penalty state\<close>

datatype trigger = Loop | RepeatedToolCall

fun trigger_as_str :: "trigger \<Rightarrow> rstr" where
  "trigger_as_str Loop = lit ''loop''"
| "trigger_as_str RepeatedToolCall = lit ''repeated_tool_call''"

record 'f pathology_state =
  active :: bool
  consecutive_failures :: "32 word"
  scale :: 'f
  start_n :: "32 word"
  spans :: "rstr list"
  failed_since_begin :: bool
  clean_finish :: bool

definition MAX_SPAN_CHARS :: nat where "MAX_SPAN_CHARS = 4000"

definition MAX_SPANS :: nat where "MAX_SPANS = 16"

definition pathology_default :: "'f f32_ops \<Rightarrow> 'f pathology_state" where
  "pathology_default ops = \<lparr>active = False, consecutive_failures = 0, scale = f_zero ops, start_n = 0,
     spans = [], failed_since_begin = False, clean_finish = False\<rparr>"

definition begin_call :: "'f f32_ops \<Rightarrow> 'f pathology_state \<Rightarrow> 'f pathology_state" where
  "begin_call ops st =
     (let st = (if clean_finish st \<and> \<not> failed_since_begin st then pathology_default ops else st)
      in st\<lparr>failed_since_begin := False, clean_finish := False\<rparr>)"

definition note_clean_finish :: "'f pathology_state \<Rightarrow> 'f pathology_state" where
  "note_clean_finish st = st\<lparr>clean_finish := True\<rparr>"

definition trim_span :: "rstr \<Rightarrow> rstr" where
  "trim_span span =
     (let count = length span in
      if count \<le> MAX_SPAN_CHARS then span else drop (count - MAX_SPAN_CHARS) span)"

definition push_span :: "rstr list \<Rightarrow> rstr \<Rightarrow> rstr list" where
  "push_span known span =
     (let span = trim_span span in
      if span = [] \<or> span \<in> set known then known else known @ [span])"

definition on_failure ::
  "'f f32_ops \<Rightarrow> trigger \<Rightarrow> rstr list \<Rightarrow> 'f pathology_params \<Rightarrow> 'f pathology_state \<Rightarrow> 'f pathology_state" where
  "on_failure ops trigger new_spans params st =
     (let failures = consecutive_failures st + 1 in
      st\<lparr>clean_finish := False, failed_since_begin := True, consecutive_failures := failures,
         scale := f_add ops (ngram_penalty_scale params)
           (f_mul ops (ngram_penalty_step params) (f_of_u32 ops (failures - 1))),
         start_n := max (u32_sat_sub (ngram_penalty_start_n params) (failures - 1)) 1,
         active := f_positive ops (ngram_penalty_scale params),
         spans := evict_front MAX_SPANS (foldl push_span (spans st) new_spans)\<rparr>)"

text \<open>The order of the entries of an object is not significant.\<close>

definition request_extra :: "'f f32_ops \<Rightarrow> 'f pathology_params \<Rightarrow> 'f pathology_state \<Rightarrow> json option" where
  "request_extra ops params st =
     (let extra =
        (if repeat_stop params then [(lit ''repeat_stop'', JObject [])] else [])
        @ (if active st \<and> spans st \<noteq> [] \<and> f_positive ops (scale st) then
             [(lit ''ngram_penalty'',
               JObject [(lit ''spans'', JArray (map JString (spans st))),
                        (lit ''start_n'', JNumber (show_nat (unat (start_n st)))),
                        (lit ''scale'', JNumber (f_show ops (scale st))),
                        (lit ''max'', JNumber (f_show ops (ngram_penalty_max params)))])]
           else [])
      in if extra = [] then None else Some (JObject extra))"

section \<open>Clean retries\<close>

record resample_state =
  used :: "32 word"
  requested :: bool

definition resample_default :: resample_state where
  "resample_default = \<lparr>used = 0, requested = False\<rparr>"

definition try_claim :: "32 word \<Rightarrow> resample_state \<Rightarrow> resample_state \<times> bool" where
  "try_claim budget st = (if used st < budget then (st\<lparr>used := used st + 1\<rparr>, True) else (st, False))"

definition request_repeated_call :: "32 word \<Rightarrow> resample_state \<Rightarrow> resample_state \<times> bool" where
  "request_repeated_call budget st =
     (if requested st then (st, True)
      else if used st < budget then (st\<lparr>used := used st + 1, requested := True\<rparr>, True)
      else (st, False))"

definition take_requested :: "resample_state \<Rightarrow> resample_state \<times> bool" where
  "take_requested st = (st\<lparr>requested := False\<rparr>, requested st)"

definition resample_reset :: "resample_state \<Rightarrow> resample_state" where
  "resample_reset st = resample_default"

section \<open>Statistics of a completion\<close>

text \<open>
  The static map of repetition statistics: created at the first insertion; a poisoned lock makes
  both operations do nothing.
\<close>

type_synonym repetition_stats = "(rstr \<times> nat \<rightharpoonup> json) option"

definition store_repetition_stats ::
  "bool \<Rightarrow> rstr \<Rightarrow> nat \<Rightarrow> json \<Rightarrow> repetition_stats \<Rightarrow> repetition_stats" where
  "store_repetition_stats poisoned thread_id call_ordinal stats m =
     (if poisoned then m
      else Some ((case m of Some f \<Rightarrow> f | None \<Rightarrow> Map.empty)((thread_id, call_ordinal) \<mapsto> stats)))"

definition take_repetition_stats ::
  "bool \<Rightarrow> rstr \<Rightarrow> nat \<Rightarrow> repetition_stats \<Rightarrow> repetition_stats \<times> json option" where
  "take_repetition_stats poisoned thread_id call_ordinal m =
     (if poisoned then (m, None)
      else case m of
        None \<Rightarrow> (None, None)
      | Some f \<Rightarrow> (Some (f((thread_id, call_ordinal) := None)), f (thread_id, call_ordinal)))"

definition loop_span :: "rstr option \<Rightarrow> json option \<Rightarrow> rstr option" where
  "loop_span finish_reason stats =
     (let flagged = (case Option.bind (Option.bind stats (json_get (lit ''flagged''))) json_as_bool of
            Some b \<Rightarrow> b | None \<Rightarrow> False);
          is_loop = finish_reason = Some (lit ''repetition'')
            \<or> (finish_reason = Some (lit ''length'') \<and> flagged)
      in if \<not> is_loop then None
         else Some (case Option.bind (Option.bind stats (json_get (lit ''gram_text''))) json_as_str of
            Some s \<Rightarrow> s | None \<Rightarrow> []))"

section \<open>The reference spans\<close>

datatype pathology_op = BeginCall | NoteCleanFinish | OnFailure trigger "rstr list"

fun pathology_step ::
  "'f f32_ops \<Rightarrow> 'f pathology_params \<Rightarrow> 'f pathology_state \<Rightarrow> pathology_op \<Rightarrow> 'f pathology_state" where
  "pathology_step ops params st BeginCall = begin_call ops st"
| "pathology_step ops params st NoteCleanFinish = note_clean_finish st"
| "pathology_step ops params st (OnFailure t ss) = on_failure ops t ss params st"

definition spans_ok :: "'f pathology_state \<Rightarrow> bool" where
  "spans_ok st \<longleftrightarrow> length (spans st) \<le> MAX_SPANS \<and> distinct (spans st)
     \<and> list_all (\<lambda>s. s \<noteq> [] \<and> length s \<le> MAX_SPAN_CHARS) (spans st)"

abbreviation good_spans :: "rstr list \<Rightarrow> bool" where
  "good_spans ss \<equiv> distinct ss \<and> list_all (\<lambda>s. s \<noteq> [] \<and> length s \<le> MAX_SPAN_CHARS) ss"

lemma push_span_good: "good_spans known \<Longrightarrow> good_spans (push_span known span)"
  by (auto simp: push_span_def trim_span_def Let_def)

lemma foldl_push_span_good: "good_spans known \<Longrightarrow> good_spans (foldl push_span known new)"
  by (induction new arbitrary: known) (simp_all add: push_span_good del: not_None_eq)

lemma evict_good: "good_spans ss \<Longrightarrow> good_spans (evict_front n ss)"
  using set_drop_subset[of "length ss - n" ss] by (auto simp: evict_front_drop list_all_iff)

interpretation penalty_spans: preserves "pathology_step ops params" spans_ok
  for ops :: "'f f32_ops" and params
proof
  fix st :: "'f pathology_state" and i
  assume "spans_ok st"
  then show "spans_ok (pathology_step ops params st i)"
    using evict_good[OF foldl_push_span_good[of "spans st"], of MAX_SPANS]
    by (cases i) (auto simp: spans_ok_def begin_call_def note_clean_finish_def on_failure_def
        pathology_default_def Let_def)
qed

text \<open>
  Whatever the sequence of completions, the reference spans sent for the penalty are at most
  sixteen, pairwise different, not empty, and at most four thousand characters long.
\<close>

theorem penalty_spans_bounded:
  "spans_ok (foldl (pathology_step ops params) (pathology_default ops) trace)"
  by (rule penalty_spans.run_inv) (simp add: spans_ok_def pathology_default_def)

section \<open>Escalation\<close>

definition failing_round ::
  "'f f32_ops \<Rightarrow> 'f pathology_params \<Rightarrow> 'f pathology_state \<Rightarrow> trigger \<times> rstr list \<Rightarrow> 'f pathology_state" where
  "failing_round ops params st r = on_failure ops (fst r) (snd r) params (begin_call ops st)"

lemma failing_rounds:
  assumes "length rounds < 2 ^ 32" "st = foldl (failing_round ops params) (pathology_default ops) rounds"
  shows "consecutive_failures st = of_nat (length rounds) \<and> \<not> clean_finish st
    \<and> (rounds \<noteq> [] \<longrightarrow> failed_since_begin st
        \<and> scale st = f_add ops (ngram_penalty_scale params)
            (f_mul ops (ngram_penalty_step params) (f_of_u32 ops (of_nat (length rounds - 1))))
        \<and> start_n st = max (u32_sat_sub (ngram_penalty_start_n params) (of_nat (length rounds - 1))) 1
        \<and> active st = f_positive ops (ngram_penalty_scale params))"
  using assms
proof (induction rounds arbitrary: st rule: rev_induct)
  case (snoc r rounds)
  define st0 where "st0 = foldl (failing_round ops params) (pathology_default ops) rounds"
  have IH: "consecutive_failures st0 = of_nat (length rounds)" "\<not> clean_finish st0"
    using snoc.IH[OF _ st0_def] snoc.prems(1) by simp_all
  have "st = on_failure ops (fst r) (snd r) params (begin_call ops st0)"
    using snoc.prems(2) by (simp add: st0_def flip: failing_round_def)
  with IH show ?case by (simp add: begin_call_def on_failure_def Let_def)
qed (simp add: pathology_default_def)

lemma unat_escalated_start:
  assumes "n < 2 ^ 32"
  shows "unat (max (u32_sat_sub a (of_nat n)) 1) = max (unat a - n) 1"
proof -
  have n: "unat (of_nat n :: 32 word) = n" using assms by (simp add: unat_of_nat)
  have sub: "unat (u32_sat_sub a (of_nat n)) = unat a - n"
    by (auto simp: u32_sat_sub_def word_less_nat_alt unat_sub_if' n)
  then show ?thesis
    by (auto simp: max_def word_le_nat_alt)
qed

text \<open>
  After \<open>n\<close> consecutive failing completions the penalty scale is the base plus \<open>n - 1\<close> steps
  and the first penalised match length has dropped by \<open>n - 1\<close>, but not below one; the first clean
  completion clears everything.
\<close>

theorem penalty_escalates_and_resets:
  assumes "rounds \<noteq> []" "length rounds < 2 ^ 32"
    and "st = foldl (failing_round ops params) (pathology_default ops) rounds"
  shows "unat (consecutive_failures st) = length rounds
    \<and> scale st = f_add ops (ngram_penalty_scale params)
        (f_mul ops (ngram_penalty_step params) (f_of_u32 ops (of_nat (length rounds - 1))))
    \<and> unat (start_n st) = max (unat (ngram_penalty_start_n params) - (length rounds - 1)) 1
    \<and> active st = f_positive ops (ngram_penalty_scale params)
    \<and> begin_call ops st = st\<lparr>failed_since_begin := False\<rparr>
    \<and> begin_call ops (note_clean_finish (begin_call ops st)) = pathology_default ops"
proof -
  note R = failing_rounds[OF assms(2,3)]
  have "unat (consecutive_failures st) = length rounds" using R assms(2) by (simp add: unat_of_nat)
  moreover have "unat (start_n st) = max (unat (ngram_penalty_start_n params) - (length rounds - 1)) 1"
    using R assms(1,2) unat_escalated_start[of "length rounds - 1" "ngram_penalty_start_n params"] by simp
  moreover have "begin_call ops st = st\<lparr>failed_since_begin := False\<rparr>"
    using R by (cases st) (simp add: begin_call_def)
  moreover have "begin_call ops (note_clean_finish (begin_call ops st)) = pathology_default ops"
    using R by (simp add: begin_call_def note_clean_finish_def pathology_default_def Let_def)
  ultimately show ?thesis using R assms(1) by simp
qed

definition int_ops :: "int f32_ops" where
  "int_ops = \<lparr>f_zero = 0, f_add = (+), f_mul = (*), f_of_u32 = uint, f_positive = (\<lambda>x. 0 < x),
     f_show = (\<lambda>x. show_nat (nat x))\<rparr>"

definition int_params :: "int pathology_params" where
  "int_params = \<lparr>repeat_stop = True, ngram_penalty_scale = 2, ngram_penalty_step = 1,
     ngram_penalty_start_n = 3, ngram_penalty_max = 10, backtrack_on_repetition = False, resamples = 0\<rparr>"

theorem penalty_escalates_and_resets_witness:
  "scale (foldl (failing_round int_ops int_params) (pathology_default int_ops)
      [(Loop, [lit ''a'']), (Loop, [lit ''b'']), (RepeatedToolCall, [lit ''a''])]) = 4
   \<and> unat (start_n (foldl (failing_round int_ops int_params) (pathology_default int_ops)
      [(Loop, [lit ''a'']), (Loop, [lit ''b'']), (RepeatedToolCall, [lit ''a''])])) = 1"
proof -
  let ?r = "[(Loop, [lit ''a'']), (Loop, [lit ''b'']), (RepeatedToolCall, [lit ''a''])]"
  have "?r \<noteq> []" "length ?r < 2 ^ 32" by simp_all
  from penalty_escalates_and_resets[OF this refl, of int_ops int_params]
  show ?thesis by (simp add: int_ops_def int_params_def)
qed

section \<open>The retry budget\<close>

datatype resample_op = TryClaim | RequestRepeatedCall | TakeRequested | Reset

fun resample_step :: "32 word \<Rightarrow> resample_state \<Rightarrow> resample_op \<Rightarrow> resample_state" where
  "resample_step budget st TryClaim = fst (try_claim budget st)"
| "resample_step budget st RequestRepeatedCall = fst (request_repeated_call budget st)"
| "resample_step budget st TakeRequested = fst (take_requested st)"
| "resample_step budget st Reset = resample_reset st"

text \<open>The specification counts attempts since the last clean completion, granted or not.\<close>

fun attempt_step :: "nat \<Rightarrow> nat \<times> bool \<Rightarrow> resample_op \<Rightarrow> nat \<times> bool" where
  "attempt_step budget (n, req) TryClaim = (n + 1, req)"
| "attempt_step budget (n, req) RequestRepeatedCall = (if req then (n, req) else (n + 1, n < budget))"
| "attempt_step budget (n, req) TakeRequested = (n, False)"
| "attempt_step budget (n, req) Reset = (0, False)"

definition counts :: "32 word \<Rightarrow> resample_state \<Rightarrow> nat \<times> bool \<Rightarrow> bool" where
  "counts budget st a \<longleftrightarrow> unat (used st) = min (fst a) (unat budget) \<and> requested st = snd a"

lemma unat_used_Suc:
  assumes "used st < budget"
  shows "unat (used st + 1) = unat (used st) + 1"
proof -
  have "unat budget < 2 ^ 32" using unsigned_less[of budget, where ?'a = nat] by simp
  with assms show ?thesis by (simp add: unat_word_ariths word_less_nat_alt)
qed

interpretation retries: simulation "resample_step budget" "attempt_step (unat budget)" "counts budget"
  for budget
proof
  fix st a i
  assume C: "counts budget st a"
  obtain n req where a: "a = (n, req)" by fastforce
  have "used st < budget \<longleftrightarrow> n < unat budget"
    using C a by (auto simp: counts_def word_less_nat_alt)
  with C a show "counts budget (resample_step budget st i) (attempt_step (unat budget) a i)"
    using unat_used_Suc[of st budget]
    by (cases i) (auto simp: counts_def try_claim_def request_repeated_call_def take_requested_def
        resample_reset_def resample_default_def)
qed

text \<open>
  C34. The clean-retry budget. In any interleaving of claims, requests and resets, the retries used
  since the last reset are the attempts made, capped at the budget; a claim is granted exactly
  while fewer attempts than the budget have been made.
\<close>

theorem retries_within_budget:
  fixes budget :: "32 word"
  assumes "st = foldl (resample_step budget) resample_default trace"
    and "(n, req) = foldl (attempt_step (unat budget)) (0, False) trace"
  shows "unat (used st) = min n (unat budget) \<and> requested st = req
    \<and> snd (try_claim budget st) = (n < unat budget)
    \<and> snd (request_repeated_call budget st) = (req \<or> n < unat budget)"
proof -
  have "counts budget resample_default (0, False)" by (simp add: counts_def resample_default_def)
  from retries.run_rel[OF this, of trace] have "counts budget st (n, req)" using assms by simp
  then have C: "unat (used st) = min n (unat budget)" "requested st = req" by (simp_all add: counts_def)
  moreover have "used st < budget \<longleftrightarrow> n < unat budget" using C by (auto simp: word_less_nat_alt)
  ultimately show ?thesis by (simp add: try_claim_def request_repeated_call_def)
qed

theorem retries_within_budget_witness:
  "used (foldl (resample_step 2) resample_default [TryClaim, RequestRepeatedCall, RequestRepeatedCall, TryClaim]) = 2
   \<and> \<not> snd (try_claim 2 (foldl (resample_step 2) resample_default
        [TryClaim, RequestRepeatedCall, RequestRepeatedCall, TryClaim]))"
proof -
  let ?t = "[TryClaim, RequestRepeatedCall, RequestRepeatedCall, TryClaim]"
  have "(3, True) = foldl (attempt_step (unat (2 :: 32 word))) (0, False) ?t" by simp
  from retries_within_budget[OF refl this] show ?thesis by (simp add: word_unat_eq_iff)
qed

end
