(* ===== verification/Repeat_Guard.thy ===== *)
theory Repeat_Guard
  imports Protocol_Models "HOL-Library.List_Lexorder" "HOL-Library.Multiset"
begin

text \<open>
  \<open>core/src/tools/repeat_guard.rs\<close>: recognising a tool call that repeats an earlier one. Parsing
  and printing JSON is a parameter.
\<close>

section \<open>Signatures\<close>

text \<open>The object of the sorted keys; the keys of a JSON map are distinct.\<close>

fun sort_json :: "json \<Rightarrow> json" where
  "sort_json (JObject entries) = JObject (sort_key fst (map (\<lambda>(k, v). (k, sort_json v)) entries))"
| "sort_json (JArray xs) = JArray (map sort_json xs)"
| "sort_json other = other"

definition canonical_json :: "(json \<Rightarrow> rstr option) \<Rightarrow> json \<Rightarrow> rstr" where
  "canonical_json to_string v = (case to_string (sort_json v) of Some s \<Rightarrow> s | None \<Rightarrow> [])"

definition signature_of ::
  "(rstr \<Rightarrow> json option) \<Rightarrow> (json \<Rightarrow> rstr option) \<Rightarrow> rstr \<Rightarrow> rstr \<Rightarrow> rstr" where
  "signature_of from_str to_string tool_name args =
     (let canonical = (case from_str args of
            Some v \<Rightarrow> canonical_json to_string v
          | None \<Rightarrow> trim args)
      in tool_name @ [0] @ canonical)"

section \<open>The verdict\<close>

definition WINDOW :: nat where "WINDOW = 10"

definition REPEAT_THRESHOLD :: nat where "REPEAT_THRESHOLD = 3"

record recent_tool_call =
  call_id :: rstr
  signature :: rstr
  arguments :: rstr

record repeat_verdict =
  immediate_repeat :: bool
  repeats_in_window :: nat

definition triggered :: "repeat_verdict \<Rightarrow> bool" where
  "triggered v \<longleftrightarrow> immediate_repeat v \<or> REPEAT_THRESHOLD \<le> repeats_in_window v + 1"

definition judge_and_remember ::
  "recent_tool_call list \<Rightarrow> rstr \<Rightarrow> rstr \<Rightarrow> rstr \<Rightarrow> recent_tool_call list \<times> repeat_verdict" where
  "judge_and_remember recent cid sig args =
     (let prior = filter (\<lambda>c. call_id c \<noteq> cid) recent;
          immediate = (prior \<noteq> [] \<and> signature (last prior) = sig);
          repeats = length (filter (\<lambda>c. signature c = sig) (take WINDOW (rev prior)));
          recent = recent @ [\<lparr>call_id = cid, signature = sig, arguments = args\<rparr>]
      in (evict_front (WINDOW + 1) recent,
          \<lparr>immediate_repeat = immediate, repeats_in_window = repeats\<rparr>))"

definition warning_text :: "rstr \<Rightarrow> rstr \<Rightarrow> repeat_verdict \<Rightarrow> rstr" where
  "warning_text tool_name args verdict =
     (let shown = (if 400 < length args then take 400 args @ lit ''...'' else args);
          count = repeats_in_window verdict + 1;
          moment = (if immediate_repeat verdict then lit ''and it is the same as your previous call''
                    else lit ''within your last ten tool calls'')
      in [LF, LF] @ lit ''WARNING: this is call #'' @ show_nat count @ lit '' of the identical tool call ''
         @ [96] @ tool_name @ [96] @ lit '' with arguments '' @ shown @ [SP] @ moment
         @ lit ''. Repeating an identical call rarely changes the outcome. Do something different unless you have a ''
         @ lit ''clear reason to repeat it: read the file or output again, change the anchor or the command, or take a ''
         @ lit ''different approach.'')"

fun append_to_body :: "function_call_output_body \<Rightarrow> rstr \<Rightarrow> function_call_output_body" where
  "append_to_body (Text t) added = Text (t @ added)"
| "append_to_body (ContentItems cs) added = ContentItems (cs @ [OutputItemText added])"

section \<open>Signatures ignore the order of keys\<close>

text \<open>Two JSON values that differ only in the order of the entries of their objects.\<close>

inductive same_json :: "json \<Rightarrow> json \<Rightarrow> bool" where
  same_leaf: "same_json v v"
| same_array: "list_all2 same_json xs ys \<Longrightarrow> same_json (JArray xs) (JArray ys)"
| same_object: "map fst xs = map fst ys \<Longrightarrow> list_all2 same_json (map snd xs) (map snd ys) \<Longrightarrow>
     mset ys = mset zs \<Longrightarrow> distinct (map fst zs) \<Longrightarrow> same_json (JObject xs) (JObject zs)"
monos list_all2_mono

lemma sort_key_perm:
  assumes "mset xs = mset ys" "distinct (map fst ys)"
  shows "sort_key fst xs = sort_key fst ys"
proof -
  have "distinct (map fst xs)" using assms by (metis mset_eq_imp_distinct_iff mset_map)
  then have "inj_on fst (set xs)" by (simp add: distinct_map)
  then show ?thesis by (rule sort_key_inj_key_eq[rotated]) (simp_all add: assms(1))
qed

lemma same_json_sort: "same_json v w \<Longrightarrow> sort_json v = sort_json w"
proof (induction rule: same_json.induct)
  case (same_array xs ys)
  then show ?case by (auto simp: list_all2_conv_all_nth intro!: nth_equalityI)
next
  case (same_object xs ys zs)
  let ?f = "\<lambda>(k, v). (k, sort_json v)"
  have "map ?f xs = map ?f ys"
  proof (rule nth_equalityI)
    show len: "length (map ?f xs) = length (map ?f ys)" using same_object(1) by (metis length_map)
    show "map ?f xs ! i = map ?f ys ! i" if "i < length (map ?f xs)" for i
      using that len same_object.IH arg_cong[OF same_object(1), of "\<lambda>l. l ! i"]
      by (cases "xs ! i"; cases "ys ! i") (auto simp: list_all2_conv_all_nth)
  qed
  moreover have "sort_key fst (map ?f ys) = sort_key fst (map ?f zs)"
    using same_object.hyps by (intro sort_key_perm) (auto simp: comp_def split_def)
  ultimately show ?case by simp
qed simp

text \<open>
  Two calls of the same tool have the same signature whenever their arguments parse to JSON
  values that differ only in the order of object keys, at any depth (and so also when they differ
  only in whitespace, which parsing drops).
\<close>

theorem signature_ignores_key_order:
  assumes "from_str args = Some v" "from_str args' = Some w" "same_json v w"
  shows "signature_of from_str to_string tool args = signature_of from_str to_string tool args'"
  using assms same_json_sort[OF assms(3)] by (simp add: signature_of_def canonical_json_def)

theorem signature_ignores_key_order_witness:
  "(let a = JObject [(lit ''x'', JNumber (lit ''1'')), (lit ''y'', JNull)];
        b = JObject [(lit ''y'', JNull), (lit ''x'', JNumber (lit ''1''))];
        from_str = (\<lambda>s. if s = lit ''a'' then Some a else Some b)
    in signature_of from_str (\<lambda>_. Some (lit ''c'')) (lit ''t'') (lit ''a'')
       = signature_of from_str (\<lambda>_. Some (lit ''c'')) (lit ''t'') (lit ''b'') \<and> a \<noteq> b)"
proof -
  let ?a = "JObject [(lit ''x'', JNumber (lit ''1'')), (lit ''y'', JNull)]"
  let ?b = "JObject [(lit ''y'', JNull), (lit ''x'', JNumber (lit ''1''))]"
  have ne: "lit ''x'' \<noteq> lit ''y''" "lit ''b'' \<noteq> lit ''a''" by code_simp+
  then have "same_json ?a ?b"
    by (intro same_object[of _ "[(lit ''x'', JNumber (lit ''1'')), (lit ''y'', JNull)]"])
       (auto intro: same_leaf)
  with ne show ?thesis
    using signature_ignores_key_order[of "\<lambda>s. if s = lit ''a'' then Some ?a else Some ?b" "lit ''a''" ?a "lit ''b''" ?b
        "\<lambda>_. Some (lit ''c'')" "lit ''t''"] by (simp add: Let_def)
qed

section \<open>The window is enough\<close>

text \<open>
  The specification remembers every call. The guard keeps eleven, one more than the window, so
  that it can leave out the call it judges.
\<close>

definition remembers :: "recent_tool_call list \<Rightarrow> recent_tool_call list \<Rightarrow> bool" where
  "remembers recent all_calls \<longleftrightarrow> recent = take_last (WINDOW + 1) all_calls"

fun guard_step :: "recent_tool_call list \<Rightarrow> rstr \<times> rstr \<times> rstr \<Rightarrow> recent_tool_call list" where
  "guard_step recent (cid, sig, args) = fst (judge_and_remember recent cid sig args)"

fun log_step :: "recent_tool_call list \<Rightarrow> rstr \<times> rstr \<times> rstr \<Rightarrow> recent_tool_call list" where
  "log_step calls (cid, sig, args) = calls @ [\<lparr>call_id = cid, signature = sig, arguments = args\<rparr>]"

interpretation call_window: simulation guard_step log_step remembers
proof
  fix recent calls :: "recent_tool_call list" and i :: "rstr \<times> rstr \<times> rstr"
  assume "remembers recent calls"
  then show "remembers (guard_step recent i) (log_step calls i)"
    using take_last_append[of "WINDOW + 1" calls]
    by (cases i) (simp add: remembers_def judge_and_remember_def Let_def evict_front_take_last)
qed

lemma take_last_filter:
  assumes "length (filter (\<lambda>x. \<not> P x) (take_last (Suc n) xs)) \<le> 1"
  shows "take_last n (filter P (take_last (Suc n) xs)) = take_last n (filter P xs)"
proof (cases "length xs \<le> Suc n")
  case False
  let ?t = "take_last (Suc n) xs"
  have xs: "xs = take (length xs - Suc n) xs @ ?t" by (simp add: take_last_def)
  have "length ?t = Suc n" using False by simp
  then have "n \<le> length (filter P ?t)"
    using assms sum_length_filter_compl[of P ?t] by simp
  then have "take_last n (filter P (take (length xs - Suc n) xs) @ filter P ?t) = take_last n (filter P ?t)"
    by (rule take_last_append_long)
  then show ?thesis using xs by (metis filter_append)
qed simp

lemma judge_window:
  assumes "prior = filter (\<lambda>c. call_id c \<noteq> cid) recent"
  shows "snd (judge_and_remember recent cid sig args) =
    \<lparr>immediate_repeat = (take_last WINDOW prior \<noteq> [] \<and> signature (last (take_last WINDOW prior)) = sig),
     repeats_in_window = length (filter (\<lambda>c. signature c = sig) (take_last WINDOW prior))\<rparr>"
proof -
  have rev: "take WINDOW (rev prior) = rev (take_last WINDOW prior)"
    by (simp add: take_last_def take_rev)
  have "(prior \<noteq> [] \<and> signature (last prior) = sig)
      = (take_last WINDOW prior \<noteq> [] \<and> signature (last (take_last WINDOW prior)) = sig)"
    using last_take_last[of prior WINDOW] by (cases "prior = []") (auto simp: WINDOW_def take_last_def)
  then show ?thesis
    unfolding judge_and_remember_def Let_def assms[symmetric] rev by (simp flip: rev_filter)
qed



end
