(* ===== verification/Exec_Policy.thy ===== *)
theory Exec_Policy
  imports Absolute_Path "HOL-Library.List_Lexorder"
begin

text \<open>
  The crate \<open>execpolicy\<close>: rules that allow, prompt for or forbid commands by their leading
  tokens, and network rules (\<open>decision.rs\<close>, \<open>rule.rs\<close>, \<open>policy.rs\<close>, \<open>executable_name.rs\<close> on
  Unix). The home directory and the current directory, which resolving a program path asks the
  system for, are parameters. The only implementation of the trait \<open>Rule\<close> is \<open>PrefixRule\<close>.
\<close>

section \<open>Decisions\<close>

datatype decision = Allow | Prompt | Forbidden

fun severity :: "decision \<Rightarrow> nat" where
  "severity Allow = 0"
| "severity Prompt = 1"
| "severity Forbidden = 2"

text \<open>The derived order: a decision later in the declaration is stricter.\<close>

instantiation decision :: linorder
begin

definition less_eq_decision :: "decision \<Rightarrow> decision \<Rightarrow> bool" where
  "less_eq_decision a b \<longleftrightarrow> severity a \<le> severity b"

definition less_decision :: "decision \<Rightarrow> decision \<Rightarrow> bool" where
  "less_decision a b \<longleftrightarrow> severity a < severity b"

instance
proof
  fix x y :: decision
  show "x \<le> y \<Longrightarrow> y \<le> x \<Longrightarrow> x = y"
    by (cases x; cases y) (simp_all add: less_eq_decision_def)
qed (auto simp: less_eq_decision_def less_decision_def)

end

lemma Allow_least [simp]: "Allow \<le> d" by (cases d) (simp_all add: less_eq_decision_def)

lemma Forbidden_greatest [simp]: "d \<le> Forbidden" by (cases d) (simp_all add: less_eq_decision_def)

lemma le_Allow_iff [simp]: "d \<le> Allow \<longleftrightarrow> d = Allow" by (cases d) (simp_all add: less_eq_decision_def)

lemma Forbidden_le_iff [simp]: "Forbidden \<le> d \<longleftrightarrow> d = Forbidden"
  by (cases d) (simp_all add: less_eq_decision_def)

record text_position =
  tp_line :: nat
  tp_column :: nat

record text_range =
  tr_start :: text_position
  tr_end :: text_position

record error_location =
  loc_path :: rstr
  loc_range :: text_range

datatype policy_error =
  InvalidDecision rstr
| InvalidPattern rstr
| InvalidExample rstr
| InvalidRule rstr
| ExampleDidNotMatch "rstr list" "rstr list" "error_location option"
| ExampleDidMatch rstr rstr "error_location option"
| Starlark rstr

fun with_location :: "error_location \<Rightarrow> policy_error \<Rightarrow> policy_error" where
  "with_location location (ExampleDidNotMatch rules examples None) = ExampleDidNotMatch rules examples (Some location)"
| "with_location location (ExampleDidMatch rule example None) = ExampleDidMatch rule example (Some location)"
| "with_location location other = other"

definition decision_parse :: "rstr \<Rightarrow> (policy_error, decision) rresult" where
  "decision_parse raw =
     (if raw = lit ''allow'' then Inr Allow
      else if raw = lit ''prompt'' then Inr Prompt
      else if raw = lit ''forbidden'' then Inr Forbidden
      else Inl (InvalidDecision raw))"

section \<open>Rules\<close>

datatype pattern_token = Single rstr | Alts "rstr list"

fun token_matches :: "pattern_token \<Rightarrow> rstr \<Rightarrow> bool" where
  "token_matches (Single expected) token \<longleftrightarrow> expected = token"
| "token_matches (Alts alternatives) token \<longleftrightarrow> token \<in> set alternatives"

fun alternatives :: "pattern_token \<Rightarrow> rstr list" where
  "alternatives (Single expected) = [expected]"
| "alternatives (Alts alts) = alts"

record prefix_pattern =
  pp_first :: rstr
  pp_rest :: "pattern_token list"

definition matches_prefix :: "prefix_pattern \<Rightarrow> rstr list \<Rightarrow> rstr list option" where
  "matches_prefix pat cmd =
     (let pattern_length = length (pp_rest pat) + 1 in
      if length cmd < pattern_length \<or> cmd ! 0 \<noteq> pp_first pat then None
      else if list_all (\<lambda>(pt, t). token_matches pt t) (zip (pp_rest pat) (take (pattern_length - 1) (drop 1 cmd)))
      then Some (take pattern_length cmd) else None)"

datatype rule_match =
  PrefixRuleMatch "rstr list" decision "rstr option" "rstr option"
| HeuristicsRuleMatch "rstr list" decision

fun rule_decision :: "rule_match \<Rightarrow> decision" where
  "rule_decision (PrefixRuleMatch _ d _ _) = d"
| "rule_decision (HeuristicsRuleMatch _ d) = d"

fun with_resolved_program :: "rstr \<Rightarrow> rule_match \<Rightarrow> rule_match" where
  "with_resolved_program program (PrefixRuleMatch matched_prefix d _ justification) =
     PrefixRuleMatch matched_prefix d (Some program) justification"
| "with_resolved_program program other = other"

record prefix_rule =
  pattern :: prefix_pattern
  rule_dec :: decision
  rule_justification :: "rstr option"

definition rule_program :: "prefix_rule \<Rightarrow> rstr" where
  "rule_program r = pp_first (pattern r)"

definition rule_matches :: "prefix_rule \<Rightarrow> rstr list \<Rightarrow> rule_match option" where
  "rule_matches r cmd =
     map_option (\<lambda>matched_prefix. PrefixRuleMatch matched_prefix (rule_dec r) None (rule_justification r))
       (matches_prefix (pattern r) cmd)"

datatype network_rule_protocol = Http | Https | Socks5Tcp | Socks5Udp

definition protocol_parse :: "rstr \<Rightarrow> (policy_error, network_rule_protocol) rresult" where
  "protocol_parse raw =
     (if raw = lit ''http'' then Inr Http
      else if raw \<in> {lit ''https'', lit ''https_connect'', lit ''http-connect''} then Inr Https
      else if raw = lit ''socks5_tcp'' then Inr Socks5Tcp
      else if raw = lit ''socks5_udp'' then Inr Socks5Udp
      else Inl (InvalidRule (lit ''network_rule protocol must be one of http, https, socks5_tcp, socks5_udp (got ''
             @ raw @ lit '')'')))"

fun as_policy_string :: "network_rule_protocol \<Rightarrow> rstr" where
  "as_policy_string Http = lit ''http''"
| "as_policy_string Https = lit ''https''"
| "as_policy_string Socks5Tcp = lit ''socks5_tcp''"
| "as_policy_string Socks5Udp = lit ''socks5_udp''"

record network_rule =
  net_host :: rstr
  net_protocol :: network_rule_protocol
  net_decision :: decision
  net_justification :: "rstr option"

subsection \<open>Hosts of network rules\<close>

definition all_digits :: "rstr \<Rightarrow> bool" where
  "all_digits s \<longleftrightarrow> s \<noteq> [] \<and> list_all is_ascii_digit s"

abbreviation msg_host_empty :: rstr where
  "msg_host_empty \<equiv> lit ''network_rule host cannot be empty''"

abbreviation COLON :: rchar where "COLON \<equiv> 58"
abbreviation DOT :: rchar where "DOT \<equiv> 46"

text \<open>A host without brackets loses a port; with more than one colon it is taken as it is.\<close>

definition strip_port :: "rstr \<Rightarrow> rstr" where
  "strip_port host =
     (if length (filter (\<lambda>c. c = COLON) host) = 1
      then (case rsplit_once COLON host of
              Some (candidate, port) \<Rightarrow> if candidate \<noteq> [] \<and> all_digits port then candidate else host
            | None \<Rightarrow> host)
      else host)"

definition unbracket_host :: "rstr \<Rightarrow> rstr \<Rightarrow> (policy_error, rstr) rresult" where
  "unbracket_host raw host =
     (case strip_prefix (lit ''['') host of
        Some stripped \<Rightarrow>
          (case split_once 93 stripped of
             None \<Rightarrow> Inl (InvalidRule (lit ''network_rule host has an invalid bracketed IPv6 literal''))
           | Some (inside, after) \<Rightarrow>
               let port_ok = (case strip_prefix [COLON] after of Some port \<Rightarrow> all_digits port | None \<Rightarrow> False)
               in if after \<noteq> [] \<and> \<not> port_ok
                  then Inl (InvalidRule (lit ''network_rule host contains an unsupported suffix: '' @ raw))
                  else Inr inside)
      | None \<Rightarrow> Inr (strip_port host))"

definition normalize_network_rule_host :: "rstr \<Rightarrow> (policy_error, rstr) rresult" where
  "normalize_network_rule_host raw =
     (let host = trim raw in
      if host = [] then Inl (InvalidRule msg_host_empty)
      else if contains_str (lit ''://'') host \<or> SLASH \<in> set host \<or> 63 \<in> set host \<or> 35 \<in> set host
      then Inl (InvalidRule (lit ''network_rule host must be a hostname or IP literal (without scheme or path)''))
      else (case unbracket_host raw host of
              Inl e \<Rightarrow> Inl e
            | Inr host \<Rightarrow>
                let normalized = to_ascii_lowercase (trim (trim_end_matches DOT host)) in
                if normalized = [] then Inl (InvalidRule msg_host_empty)
                else if 42 \<in> set normalized
                then Inl (InvalidRule (lit ''network_rule host must be a specific host; wildcards are not allowed''))
                else if list_ex is_whitespace normalized
                then Inl (InvalidRule (lit ''network_rule host cannot contain whitespace''))
                else Inr normalized))"

section \<open>Policies\<close>

text \<open>
  The rules by program, a multimap: the keys in some iteration order, each with its rules in
  insertion order. A new key may come anywhere in that order; no result depends on it.
\<close>

type_synonym rule_map = "(rstr \<times> prefix_rule list) list"

fun mm_insert :: "rstr \<Rightarrow> prefix_rule \<Rightarrow> rule_map \<Rightarrow> rule_map" where
  "mm_insert k r [] = [(k, [r])]"
| "mm_insert k r ((k', rs) # m) = (if k = k' then (k', rs @ [r]) # m else (k', rs) # mm_insert k r m)"

definition get_vec :: "rule_map \<Rightarrow> rstr \<Rightarrow> prefix_rule list option" where
  "get_vec m k = map_of m k"

record policy =
  rules_by_program :: rule_map
  network_rules :: "network_rule list"
  host_executables_by_name :: "rstr \<rightharpoonup> rstr list"

definition policy_empty :: policy where
  "policy_empty = \<lparr>rules_by_program = [], network_rules = [], host_executables_by_name = Map.empty\<rparr>"

fun render_pattern_token :: "pattern_token \<Rightarrow> rstr" where
  "render_pattern_token (Single v) = v"
| "render_pattern_token (Alts alts) = lit ''['' @ join (lit ''|'') alts @ lit '']''"

definition get_allowed_prefixes :: "policy \<Rightarrow> rstr list list" where
  "get_allowed_prefixes p =
     remdups_adj (sort (concat (map (\<lambda>(_, rules).
       map (\<lambda>r. pp_first (pattern r) # map render_pattern_token (pp_rest (pattern r)))
         (filter (\<lambda>r. rule_dec r = Allow) rules)) (rules_by_program p))))"

definition prefix_rule_of :: "rstr \<Rightarrow> rstr list \<Rightarrow> decision \<Rightarrow> prefix_rule" where
  "prefix_rule_of first_token rest_tokens d =
     \<lparr>pattern = \<lparr>pp_first = first_token, pp_rest = map Single rest_tokens\<rparr>, rule_dec = d, rule_justification = None\<rparr>"

definition add_prefix_rule :: "rstr list \<Rightarrow> decision \<Rightarrow> policy \<Rightarrow> (policy_error, policy) rresult" where
  "add_prefix_rule pre d p =
     (case pre of
        [] \<Rightarrow> Inl (InvalidPattern (lit ''prefix cannot be empty''))
      | first_token # rest_tokens \<Rightarrow>
          Inr (p\<lparr>rules_by_program := mm_insert first_token (prefix_rule_of first_token rest_tokens d) (rules_by_program p)\<rparr>))"

definition blank_justification :: "rstr option \<Rightarrow> bool" where
  "blank_justification j \<longleftrightarrow> (case j of Some raw \<Rightarrow> trim raw = [] | None \<Rightarrow> False)"

definition add_network_rule ::
  "rstr \<Rightarrow> network_rule_protocol \<Rightarrow> decision \<Rightarrow> rstr option \<Rightarrow> policy \<Rightarrow> (policy_error, policy) rresult" where
  "add_network_rule raw_host protocol d justification p =
     (case normalize_network_rule_host raw_host of
        Inl e \<Rightarrow> Inl e
      | Inr host \<Rightarrow>
          if blank_justification justification then Inl (InvalidRule (lit ''justification cannot be empty''))
          else Inr (p\<lparr>network_rules := network_rules p @
                 [\<lparr>net_host = host, net_protocol = protocol, net_decision = d, net_justification = justification\<rparr>]\<rparr>))"

definition set_host_executable_paths :: "rstr \<Rightarrow> rstr list \<Rightarrow> policy \<Rightarrow> policy" where
  "set_host_executable_paths name paths p =
     p\<lparr>host_executables_by_name := (host_executables_by_name p)(name \<mapsto> paths)\<rparr>"

definition mm_extend :: "rule_map \<Rightarrow> rule_map \<Rightarrow> rule_map" where
  "mm_extend m overlay = foldl (\<lambda>m (program, rules). foldl (\<lambda>m r. mm_insert program r m) m rules) m overlay"

definition merge_overlay :: "policy \<Rightarrow> policy \<Rightarrow> policy" where
  "merge_overlay p overlay =
     \<lparr>rules_by_program = mm_extend (rules_by_program p) (rules_by_program overlay),
      network_rules = network_rules p @ network_rules overlay,
      host_executables_by_name = host_executables_by_name p ++ host_executables_by_name overlay\<rparr>"

subsection \<open>Network domains\<close>

definition upsert_domain :: "rstr list \<Rightarrow> rstr \<Rightarrow> rstr list" where
  "upsert_domain entries host = filter (\<lambda>e. e \<noteq> host) entries @ [host]"

fun compile_network_rule :: "rstr list \<times> rstr list \<Rightarrow> network_rule \<Rightarrow> rstr list \<times> rstr list" where
  "compile_network_rule (allowed, denied) rule =
     (case net_decision rule of
        Allow \<Rightarrow> (upsert_domain allowed (net_host rule), filter (\<lambda>e. e \<noteq> net_host rule) denied)
      | Forbidden \<Rightarrow> (filter (\<lambda>e. e \<noteq> net_host rule) allowed, upsert_domain denied (net_host rule))
      | Prompt \<Rightarrow> (allowed, denied))"

definition compiled_network_domains :: "policy \<Rightarrow> rstr list \<times> rstr list" where
  "compiled_network_domains p = foldl compile_network_rule ([], []) (network_rules p)"

subsection \<open>Matching\<close>

record path_env =
  env_home :: "rstr option"
  env_cwd :: "rstr option"

definition match_exact_rules :: "policy \<Rightarrow> rstr list \<Rightarrow> rule_match list option" where
  "match_exact_rules p cmd =
     (case cmd of
        [] \<Rightarrow> None
      | first_word # _ \<Rightarrow>
          Some (case get_vec (rules_by_program p) first_word of
                  Some rules \<Rightarrow> List.map_filter (\<lambda>r. rule_matches r cmd) rules
                | None \<Rightarrow> []))"

definition host_path_excluded :: "policy \<Rightarrow> rstr \<Rightarrow> rstr \<Rightarrow> bool" where
  "host_path_excluded p basename program \<longleftrightarrow>
     (case host_executables_by_name p basename of
        Some paths \<Rightarrow> program \<notin> set paths
      | None \<Rightarrow> False)"

definition executable_lookup_key :: "rstr \<Rightarrow> rstr" where
  "executable_lookup_key raw = raw"

definition executable_path_lookup_key :: "rstr \<Rightarrow> rstr option" where
  "executable_path_lookup_key path = map_option executable_lookup_key (file_name path)"

lemma executable_path_lookup_key_eq [simp]: "executable_path_lookup_key path = file_name path"
  by (simp add: executable_path_lookup_key_def executable_lookup_key_def[abs_def] option.map_ident)

definition match_host_executable_rules :: "path_env \<Rightarrow> policy \<Rightarrow> rstr list \<Rightarrow> rule_match list" where
  "match_host_executable_rules env p cmd =
     (case cmd of
        [] \<Rightarrow> []
      | first_word # args \<Rightarrow>
        (case from_absolute_path (env_home env) (env_cwd env) first_word of
           None \<Rightarrow> []
         | Some program \<Rightarrow>
           (case executable_path_lookup_key program of
              None \<Rightarrow> []
            | Some basename \<Rightarrow>
              (case get_vec (rules_by_program p) basename of
                 None \<Rightarrow> []
               | Some rules \<Rightarrow>
                 if host_path_excluded p basename program then []
                 else map (with_resolved_program program)
                        (List.map_filter (\<lambda>r. rule_matches r (basename # args)) rules)))))"

definition matches_for_command_with_options ::
  "path_env \<Rightarrow> policy \<Rightarrow> rstr list \<Rightarrow> (rstr list \<Rightarrow> decision) option \<Rightarrow> bool \<Rightarrow> rule_match list" where
  "matches_for_command_with_options env p cmd heuristics_fallback resolve_host_executables =
     (let exact = (case match_exact_rules p cmd of Some ms \<Rightarrow> ms | None \<Rightarrow> []);
          matched_rules =
            (if exact \<noteq> [] then exact
             else if resolve_host_executables then match_host_executable_rules env p cmd
             else [])
      in case (matched_rules, heuristics_fallback) of
           ([], Some fallback) \<Rightarrow> [HeuristicsRuleMatch cmd (fallback cmd)]
         | _ \<Rightarrow> matched_rules)"

record evaluation =
  eval_decision :: decision
  matched_rules :: "rule_match list"

fun is_heuristics_match :: "rule_match \<Rightarrow> bool" where
  "is_heuristics_match (HeuristicsRuleMatch _ _) = True"
| "is_heuristics_match (PrefixRuleMatch _ _ _ _) = False"

definition is_match :: "evaluation \<Rightarrow> bool" where
  "is_match e \<longleftrightarrow> list_ex (\<lambda>m. \<not> is_heuristics_match m) (matched_rules e)"

text \<open>\<open>Iterator::max\<close>; \<open>from_matches\<close> panics on no matches.\<close>

fun iter_max :: "decision list \<Rightarrow> decision option" where
  "iter_max [] = None"
| "iter_max (d # ds) = Some (foldl max d ds)"

definition from_matches :: "rule_match list \<Rightarrow> evaluation option" where
  "from_matches ms = map_option (\<lambda>d. \<lparr>eval_decision = d, matched_rules = ms\<rparr>) (iter_max (map rule_decision ms))"

definition check_with_options ::
  "path_env \<Rightarrow> policy \<Rightarrow> rstr list \<Rightarrow> (rstr list \<Rightarrow> decision) \<Rightarrow> bool \<Rightarrow> evaluation option" where
  "check_with_options env p cmd heuristics_fallback resolve =
     from_matches (matches_for_command_with_options env p cmd (Some heuristics_fallback) resolve)"

definition check :: "path_env \<Rightarrow> policy \<Rightarrow> rstr list \<Rightarrow> (rstr list \<Rightarrow> decision) \<Rightarrow> evaluation option" where
  "check env p cmd heuristics_fallback =
     from_matches (matches_for_command_with_options env p cmd (Some heuristics_fallback) False)"

definition matches_for_command ::
  "path_env \<Rightarrow> policy \<Rightarrow> rstr list \<Rightarrow> (rstr list \<Rightarrow> decision) option \<Rightarrow> rule_match list" where
  "matches_for_command env p cmd heuristics_fallback =
     matches_for_command_with_options env p cmd heuristics_fallback False"

definition check_multiple_with_options ::
  "path_env \<Rightarrow> policy \<Rightarrow> rstr list list \<Rightarrow> (rstr list \<Rightarrow> decision) \<Rightarrow> bool \<Rightarrow> evaluation option" where
  "check_multiple_with_options env p commands heuristics_fallback resolve =
     from_matches (concat (map (\<lambda>cmd.
       matches_for_command_with_options env p cmd (Some heuristics_fallback) resolve) commands))"

definition check_multiple ::
  "path_env \<Rightarrow> policy \<Rightarrow> rstr list list \<Rightarrow> (rstr list \<Rightarrow> decision) \<Rightarrow> evaluation option" where
  "check_multiple env p commands heuristics_fallback = check_multiple_with_options env p commands heuristics_fallback False"

section \<open>Matching a prefix\<close>

lemma matches_prefix_iff:
  "matches_prefix pat cmd = Some pre \<longleftrightarrow>
     (\<exists>ts args. pre = pp_first pat # ts \<and> cmd = pre @ args \<and> list_all2 token_matches (pp_rest pat) ts)"
    (is "?l \<longleftrightarrow> ?r")
proof
  let ?n = "length (pp_rest pat)"
  assume ?l
  then have len: "?n + 1 \<le> length cmd" and hd: "cmd ! 0 = pp_first pat" and pre: "pre = take (?n + 1) cmd"
    and all: "list_all (\<lambda>(pt, t). token_matches pt t) (zip (pp_rest pat) (take ?n (drop 1 cmd)))"
    by (auto simp: matches_prefix_def Let_def split: if_splits)
  from len obtain c cs where cmd: "cmd = c # cs" by (cases cmd) auto
  have "list_all2 token_matches (pp_rest pat) (take ?n cs)"
    using all len cmd by (auto simp: list_all2_iff list_all_iff)
  then show ?r using hd pre cmd by (intro exI[of _ "take ?n cs"] exI[of _ "drop ?n cs"]) simp
next
  assume ?r
  then obtain ts args where "pre = pp_first pat # ts" "cmd = pre @ args"
    "list_all2 token_matches (pp_rest pat) ts" by blast
  moreover from this(3) have "length ts = length (pp_rest pat)" by (simp add: list_all2_lengthD)
  ultimately show ?l by (auto simp: matches_prefix_def Let_def list_all2_iff list_all_iff)
qed

lemma list_all2_Single: "list_all2 token_matches (map Single ts) us \<longleftrightarrow> us = ts"
  by (induction ts arbitrary: us) (auto simp: list_all2_Cons1)

text \<open>A rule made of fixed tokens matches exactly the commands that start with them.\<close>

lemma prefix_rule_of_matches:
  "rule_matches (prefix_rule_of w ws d) cmd =
     (if starts_with (w # ws) cmd then Some (PrefixRuleMatch (w # ws) d None None) else None)"
proof (cases "starts_with (w # ws) cmd")
  case True
  then obtain args where "cmd = (w # ws) @ args" by (auto simp: starts_with_iff)
  then have "matches_prefix \<lparr>pp_first = w, pp_rest = map Single ws\<rparr> cmd = Some (w # ws)"
    by (simp add: matches_prefix_iff list_all2_Single)
  with True show ?thesis by (simp add: rule_matches_def prefix_rule_of_def)
next
  case False
  then have "matches_prefix \<lparr>pp_first = w, pp_rest = map Single ws\<rparr> cmd = None"
    by (cases "matches_prefix \<lparr>pp_first = w, pp_rest = map Single ws\<rparr> cmd")
       (auto simp: matches_prefix_iff list_all2_Single)
  with False show ?thesis by (simp add: rule_matches_def prefix_rule_of_def)
qed

lemma rule_matches_decision: "rule_matches r cmd = Some m \<Longrightarrow> rule_decision m = rule_dec r \<and> \<not> is_heuristics_match m"
  by (auto simp: rule_matches_def)

lemma rule_decision_resolved [simp]:
  "rule_decision (with_resolved_program prog m) = rule_decision m"
  "is_heuristics_match (with_resolved_program prog m) = is_heuristics_match m"
  by (cases m; simp)+

section \<open>The rules of a program\<close>

definition rules_for :: "rule_map \<Rightarrow> rstr \<Rightarrow> prefix_rule list" where
  "rules_for m k = (case get_vec m k of Some rs \<Rightarrow> rs | None \<Rightarrow> [])"

text \<open>The invariant of the multimap: distinct keys, and every rule under its own program.\<close>

fun own_rules :: "rstr \<times> prefix_rule list \<Rightarrow> bool" where
  "own_rules (k, rs) \<longleftrightarrow> rs \<noteq> [] \<and> list_all (\<lambda>r. rule_program r = k) rs"

definition wf_rules :: "rule_map \<Rightarrow> bool" where
  "wf_rules m \<longleftrightarrow> distinct (map fst m) \<and> list_all own_rules m"

lemma rules_for_Cons: "rules_for ((k, rs) # m) k' = (if k' = k then rs else rules_for m k')"
  by (simp add: rules_for_def get_vec_def)

lemma rules_for_Nil [simp]: "rules_for [] k = []"
  by (simp add: rules_for_def get_vec_def)

lemma rules_for_insert:
  "rules_for (mm_insert k r m) k' = rules_for m k' @ (if k' = k then [r] else [])"
  by (induction m) (auto simp: rules_for_Cons)

lemma rules_for_insert_all:
  "rules_for (foldl (\<lambda>m r. mm_insert k r m) m rs) k' = rules_for m k' @ (if k' = k then rs else [])"
  by (induction rs arbitrary: m) (auto simp: rules_for_insert)

lemma rules_for_absent: "k \<notin> fst ` set m \<Longrightarrow> rules_for m k = []"
  by (auto simp: rules_for_def get_vec_def map_of_eq_None_iff split: option.splits dest: map_of_SomeD)
     (metis fst_conv image_eqI map_of_SomeD)

lemma rules_for_extend:
  assumes "distinct (map fst overlay)"
  shows "rules_for (mm_extend m overlay) k = rules_for m k @ rules_for overlay k"
  using assms
proof (induction overlay arbitrary: m)
  case (Cons kr overlay)
  obtain k' rs where kr: "kr = (k', rs)" by (cases kr)
  have step: "mm_extend m (kr # overlay) = mm_extend (foldl (\<lambda>m r. mm_insert k' r m) m rs) overlay"
    by (simp add: mm_extend_def kr)
  show ?case
    unfolding step using Cons kr rules_for_absent[of k' overlay]
    by (auto simp: rules_for_insert_all rules_for_Cons)
qed (simp add: mm_extend_def)

lemma keys_insert: "fst ` set (mm_insert k r m) = insert k (fst ` set m)"
  by (induction k r m rule: mm_insert.induct) (simp_all add: insert_commute)

lemma distinct_insert: "distinct (map fst m) \<Longrightarrow> distinct (map fst (mm_insert k r m))"
proof (induction m)
  case (Cons kr m)
  then show ?case by (cases kr) (simp add: keys_insert)
qed simp

lemma own_rules_insert: "list_all own_rules m \<Longrightarrow> rule_program r = k \<Longrightarrow> list_all own_rules (mm_insert k r m)"
  by (induction k r m rule: mm_insert.induct) auto

lemma wf_rules_insert: "wf_rules m \<Longrightarrow> rule_program r = k \<Longrightarrow> wf_rules (mm_insert k r m)"
  by (simp add: wf_rules_def distinct_insert own_rules_insert)

lemma wf_rules_empty: "wf_rules (rules_by_program policy_empty)"
  by (simp add: wf_rules_def policy_empty_def)

lemma wf_rules_insert_all:
  "wf_rules m \<Longrightarrow> (\<And>r. r \<in> set rs \<Longrightarrow> rule_program r = k) \<Longrightarrow> wf_rules (foldl (\<lambda>m r. mm_insert k r m) m rs)"
  by (induction rs arbitrary: m) (auto intro: wf_rules_insert)

lemma wf_rules_extend: "wf_rules m \<Longrightarrow> wf_rules overlay \<Longrightarrow> wf_rules (mm_extend m overlay)"
proof (induction overlay arbitrary: m)
  case (Cons kr overlay)
  obtain k rs where kr: "kr = (k, rs)" by (cases kr)
  have "wf_rules (foldl (\<lambda>m r. mm_insert k r m) m rs)"
    using Cons.prems kr by (intro wf_rules_insert_all) (auto simp: wf_rules_def list_all_iff)
  moreover have "wf_rules overlay" using Cons.prems(2) by (auto simp: wf_rules_def)
  ultimately show ?case using Cons.IH by (simp add: mm_extend_def kr)
qed (simp add: mm_extend_def)

lemma wf_add_prefix_rule:
  "add_prefix_rule pre d p = Inr p' \<Longrightarrow> wf_rules (rules_by_program p) \<Longrightarrow> wf_rules (rules_by_program p')"
  by (auto simp: add_prefix_rule_def prefix_rule_of_def rule_program_def split: list.splits intro!: wf_rules_insert)

section \<open>Decisions of a check\<close>

definition exact_matches :: "policy \<Rightarrow> rstr list \<Rightarrow> rule_match list" where
  "exact_matches p cmd = (case match_exact_rules p cmd of Some ms \<Rightarrow> ms | None \<Rightarrow> [])"

text \<open>The rules that decide a command: its exact matches or, without any, those of its basename.\<close>

definition deciding :: "path_env \<Rightarrow> policy \<Rightarrow> bool \<Rightarrow> rstr list \<Rightarrow> rule_match list" where
  "deciding env p resolve cmd = matches_for_command_with_options env p cmd None resolve"

lemma exact_matches_rules:
  "exact_matches p cmd =
     (case cmd of [] \<Rightarrow> [] | w # _ \<Rightarrow> List.map_filter (\<lambda>r. rule_matches r cmd) (rules_for (rules_by_program p) w))"
  by (auto simp: exact_matches_def match_exact_rules_def rules_for_def split: list.splits option.splits)

lemma match_host_executable_rules_alt:
  "match_host_executable_rules env p cmd =
     (case cmd of
        [] \<Rightarrow> []
      | w # args \<Rightarrow>
        (case from_absolute_path (env_home env) (env_cwd env) w of
           None \<Rightarrow> []
         | Some program \<Rightarrow>
           (case file_name program of
              None \<Rightarrow> []
            | Some basename \<Rightarrow>
                if host_path_excluded p basename program then []
                else map (with_resolved_program program)
                       (List.map_filter (\<lambda>r. rule_matches r (basename # args)) (rules_for (rules_by_program p) basename)))))"
  by (auto simp: match_host_executable_rules_def rules_for_def List.map_filter_simps split: list.splits option.splits)

lemma deciding_alt:
  "deciding env p resolve cmd =
     (if exact_matches p cmd \<noteq> [] then exact_matches p cmd
      else if resolve then match_host_executable_rules env p cmd else [])"
  by (auto simp: deciding_def matches_for_command_with_options_def exact_matches_def Let_def split: list.splits)

lemma matches_with_fallback:
  "matches_for_command_with_options env p cmd (Some fallback) resolve =
     (if deciding env p resolve cmd = [] then [HeuristicsRuleMatch cmd (fallback cmd)]
      else deciding env p resolve cmd)"
  by (auto simp: deciding_def matches_for_command_with_options_def Let_def split: list.splits)

lemma map_filter_set: "x \<in> set (List.map_filter f xs) \<longleftrightarrow> (\<exists>y \<in> set xs. f y = Some x)"
  by (induction xs) (auto simp: List.map_filter_simps split: option.splits)

lemma map_filter_append: "List.map_filter f (xs @ ys) = List.map_filter f xs @ List.map_filter f ys"
  by (simp add: List.map_filter_def)

lemma deciding_prefix_match: "m \<in> set (deciding env p resolve cmd) \<Longrightarrow> \<not> is_heuristics_match m"
  by (auto simp: deciding_alt exact_matches_rules match_host_executable_rules_def map_filter_set
      dest: rule_matches_decision split: list.splits option.splits if_splits)

lemma iter_max_Some: "ds \<noteq> [] \<Longrightarrow> iter_max ds = Some (Max (set ds))"
proof -
  have "foldl max d ds = Max (set (d # ds))" for d :: decision and ds
  proof (induction ds arbitrary: d)
    case (Cons c ds)
    then show ?case by (cases "ds = []") (simp_all add: max.assoc)
  qed simp
  then show "ds \<noteq> [] \<Longrightarrow> iter_max ds = Some (Max (set ds))" by (cases ds) simp_all
qed

lemma from_matches_Some:
  "ms \<noteq> [] \<Longrightarrow> from_matches ms = Some \<lparr>eval_decision = Max (rule_decision ` set ms), matched_rules = ms\<rparr>"
  using iter_max_Some[of "map rule_decision ms"] by (simp add: from_matches_def)

text \<open>The decision for one command: the strictest deciding rule, or the fallback.\<close>

definition decision_for :: "path_env \<Rightarrow> policy \<Rightarrow> (rstr list \<Rightarrow> decision) \<Rightarrow> bool \<Rightarrow> rstr list \<Rightarrow> decision" where
  "decision_for env p fallback resolve cmd =
     (if deciding env p resolve cmd = [] then fallback cmd
      else Max (rule_decision ` set (deciding env p resolve cmd)))"

lemma check_with_options_decision:
  "check_with_options env p cmd fallback resolve =
     Some \<lparr>eval_decision = decision_for env p fallback resolve cmd,
           matched_rules = matches_for_command_with_options env p cmd (Some fallback) resolve\<rparr>"
  by (simp add: check_with_options_def matches_with_fallback from_matches_Some decision_for_def)

lemma check_multiple_decision:
  assumes "cmds \<noteq> []"
  shows "check_multiple_with_options env p cmds fallback resolve =
    Some \<lparr>eval_decision = Max (decision_for env p fallback resolve ` set cmds),
          matched_rules = concat (map (\<lambda>c. matches_for_command_with_options env p c (Some fallback) resolve) cmds)\<rparr>"
proof -
  let ?ms = "\<lambda>c. matches_for_command_with_options env p c (Some fallback) resolve"
  have ne: "?ms c \<noteq> []" for c by (simp add: matches_with_fallback)
  have one: "Max (rule_decision ` set (?ms c)) = decision_for env p fallback resolve c" for c
    by (simp add: matches_with_fallback decision_for_def)
  have "Max (rule_decision ` set (concat (map ?ms cmds))) = Max (decision_for env p fallback resolve ` set cmds)"
  proof (rule Max_eqI)
    show "d \<le> Max (decision_for env p fallback resolve ` set cmds)"
      if "d \<in> rule_decision ` set (concat (map ?ms cmds))" for d
    proof -
      from that obtain c where c: "c \<in> set cmds" "d \<in> rule_decision ` set (?ms c)" by auto
      then have "d \<le> decision_for env p fallback resolve c" using one[of c] by (metis Max_ge finite_imageI finite_set)
      with c(1) show ?thesis by (meson Max_ge finite_imageI finite_set image_eqI order_trans)
    qed
    have "Max (decision_for env p fallback resolve ` set cmds) \<in> decision_for env p fallback resolve ` set cmds"
      using assms by (intro Max_in) auto
    then obtain c where c: "c \<in> set cmds"
      "Max (decision_for env p fallback resolve ` set cmds) = decision_for env p fallback resolve c" by auto
    moreover have "decision_for env p fallback resolve c \<in> rule_decision ` set (?ms c)"
      unfolding one[symmetric] using ne by (intro Max_in) auto
    ultimately show "Max (decision_for env p fallback resolve ` set cmds) \<in> rule_decision ` set (concat (map ?ms cmds))"
      by auto
  qed simp
  then show ?thesis
    using assms ne by (simp add: check_multiple_with_options_def from_matches_Some)
qed

lemma Max_decision_Allow_iff:
  "finite D \<Longrightarrow> D \<noteq> {} \<Longrightarrow> Max D = Allow \<longleftrightarrow> (\<forall>d \<in> D. d = Allow)"
  by (metis Max_ge Max_in le_Allow_iff)

lemma Max_decision_Forbidden_iff:
  "finite D \<Longrightarrow> D \<noteq> {} \<Longrightarrow> Max D = Forbidden \<longleftrightarrow> Forbidden \<in> D"
  by (metis Max_ge Max_in Forbidden_le_iff)

text \<open>Adding an allowing rule: it can only add allowing matches, and its own tokens then match.\<close>

lemma add_prefix_rule_rules:
  "add_prefix_rule (w # ws) Allow p = Inr p' \<Longrightarrow>
     rules_for (rules_by_program p') k = rules_for (rules_by_program p) k @ (if k = w then [prefix_rule_of w ws Allow] else [])
     \<and> host_executables_by_name p' = host_executables_by_name p"
  by (auto simp: add_prefix_rule_def rules_for_insert)

lemma exact_matches_add:
  assumes "add_prefix_rule (w # ws) Allow p = Inr p'"
  shows "exact_matches p' cmd =
    exact_matches p cmd @ (if starts_with (w # ws) cmd then [PrefixRuleMatch (w # ws) Allow None None] else [])"
  using add_prefix_rule_rules[OF assms]
  by (cases cmd) (auto simp: exact_matches_rules map_filter_append List.map_filter_simps prefix_rule_of_matches)

lemma host_matches_add:
  assumes "add_prefix_rule (w # ws) Allow p = Inr p'"
  shows "\<exists>ms. match_host_executable_rules env p' cmd = match_host_executable_rules env p cmd @ ms
    \<and> list_all (\<lambda>m. rule_decision m = Allow) ms"
proof -
  have ex: "host_path_excluded p' = host_path_excluded p"
    using add_prefix_rule_rules[OF assms] by (intro ext) (simp add: host_path_excluded_def)
  show ?thesis
    unfolding match_host_executable_rules_alt ex
    using add_prefix_rule_rules[OF assms]
    by (auto simp: map_filter_append List.map_filter_simps prefix_rule_of_matches split: list.splits option.splits)
qed

lemma deciding_add:
  assumes "add_prefix_rule (w # ws) Allow p = Inr p'"
    and "list_all (\<lambda>m. rule_decision m = Allow) (deciding env p resolve cmd)"
  shows "list_all (\<lambda>m. rule_decision m = Allow) (deciding env p' resolve cmd)"
    and "deciding env p resolve cmd \<noteq> [] \<Longrightarrow> deciding env p' resolve cmd \<noteq> []"
    and "deciding env p' resolve (w # ws) \<noteq> []"
proof -
  obtain ms where ms: "match_host_executable_rules env p' cmd = match_host_executable_rules env p cmd @ ms"
    "list_all (\<lambda>m. rule_decision m = Allow) ms" using host_matches_add[OF assms(1)] by blast
  note exact = exact_matches_add[OF assms(1), of cmd]
  show "list_all (\<lambda>m. rule_decision m = Allow) (deciding env p' resolve cmd)"
    using assms(2) ms exact by (cases "exact_matches p cmd = []") (auto simp: deciding_alt split: if_splits)
  show "deciding env p resolve cmd \<noteq> [] \<Longrightarrow> deciding env p' resolve cmd \<noteq> []"
    using ms(1) exact by (auto simp: deciding_alt split: if_splits)
  show "deciding env p' resolve (w # ws) \<noteq> []"
    using exact_matches_add[OF assms(1), of "w # ws"] starts_with_append[of "w # ws" "[]"] by (simp add: deciding_alt)
qed

section \<open>Overlays\<close>

lemma exact_matches_merge:
  assumes "wf_rules (rules_by_program overlay)"
  shows "exact_matches (merge_overlay p overlay) cmd = exact_matches p cmd @ exact_matches overlay cmd"
  using assms
  by (cases cmd) (simp_all add: exact_matches_rules merge_overlay_def wf_rules_def rules_for_extend map_filter_append)

text \<open>
  C20. Merging an overlay into a policy (the way the rules of an administrator are added to those of
  the user) can only tighten what exact rules decide. For every command with an exact rule in the
  policy or in the overlay, the merged policy decides the strictest of all these rules: no rule of
  either side is dropped or overridden, and the fallback has no say. Network rules of the overlay
  come after those of the policy, and the multimap invariant is kept.
\<close>

theorem merge_overlay_strictest:
  assumes "wf_rules (rules_by_program p)" "wf_rules (rules_by_program overlay)"
    and "exact_matches p cmd @ exact_matches overlay cmd \<noteq> []"
    and "merged = merge_overlay p overlay"
  shows "wf_rules (rules_by_program merged)
    \<and> network_rules merged = network_rules p @ network_rules overlay
    \<and> (\<exists>e. check_with_options env merged cmd fallback resolve = Some e
        \<and> matched_rules e = exact_matches p cmd @ exact_matches overlay cmd
        \<and> (\<forall>m \<in> set (matched_rules e). rule_decision m \<le> eval_decision e)
        \<and> (\<exists>m \<in> set (matched_rules e). rule_decision m = eval_decision e))"
proof -
  let ?ms = "exact_matches p cmd @ exact_matches overlay cmd"
  have merged: "exact_matches merged cmd = ?ms" using exact_matches_merge assms(2,4) by simp
  have dec: "deciding env merged resolve cmd = ?ms" unfolding deciding_alt merged by (rule if_P[OF assms(3)])
  let ?e = "\<lparr>eval_decision = Max (rule_decision ` set ?ms), matched_rules = ?ms\<rparr>"
  have "check_with_options env merged cmd fallback resolve = Some ?e"
    unfolding check_with_options_decision matches_with_fallback decision_for_def dec using assms(3) by (simp only: if_False)
  moreover have "Max (rule_decision ` set ?ms) \<in> rule_decision ` set ?ms" using assms(3) by (intro Max_in) auto
  then have "\<exists>m \<in> set ?ms. rule_decision m = Max (rule_decision ` set ?ms)" by (metis imageE)
  ultimately have "\<exists>e. check_with_options env merged cmd fallback resolve = Some e \<and> matched_rules e = ?ms
      \<and> (\<forall>m \<in> set (matched_rules e). rule_decision m \<le> eval_decision e)
      \<and> (\<exists>m \<in> set (matched_rules e). rule_decision m = eval_decision e)"
    by (intro exI[of _ ?e]) (simp del: set_append)
  moreover have "wf_rules (rules_by_program merged)" "network_rules merged = network_rules p @ network_rules overlay"
    using wf_rules_extend[OF assms(1,2)] by (simp_all add: assms(4) merge_overlay_def)
  ultimately show ?thesis by blast
qed

definition sample_policy :: "rstr list \<Rightarrow> decision \<Rightarrow> policy" where
  "sample_policy pre d = (case add_prefix_rule pre d policy_empty of Inr p \<Rightarrow> p | Inl _ \<Rightarrow> policy_empty)"

lemma sample_policy_wf: "wf_rules (rules_by_program (sample_policy pre d))"
  using wf_rules_empty wf_add_prefix_rule[of pre d policy_empty]
  by (auto simp: sample_policy_def split: sum.splits)

theorem merge_overlay_strictest_witness:
  "(case check_with_options \<lparr>env_home = None, env_cwd = None\<rparr>
        (merge_overlay (sample_policy [lit ''git''] Allow) (sample_policy [lit ''git'', lit ''push''] Forbidden))
        [lit ''git'', lit ''push''] (\<lambda>_. Allow) False of
      Some e \<Rightarrow> eval_decision e = Forbidden | None \<Rightarrow> False)"
proof -
  let ?p = "sample_policy [lit ''git''] Allow" and ?o = "sample_policy [lit ''git'', lit ''push''] Forbidden"
  let ?cmd = "[lit ''git'', lit ''push'']"
  have ms: "exact_matches ?p ?cmd @ exact_matches ?o ?cmd
      = [PrefixRuleMatch [lit ''git''] Allow None None, PrefixRuleMatch ?cmd Forbidden None None]" by code_simp
  then have "exact_matches ?p ?cmd @ exact_matches ?o ?cmd \<noteq> []" by simp
  from merge_overlay_strictest[OF sample_policy_wf sample_policy_wf this refl,
      of "\<lparr>env_home = None, env_cwd = None\<rparr>" "\<lambda>_. Allow" False] ms
  show ?thesis by auto
qed

section \<open>Network rules\<close>

text \<open>The specification: the last rule for a host that is not a prompt decides.\<close>

fun domain_step :: "(rstr \<rightharpoonup> decision) \<Rightarrow> network_rule \<Rightarrow> (rstr \<rightharpoonup> decision)" where
  "domain_step m rule = (if net_decision rule = Prompt then m else m(net_host rule \<mapsto> net_decision rule))"

fun decides :: "rstr list \<times> rstr list \<Rightarrow> (rstr \<rightharpoonup> decision) \<Rightarrow> bool" where
  "decides (allowed, denied) m \<longleftrightarrow> distinct allowed \<and> distinct denied
     \<and> (\<forall>h. h \<in> set allowed \<longleftrightarrow> m h = Some Allow) \<and> (\<forall>h. h \<in> set denied \<longleftrightarrow> m h = Some Forbidden)"

interpretation network_domains: simulation compile_network_rule domain_step decides
proof
  fix s :: "rstr list \<times> rstr list" and m rule
  obtain allowed denied where s: "s = (allowed, denied)" by (cases s)
  assume "decides s m"
  then show "decides (compile_network_rule s rule) (domain_step m rule)"
    by (cases "net_decision rule") (auto simp: s upsert_domain_def)
qed

definition decisive_rule :: "policy \<Rightarrow> rstr \<Rightarrow> network_rule option" where
  "decisive_rule p host =
     last_opt (filter (\<lambda>r. net_host r = host \<and> net_decision r \<noteq> Prompt) (network_rules p))"

lemma domain_steps:
  "foldl domain_step Map.empty rules host =
     map_option net_decision (last_opt (filter (\<lambda>r. net_host r = host \<and> net_decision r \<noteq> Prompt) rules))"
  by (induction rules rule: rev_induct) (auto simp: last_opt_def)

lemma compiled_domains_decisive:
  "(let (allowed, denied) = compiled_network_domains p in
     distinct (allowed @ denied)
     \<and> (host \<in> set allowed \<longleftrightarrow> map_option net_decision (decisive_rule p host) = Some Allow)
     \<and> (host \<in> set denied \<longleftrightarrow> map_option net_decision (decisive_rule p host) = Some Forbidden))"
proof -
  obtain allowed denied where c: "compiled_network_domains p = (allowed, denied)" by fastforce
  have "decides ([], []) Map.empty" by simp
  from network_domains.run_rel[OF this, of "network_rules p"]
  have "decides (allowed, denied) (foldl domain_step Map.empty (network_rules p))"
    using c by (simp add: compiled_network_domains_def)
  then show ?thesis by (auto simp: c decisive_rule_def domain_steps)
qed

text \<open>
  C25. The compiled network domains: a host is allowed exactly when the last rule about it that is
  not a prompt allows it, and denied exactly when that rule forbids it, so later rules win and no
  host is both allowed and denied or listed twice.
\<close>

theorem compiled_domains_last_rule_wins:
  "(let (allowed, denied) = compiled_network_domains p in
     distinct (allowed @ denied)
     \<and> (host \<in> set allowed \<longleftrightarrow> map_option net_decision (decisive_rule p host) = Some Allow)
     \<and> (host \<in> set denied \<longleftrightarrow> map_option net_decision (decisive_rule p host) = Some Forbidden))"
  by (rule compiled_domains_decisive)

subsection \<open>Spellings of a host\<close>

abbreviation host_char :: "rchar \<Rightarrow> bool" where
  "host_char c \<equiv> \<not> is_whitespace c \<and> c \<notin> {SLASH, 63, 35, 42}"

lemma contains_scheme: "SLASH \<notin> set s \<Longrightarrow> \<not> contains_str (lit ''://'') s"
  by (auto simp: contains_str_def find_sub_None_iff lit_def)

lemma lower_whitespace: "is_whitespace (to_ascii_lower_char c) = is_whitespace c"
  by (auto simp: is_whitespace_def to_ascii_lower_char_def)

lemma lower_host_char: "host_char (to_ascii_lower_char c) = host_char c"
  by (auto simp: lower_whitespace) (auto simp: to_ascii_lower_char_def split: if_splits)

lemma to_ascii_lowercase_idem [simp]: "to_ascii_lowercase (to_ascii_lowercase s) = to_ascii_lowercase s"
  by (auto simp: to_ascii_lowercase_def to_ascii_lower_char_def)

lemma trim_end_matches_dots:
  "h \<noteq> [] \<Longrightarrow> last h \<noteq> DOT \<Longrightarrow> trim_end_matches DOT (h @ replicate n DOT) = h"
  by (cases h rule: rev_cases) (auto simp: trim_end_matches_def dropWhile_append)

lemma trim_end_matches_subset: "set (trim_end_matches c s) \<subseteq> set s"
  by (auto simp: trim_end_matches_def dest: set_dropWhileD)

text \<open>A port, when there is one: a colon and digits.\<close>

definition port_suffix :: "rstr \<Rightarrow> bool" where
  "port_suffix s \<longleftrightarrow> s = [] \<or> (\<exists>digits. s = COLON # digits \<and> all_digits digits)"

lemma digit_char: "is_ascii_digit c \<Longrightarrow> host_char c \<and> c \<noteq> COLON \<and> c \<noteq> DOT"
  by (auto simp: is_ascii_digit_def is_whitespace_def)

lemma port_chars: "port_suffix s \<Longrightarrow> c \<in> set s \<Longrightarrow> host_char c \<and> c \<noteq> DOT"
  using digit_char by (fastforce simp: port_suffix_def all_digits_def list_all_iff is_whitespace_def)

lemma strip_port_suffix:
  assumes "COLON \<notin> set h" "h \<noteq> []" "port_suffix port"
  shows "strip_port (h @ port) = h"
proof (cases "port = []")
  case True
  with assms(1) have "filter (\<lambda>c. c = COLON) (h @ port) = []" by (auto simp: filter_empty_conv)
  then show ?thesis using True unfolding strip_port_def by simp
next
  case False
  with assms(3) obtain digits where d: "port = COLON # digits" "all_digits digits" by (auto simp: port_suffix_def)
  have nc: "COLON \<notin> set digits" using d(2) digit_char by (auto simp: all_digits_def list_all_iff)
  have "filter (\<lambda>c. c = COLON) h = []" "filter (\<lambda>c. c = COLON) digits = []"
    using assms(1) nc by (auto simp: filter_empty_conv)
  then have "length (filter (\<lambda>c. c = COLON) (h @ port)) = 1" by (simp add: d(1))
  then show ?thesis using d rsplit_once_mid[OF nc, of h] assms(2) by (simp add: strip_port_def)
qed

lemma normalize_unbracketed:
  assumes "trim raw = host" "host \<noteq> []" "\<forall>c\<in>set host. c \<notin> {SLASH, 63, 35}"
    and "unbracket_host raw host = Inr (h @ replicate n DOT)"
    and "h \<noteq> []" "last h \<noteq> DOT" "\<forall>c\<in>set h. host_char c"
  shows "normalize_network_rule_host raw = Inr (to_ascii_lowercase h)"
proof -
  have "trim (trim_end_matches DOT (h @ replicate n DOT)) = h"
    using trim_padded[of "[]" "[]" h] assms(5-7) by (simp add: trim_end_matches_dots)
  moreover have "42 \<notin> set (to_ascii_lowercase h)" "\<not> list_ex is_whitespace (to_ascii_lowercase h)"
    using assms(7) lower_host_char by (fastforce simp: to_ascii_lowercase_def list_ex_iff)+
  moreover have "to_ascii_lowercase h \<noteq> []" using assms(5) by (simp add: to_ascii_lowercase_def)
  ultimately show ?thesis
    using assms(1-4) contains_scheme[of host] by (auto simp: normalize_network_rule_host_def Let_def)
qed

lemma normalize_network_rule_host_chars:
  assumes "normalize_network_rule_host raw = Inr h"
  shows "h \<noteq> [] \<and> to_ascii_lowercase h = h \<and> (\<forall>c\<in>set h. \<not> is_whitespace c \<and> c \<noteq> 42)"
  using assms
  by (auto simp: normalize_network_rule_host_def Let_def list_ex_iff split: if_splits sum.splits)

lemma unbracket_plain: "s \<noteq> [] \<Longrightarrow> hd s \<noteq> 91 \<Longrightarrow> unbracket_host raw s = Inr (strip_port s)"
  by (cases s) (simp_all add: unbracket_host_def lit_def)

lemma port_suffix_cases:
  "port_suffix port \<Longrightarrow>
   port = [] \<or> (case strip_prefix [COLON] port of Some d \<Rightarrow> all_digits d | None \<Rightarrow> False)"
  by (auto simp: port_suffix_def)

lemma unbracket_bracketed:
  assumes "93 \<notin> set h" "port_suffix port"
  shows "unbracket_host raw (91 # h @ 93 # port) = Inr h"
proof -
  have "strip_prefix (lit ''['') (91 # h @ 93 # port) = Some (h @ 93 # port)" by (simp add: lit_def)
  then show ?thesis
    using port_suffix_cases[OF assms(2)] unfolding unbracket_host_def
    by (simp only: option.case split_once_mid[OF assms(1)] prod.case Let_def) auto
qed

lemma host_text_chars:
  assumes "\<forall>c\<in>set h. host_char c" "port_suffix port" "c \<in> set h \<union> set port \<union> {DOT, 91, 93}"
  shows "host_char c"
proof -
  have punctuation: "host_char DOT" "host_char 91" "host_char 93" by (simp_all add: is_whitespace_def)
  from assms(3) consider "c \<in> set h" | "c \<in> set port" | "c = DOT" | "c = 91" | "c = 93" by blast
  then show ?thesis using punctuation assms(1) port_chars[OF assms(2), of c] by cases simp_all
qed

text \<open>
  Network rules are kept under one spelling per host. Whatever the letter case, the surrounding
  blanks, the dots at the end and the port (with brackets around an address that has colons of its
  own), a host is stored as its lower-case name; and every stored host is not empty, in lower case,
  and free of blanks and wildcards.
\<close>

theorem host_spellings_agree:
  assumes "\<forall>c\<in>set h. host_char c" "h \<noteq> []" "last h \<noteq> DOT" "port_suffix port"
    and "\<forall>c\<in>set v. is_whitespace c" "\<forall>c\<in>set w. is_whitespace c"
  shows "(COLON \<notin> set h \<longrightarrow> hd h \<noteq> 91 \<longrightarrow>
            normalize_network_rule_host (v @ h @ replicate n DOT @ port @ w) = Inr (to_ascii_lowercase h))
    \<and> (93 \<notin> set h \<longrightarrow>
            normalize_network_rule_host (v @ [91] @ h @ [93] @ port @ w) = Inr (to_ascii_lowercase h))
    \<and> (\<forall>raw stored. normalize_network_rule_host raw = Inr stored \<longrightarrow>
            stored \<noteq> [] \<and> to_ascii_lowercase stored = stored \<and> (\<forall>c\<in>set stored. \<not> is_whitespace c \<and> c \<noteq> 42))"
proof (intro conjI impI)
  assume colon: "COLON \<notin> set h" and bracket: "hd h \<noteq> 91"
  let ?s = "h @ replicate n DOT @ port"
  have chars: "\<forall>c\<in>set ?s. host_char c"
    using host_text_chars[OF assms(1,4)] by (metis Un_iff insertCI set_append in_set_replicate)
  have ends: "?s \<noteq> []" "\<not> is_whitespace (hd ?s)" "\<not> is_whitespace (last ?s)"
    using chars assms(2) by (simp, metis hd_in_set append_is_Nil_conv, metis last_in_set append_is_Nil_conv)
  have "unbracket_host (v @ ?s @ w) ?s = Inr (h @ replicate n DOT)"
    using strip_port_suffix[of "h @ replicate n DOT" port] unbracket_plain[of ?s] ends(1) colon assms(2,4) bracket
    by simp
  then have "normalize_network_rule_host (v @ ?s @ w) = Inr (to_ascii_lowercase h)"
    using normalize_unbracketed[OF trim_padded[OF assms(5,6) ends] ends(1) _ _ assms(2,3,1)] chars by blast
  then show "normalize_network_rule_host (v @ h @ replicate n DOT @ port @ w) = Inr (to_ascii_lowercase h)" by simp
next
  assume close: "93 \<notin> set h"
  let ?s = "91 # h @ 93 # port"
  have chars: "\<forall>c\<in>set ?s. host_char c" using host_text_chars[OF assms(1,4)] by simp
  have ends: "?s \<noteq> []" "\<not> is_whitespace (hd ?s)" "\<not> is_whitespace (last ?s)"
    using chars by (simp, metis hd_in_set list.distinct(1), metis last_in_set list.distinct(1))
  have "unbracket_host (v @ ?s @ w) ?s = Inr (h @ replicate 0 DOT)" using unbracket_bracketed[OF close assms(4)] by simp
  then have "normalize_network_rule_host (v @ ?s @ w) = Inr (to_ascii_lowercase h)"
    using normalize_unbracketed[OF trim_padded[OF assms(5,6) ends] ends(1) _ _ assms(2,3,1)] chars by blast
  then show "normalize_network_rule_host (v @ [91] @ h @ [93] @ port @ w) = Inr (to_ascii_lowercase h)" by simp
qed (use normalize_network_rule_host_chars in blast)

theorem host_spellings_agree_witness:
  "normalize_network_rule_host ([SP] @ lit ''Example.COM'' @ replicate 1 DOT @ (COLON # lit ''443'') @ [SP]) = Inr (lit ''example.com'')
   \<and> normalize_network_rule_host ([] @ [91] @ lit ''::1'' @ [93] @ (COLON # lit ''80'') @ []) = Inr (lit ''::1'')"
proof -
  have a: "list_all host_char (lit ''Example.COM'')" "lit ''Example.COM'' \<noteq> []" "last (lit ''Example.COM'') \<noteq> DOT"
      "COLON \<notin> set (lit ''Example.COM'')" "hd (lit ''Example.COM'') \<noteq> 91"
      "to_ascii_lowercase (lit ''Example.COM'') = lit ''example.com''"
    and b: "list_all host_char (lit ''::1'')" "lit ''::1'' \<noteq> []" "last (lit ''::1'') \<noteq> DOT"
      "93 \<notin> set (lit ''::1'')" "to_ascii_lowercase (lit ''::1'') = lit ''::1''"
    and d: "all_digits (lit ''443'')" "all_digits (lit ''80'')" "is_whitespace SP"
    by code_simp+
  have p: "port_suffix (COLON # lit ''443'')" "port_suffix (COLON # lit ''80'')"
    using d(1,2) by (simp_all add: port_suffix_def)
  have w: "\<forall>c\<in>set [SP]. is_whitespace c" "\<forall>c\<in>set []. is_whitespace c" using d(3) by simp_all
  note first = host_spellings_agree[OF a(1)[unfolded list_all_iff] a(2,3) p(1) w(1) w(1), of 1]
    and second = host_spellings_agree[OF b(1)[unfolded list_all_iff] b(2,3) p(2) w(2) w(2), of 0]
  show ?thesis using first second a(4-6) b(4,5) by metis
qed

section \<open>Programs by basename\<close>

text \<open>
  With host executables resolved, a program in the current directory is decided by the rules of
  its bare name. The documentation speaks of absolute program paths only, but a relative path is
  made absolute first: as long as no list of host executables restricts the name, a rule that
  allows \<open>git\<close> also allows \<open>./git\<close>, whatever that file is.
\<close>

theorem relative_program_uses_basename_rules:
  assumes "is_absolute cwd" "plain_name name" "env = \<lparr>env_home = home, env_cwd = Some cwd\<rparr>"
    and "exact_matches p ((lit ''./'' @ name) # args) = []" "host_executables_by_name p name = None"
  shows "decision_for env p fallback True ((lit ''./'' @ name) # args) =
    (if exact_matches p (name # args) = [] then fallback ((lit ''./'' @ name) # args)
     else decision_for env p fallback False (name # args))"
proof -
  obtain program where prog: "from_absolute_path home (Some cwd) (lit ''./'' @ name) = Some program"
    "file_name program = Some name" using from_absolute_path_dot[OF assms(1,2)] by metis
  have "match_host_executable_rules env p ((lit ''./'' @ name) # args) =
      map (with_resolved_program program) (exact_matches p (name # args))"
    by (simp add: match_host_executable_rules_def assms(3,5) prog host_path_excluded_def exact_matches_rules
        rules_for_def split: option.splits)
  then have "deciding env p True ((lit ''./'' @ name) # args) =
      map (with_resolved_program program) (exact_matches p (name # args))"
    using assms(4) by (simp add: deciding_alt)
  moreover have "deciding env p False (name # args) = exact_matches p (name # args)" by (simp add: deciding_alt)
  ultimately show ?thesis by (simp add: decision_for_def image_image)
qed

theorem relative_program_uses_basename_rules_witness:
  "decision_for \<lparr>env_home = None, env_cwd = Some (lit ''/work'')\<rparr> (sample_policy [lit ''git''] Allow)
     (\<lambda>_. Forbidden) True [lit ''./git'', lit ''push''] = Allow"
proof -
  let ?p = "sample_policy [lit ''git''] Allow" and ?env = "\<lparr>env_home = None, env_cwd = Some (lit ''/work'')\<rparr>"
  have "is_absolute (lit ''/work'')" "plain_name (lit ''git'')"
    "exact_matches ?p ((lit ''./'' @ lit ''git'') # [lit ''push'']) = []"
    "host_executables_by_name ?p (lit ''git'') = None" by code_simp+
  note * = relative_program_uses_basename_rules[OF this(1,2) refl this(3,4), of None "\<lambda>_. Forbidden"]
  have "exact_matches ?p (lit ''git'' # [lit ''push'']) = [PrefixRuleMatch [lit ''git''] Allow None None]" by code_simp
  moreover have "lit ''./'' @ lit ''git'' = lit ''./git''" by code_simp
  ultimately show ?thesis using * by (simp add: decision_for_def deciding_alt)
qed

end
