(* ===== verification/Policy_Parser.thy ===== *)
theory Policy_Parser
  imports Exec_Policy
begin

text \<open>
  \<open>execpolicy/src/parser.rs\<close>: building a policy from rule files. A rule file is a Starlark program
  that calls three functions; the Starlark interpreter is a parameter that gives the calls a program
  makes, in order, and the error it ends with. The functions return nothing, so the calls do not
  depend on one another. Shell quoting (shlex), the \<open>Debug\<close> format of a rule and
  the text of an I/O error are parameters. The lookup keys are those of the platforms other than
  Windows.
\<close>

section \<open>Values\<close>

datatype starlark_value = SStr rstr | SList "starlark_value list" | SOther rstr

fun get_type :: "starlark_value \<Rightarrow> rstr" where
  "get_type (SStr _) = lit ''string''"
| "get_type (SList _) = lit ''list''"
| "get_type (SOther t) = t"

fun unpack_str :: "starlark_value \<Rightarrow> rstr option" where
  "unpack_str (SStr s) = Some s"
| "unpack_str _ = None"

fun collect_results :: "('a \<Rightarrow> 'e + 'b) \<Rightarrow> 'a list \<Rightarrow> 'e + 'b list" where
  "collect_results f [] = Inr []"
| "collect_results f (x # xs) =
     (case f x of
        Inl e \<Rightarrow> Inl e
      | Inr y \<Rightarrow> (case collect_results f xs of Inl e \<Rightarrow> Inl e | Inr ys \<Rightarrow> Inr (y # ys)))"

definition string_of :: "(rstr \<Rightarrow> policy_error) \<Rightarrow> starlark_value \<Rightarrow> (policy_error, rstr) rresult" where
  "string_of err v = (case unpack_str v of Some s \<Rightarrow> Inr s | None \<Rightarrow> Inl (err (get_type v)))"

definition parse_pattern_token :: "starlark_value \<Rightarrow> (policy_error, pattern_token) rresult" where
  "parse_pattern_token v =
     (case v of
        SStr s \<Rightarrow> Inr (Single s)
      | SList content \<Rightarrow>
          (case collect_results
                  (string_of (\<lambda>t. InvalidPattern (lit ''pattern alternative must be a string (got '' @ t @ lit '')''))) content of
             Inl e \<Rightarrow> Inl e
           | Inr [] \<Rightarrow> Inl (InvalidPattern (lit ''pattern alternatives cannot be empty''))
           | Inr [single] \<Rightarrow> Inr (Single single)
           | Inr tokens \<Rightarrow> Inr (Alts tokens))
      | SOther t \<Rightarrow>
          Inl (InvalidPattern (lit ''pattern element must be a string or list of strings (got '' @ t @ lit '')'')))"

definition parse_pattern :: "starlark_value list \<Rightarrow> (policy_error, pattern_token list) rresult" where
  "parse_pattern values =
     (case collect_results parse_pattern_token values of
        Inl e \<Rightarrow> Inl e
      | Inr [] \<Rightarrow> Inl (InvalidPattern (lit ''pattern cannot be empty''))
      | Inr tokens \<Rightarrow> Inr tokens)"

section \<open>Examples\<close>

record rule_text =
  shlex_split :: "rstr \<Rightarrow> rstr list option"
  shlex_join :: "rstr list \<Rightarrow> rstr option"
  debug_rule :: "prefix_rule \<Rightarrow> rstr"
  debug_match :: "rule_match \<Rightarrow> rstr"
  io_error_text :: rstr

definition parse_string_example :: "rule_text \<Rightarrow> rstr \<Rightarrow> (policy_error, rstr list) rresult" where
  "parse_string_example rt raw =
     (case shlex_split rt raw of
        None \<Rightarrow> Inl (InvalidExample (lit ''example string has invalid shell syntax''))
      | Some [] \<Rightarrow> Inl (InvalidExample (lit ''example cannot be an empty string''))
      | Some tokens \<Rightarrow> Inr tokens)"

definition parse_list_example :: "starlark_value list \<Rightarrow> (policy_error, rstr list) rresult" where
  "parse_list_example content =
     (case collect_results
             (string_of (\<lambda>t. InvalidExample (lit ''example tokens must be strings (got '' @ t @ lit '')''))) content of
        Inl e \<Rightarrow> Inl e
      | Inr [] \<Rightarrow> Inl (InvalidExample (lit ''example cannot be an empty list''))
      | Inr tokens \<Rightarrow> Inr tokens)"

definition parse_example :: "rule_text \<Rightarrow> starlark_value \<Rightarrow> (policy_error, rstr list) rresult" where
  "parse_example rt v =
     (case v of
        SStr raw \<Rightarrow> parse_string_example rt raw
      | SList content \<Rightarrow> parse_list_example content
      | SOther t \<Rightarrow> Inl (InvalidExample (lit ''example must be a string or list of strings (got '' @ t @ lit '')'')))"

definition parse_examples :: "rule_text \<Rightarrow> starlark_value list \<Rightarrow> (policy_error, rstr list list) rresult" where
  "parse_examples rt values = collect_results (parse_example rt) values"

definition render_example :: "rule_text \<Rightarrow> rstr list \<Rightarrow> rstr" where
  "render_example rt example = (case shlex_join rt example of Some s \<Rightarrow> s | None \<Rightarrow> lit ''unable to render example'')"

definition validate_match_examples ::
  "path_env \<Rightarrow> rule_text \<Rightarrow> policy \<Rightarrow> prefix_rule list \<Rightarrow> rstr list list \<Rightarrow> (policy_error, unit) rresult" where
  "validate_match_examples env rt p rules matches =
     (let unmatched = filter (\<lambda>ex. matches_for_command_with_options env p ex None True = []) matches
      in if unmatched = [] then Inr ()
         else Inl (ExampleDidNotMatch (map (debug_rule rt) rules) (map (render_example rt) unmatched) None))"

fun validate_not_match_examples ::
  "path_env \<Rightarrow> rule_text \<Rightarrow> policy \<Rightarrow> rstr list list \<Rightarrow> (policy_error, unit) rresult" where
  "validate_not_match_examples env rt p [] = Inr ()"
| "validate_not_match_examples env rt p (example # not_matches) =
     (case matches_for_command_with_options env p example None True of
        m # _ \<Rightarrow> Inl (ExampleDidMatch (debug_match rt m) (render_example rt example) None)
      | [] \<Rightarrow> validate_not_match_examples env rt p not_matches)"

section \<open>The builder\<close>

record pending_example_validation =
  pev_rules :: "prefix_rule list"
  pev_matches :: "rstr list list"
  pev_not_matches :: "rstr list list"
  pev_location :: "error_location option"

record policy_builder =
  b_rules :: rule_map
  b_network_rules :: "network_rule list"
  b_host_executables :: "rstr \<rightharpoonup> rstr list"
  b_pending :: "pending_example_validation list"

definition builder_new :: policy_builder where
  "builder_new = \<lparr>b_rules = [], b_network_rules = [], b_host_executables = Map.empty, b_pending = []\<rparr>"

definition add_rule :: "prefix_rule \<Rightarrow> policy_builder \<Rightarrow> policy_builder" where
  "add_rule r b = b\<lparr>b_rules := mm_insert (rule_program r) r (b_rules b)\<rparr>"

definition build :: "policy_builder \<Rightarrow> policy" where
  "build b = \<lparr>rules_by_program = b_rules b, network_rules = b_network_rules b,
     host_executables_by_name = b_host_executables b\<rparr>"

definition rules_only :: "prefix_rule list \<Rightarrow> rule_map" where
  "rules_only rules = foldl (\<lambda>m r. mm_insert (rule_program r) r m) [] rules"

definition attach_validation_location :: "error_location option \<Rightarrow> policy_error \<Rightarrow> policy_error" where
  "attach_validation_location location e = (case location of Some l \<Rightarrow> with_location l e | None \<Rightarrow> e)"

definition validation_policy :: "policy_builder \<Rightarrow> pending_example_validation \<Rightarrow> policy" where
  "validation_policy b v = \<lparr>rules_by_program = rules_only (pev_rules v), network_rules = [],
     host_executables_by_name = b_host_executables b\<rparr>"

fun validate_pending :: "path_env \<Rightarrow> rule_text \<Rightarrow> policy_builder \<Rightarrow> pending_example_validation list \<Rightarrow> (policy_error, unit) rresult" where
  "validate_pending env rt b [] = Inr ()"
| "validate_pending env rt b (v # vs) =
     (case validate_not_match_examples env rt (validation_policy b v) (pev_not_matches v) of
        Inl e \<Rightarrow> Inl (attach_validation_location (pev_location v) e)
      | Inr _ \<Rightarrow>
        (case validate_match_examples env rt (validation_policy b v) (pev_rules v) (pev_matches v) of
           Inl e \<Rightarrow> Inl (attach_validation_location (pev_location v) e)
         | Inr _ \<Rightarrow> validate_pending env rt b vs))"

definition validate_pending_examples_from ::
  "path_env \<Rightarrow> rule_text \<Rightarrow> nat \<Rightarrow> policy_builder \<Rightarrow> (policy_error, unit) rresult" where
  "validate_pending_examples_from env rt start b = validate_pending env rt b (drop start (b_pending b))"

section \<open>The functions of a rule file\<close>

text \<open>A resolved source span; the interpreter counts lines and columns from 0.\<close>

record file_span =
  span_filename :: rstr
  span_begin :: text_position
  span_end :: text_position

definition one_based :: "text_position \<Rightarrow> text_position" where
  "one_based p = \<lparr>tp_line = tp_line p + 1, tp_column = tp_column p + 1\<rparr>"

definition error_location_from_file_span :: "file_span \<Rightarrow> error_location" where
  "error_location_from_file_span span =
     \<lparr>loc_path = span_filename span,
      loc_range = \<lparr>tr_start = one_based (span_begin span), tr_end = one_based (span_end span)\<rparr>\<rparr>"

datatype builtin_call =
  PrefixRuleCall "starlark_value list" "rstr option" "starlark_value list option" "starlark_value list option"
    "rstr option" "file_span option"
| NetworkRuleCall rstr rstr rstr "rstr option"
| HostExecutableCall rstr "starlark_value list"

definition check_justification :: "rstr option \<Rightarrow> (policy_error, rstr option) rresult" where
  "check_justification justification =
     (if blank_justification justification then Inl (InvalidRule (lit ''justification cannot be empty''))
      else Inr justification)"

definition optional_examples :: "rule_text \<Rightarrow> starlark_value list option \<Rightarrow> (policy_error, rstr list list) rresult" where
  "optional_examples rt examples = (case examples of None \<Rightarrow> Inr [] | Some vs \<Rightarrow> parse_examples rt vs)"

definition bind_result :: "'e + 'a \<Rightarrow> ('a \<Rightarrow> 'e + 'b) \<Rightarrow> 'e + 'b" where
  "bind_result r f = (case r of Inl e \<Rightarrow> Inl e | Inr x \<Rightarrow> f x)"

definition prefix_rule_builtin ::
  "rule_text \<Rightarrow> starlark_value list \<Rightarrow> rstr option \<Rightarrow> starlark_value list option \<Rightarrow> starlark_value list option
   \<Rightarrow> rstr option \<Rightarrow> file_span option \<Rightarrow> policy_builder \<Rightarrow> (policy_error, policy_builder) rresult" where
  "prefix_rule_builtin rt pat d match_examples not_match_examples justification span b =
     bind_result (case d of Some raw \<Rightarrow> decision_parse raw | None \<Rightarrow> Inr Allow) (\<lambda>d.
     bind_result (check_justification justification) (\<lambda>justification.
     bind_result (parse_pattern pat) (\<lambda>pattern_tokens.
     bind_result (optional_examples rt match_examples) (\<lambda>matches.
     bind_result (optional_examples rt not_match_examples) (\<lambda>not_matches.
       case pattern_tokens of
         [] \<Rightarrow> Inl (InvalidPattern (lit ''pattern cannot be empty''))
       | first_token # remaining_tokens \<Rightarrow>
           let rules = map (\<lambda>head. \<lparr>pattern = \<lparr>pp_first = head, pp_rest = remaining_tokens\<rparr>, rule_dec = d,
                                    rule_justification = justification\<rparr>) (alternatives first_token);
               b = b\<lparr>b_pending := b_pending b @ [\<lparr>pev_rules = rules, pev_matches = matches,
                      pev_not_matches = not_matches, pev_location = map_option error_location_from_file_span span\<rparr>]\<rparr>
           in Inr (foldl (\<lambda>b r. add_rule r b) b rules))))))"

definition parse_network_rule_decision :: "rstr \<Rightarrow> (policy_error, decision) rresult" where
  "parse_network_rule_decision raw = (if raw = lit ''deny'' then Inr Forbidden else decision_parse raw)"

definition network_rule_builtin ::
  "rstr \<Rightarrow> rstr \<Rightarrow> rstr \<Rightarrow> rstr option \<Rightarrow> policy_builder \<Rightarrow> (policy_error, policy_builder) rresult" where
  "network_rule_builtin host protocol d justification b =
     bind_result (protocol_parse protocol) (\<lambda>protocol.
     bind_result (parse_network_rule_decision d) (\<lambda>d.
     bind_result (check_justification justification) (\<lambda>justification.
     bind_result (normalize_network_rule_host host) (\<lambda>host.
       Inr (b\<lparr>b_network_rules := b_network_rules b @
             [\<lparr>net_host = host, net_protocol = protocol, net_decision = d, net_justification = justification\<rparr>]\<rparr>)))))"

definition validate_host_executable_name :: "rstr \<Rightarrow> (policy_error, unit) rresult" where
  "validate_host_executable_name name =
     (if name = [] then Inl (InvalidRule (lit ''host_executable name cannot be empty''))
      else if length (components name) \<noteq> 1 \<or> file_name name \<noteq> Some name
      then Inl (InvalidRule (lit ''host_executable name must be a bare executable name (got '' @ name @ lit '')''))
      else Inr ())"

definition parse_literal_absolute_path :: "path_env \<Rightarrow> rule_text \<Rightarrow> rstr \<Rightarrow> (policy_error, rstr) rresult" where
  "parse_literal_absolute_path env rt raw =
     (if \<not> is_absolute raw
      then Inl (InvalidRule (lit ''host_executable paths must be absolute (got '' @ raw @ lit '')''))
      else (case from_absolute_path (env_home env) (env_cwd env) raw of
              Some p \<Rightarrow> Inr p
            | None \<Rightarrow> Inl (InvalidRule (lit ''invalid absolute path '' @ [96] @ raw @ [96] @ lit '': '' @ io_error_text rt))))"

abbreviation wrong_basename :: "rstr \<Rightarrow> rstr \<Rightarrow> policy_error" where
  "wrong_basename raw name \<equiv>
     InvalidRule (lit ''host_executable path '' @ [96] @ raw @ [96] @ lit '' must have basename '' @ [96] @ name @ [96])"

fun host_paths :: "path_env \<Rightarrow> rule_text \<Rightarrow> rstr \<Rightarrow> starlark_value list \<Rightarrow> rstr list \<Rightarrow> (policy_error, rstr list) rresult" where
  "host_paths env rt name [] parsed_paths = Inr parsed_paths"
| "host_paths env rt name (v # vs) parsed_paths =
     bind_result (string_of (\<lambda>t. InvalidRule (lit ''host_executable paths must be strings (got '' @ t @ lit '')'')) v) (\<lambda>raw.
     bind_result (parse_literal_absolute_path env rt raw) (\<lambda>path.
       case executable_path_lookup_key path of
         None \<Rightarrow> Inl (wrong_basename raw name)
       | Some path_name \<Rightarrow>
           if path_name \<noteq> executable_lookup_key name then Inl (wrong_basename raw name)
           else host_paths env rt name vs (if path \<in> set parsed_paths then parsed_paths else parsed_paths @ [path])))"

definition host_executable_builtin ::
  "path_env \<Rightarrow> rule_text \<Rightarrow> rstr \<Rightarrow> starlark_value list \<Rightarrow> policy_builder \<Rightarrow> (policy_error, policy_builder) rresult" where
  "host_executable_builtin env rt name values b =
     bind_result (validate_host_executable_name name) (\<lambda>_.
     bind_result (host_paths env rt name values []) (\<lambda>parsed_paths.
       Inr (b\<lparr>b_host_executables := (b_host_executables b)(executable_lookup_key name \<mapsto> parsed_paths)\<rparr>)))"

fun builtin :: "path_env \<Rightarrow> rule_text \<Rightarrow> builtin_call \<Rightarrow> policy_builder \<Rightarrow> (policy_error, policy_builder) rresult" where
  "builtin env rt (PrefixRuleCall pat d ms nms j span) b = prefix_rule_builtin rt pat d ms nms j span b"
| "builtin env rt (NetworkRuleCall host protocol d j) b = network_rule_builtin host protocol d j b"
| "builtin env rt (HostExecutableCall name values) b = host_executable_builtin env rt name values b"

section \<open>Parsing a rule file\<close>

text \<open>
  The interpreter: a syntax error, or the calls of the program and the error that ends it, if any.
  An error inside a call ends the program; the interpreter reports it as its own.
\<close>

record starlark =
  run_module :: "rstr \<Rightarrow> rstr \<Rightarrow> rstr + builtin_call list \<times> rstr option"
  call_error :: "policy_error \<Rightarrow> rstr"

fun eval_calls ::
  "starlark \<Rightarrow> path_env \<Rightarrow> rule_text \<Rightarrow> builtin_call list \<Rightarrow> rstr option \<Rightarrow> policy_builder \<Rightarrow> policy_builder \<times> (policy_error + unit)" where
  "eval_calls sl env rt [] final b = (b, case final of None \<Rightarrow> Inr () | Some msg \<Rightarrow> Inl (Starlark msg))"
| "eval_calls sl env rt (c # cs) final b =
     (case builtin env rt c b of
        Inl e \<Rightarrow> (b, Inl (Starlark (call_error sl e)))
      | Inr b' \<Rightarrow> eval_calls sl env rt cs final b')"

definition policy_parse ::
  "starlark \<Rightarrow> path_env \<Rightarrow> rule_text \<Rightarrow> rstr \<Rightarrow> rstr \<Rightarrow> policy_builder \<Rightarrow> policy_builder \<times> (policy_error + unit)" where
  "policy_parse sl env rt policy_identifier policy_file_contents b =
     (let pending_validation_count = length (b_pending b) in
      case run_module sl policy_identifier policy_file_contents of
        Inl msg \<Rightarrow> (b, Inl (Starlark msg))
      | Inr (calls, final) \<Rightarrow>
          (case eval_calls sl env rt calls final b of
             (b', Inl e) \<Rightarrow> (b', Inl e)
           | (b', Inr _) \<Rightarrow> (b', validate_pending_examples_from env rt pending_validation_count b')))"

section \<open>What a parsed file guarantees\<close>

lemma bind_result_Inr:
  "bind_result r f = Inr y \<longleftrightarrow> (\<exists>x. r = Inr x \<and> f x = Inr y)"
  by (cases r) (simp_all add: bind_result_def)

lemma add_rules_builder:
  "foldl (\<lambda>b r. add_rule r b) b rs = b\<lparr>b_rules := foldl (\<lambda>m r. mm_insert (rule_program r) r m) (b_rules b) rs\<rparr>"
  by (induction rs arbitrary: b) (simp_all add: add_rule_def)

lemma rules_for_programs:
  "rules_for (foldl (\<lambda>m r. mm_insert (rule_program r) r m) m rs) k =
     rules_for m k @ filter (\<lambda>r. rule_program r = k) rs"
  by (induction rs arbitrary: m) (auto simp: rules_for_insert)

text \<open>The rules of an entry of the pending validations are rules of the builder.\<close>

definition pending_known :: "policy_builder \<Rightarrow> bool" where
  "pending_known b \<longleftrightarrow>
     (\<forall>v \<in> set (b_pending b). \<forall>r \<in> set (pev_rules v). r \<in> set (rules_for (b_rules b) (rule_program r)))"

lemma prefix_rule_builtin_effect:
  assumes "prefix_rule_builtin rt pat d ms nms j span b = Inr b'"
  obtains dec t ts matches not_matches rules where
    "parse_pattern pat = Inr (t # ts)" "optional_examples rt ms = Inr matches"
    "optional_examples rt nms = Inr not_matches"
    "rules = map (\<lambda>head. \<lparr>pattern = \<lparr>pp_first = head, pp_rest = ts\<rparr>, rule_dec = dec, rule_justification = j\<rparr>)
       (alternatives t)"
    "b' = b\<lparr>b_pending := b_pending b @ [\<lparr>pev_rules = rules, pev_matches = matches, pev_not_matches = not_matches,
             pev_location = map_option error_location_from_file_span span\<rparr>],
            b_rules := foldl (\<lambda>m r. mm_insert (rule_program r) r m) (b_rules b) rules\<rparr>"
proof -
  from assms obtain dec j' tokens matches not_matches where j': "check_justification j = Inr j'"
    and parsed: "parse_pattern pat = Inr tokens"
      "optional_examples rt ms = Inr matches" "optional_examples rt nms = Inr not_matches"
    and result: "(case tokens of
         [] \<Rightarrow> Inl (InvalidPattern (lit ''pattern cannot be empty''))
       | first_token # remaining_tokens \<Rightarrow>
           let rules = map (\<lambda>head. \<lparr>pattern = \<lparr>pp_first = head, pp_rest = remaining_tokens\<rparr>, rule_dec = dec,
                                    rule_justification = j'\<rparr>) (alternatives first_token);
               b = b\<lparr>b_pending := b_pending b @ [\<lparr>pev_rules = rules, pev_matches = matches,
                      pev_not_matches = not_matches, pev_location = map_option error_location_from_file_span span\<rparr>]\<rparr>
           in Inr (foldl (\<lambda>b r. add_rule r b) b rules)) = Inr b'"
    unfolding prefix_rule_builtin_def bind_result_Inr by (elim exE conjE) (rule that)
  have "j' = j" using j' by (simp add: check_justification_def split: if_splits)
  moreover from result obtain t ts where "tokens = t # ts" by (cases tokens) simp_all
  ultimately show ?thesis using parsed result
    by (intro that[where t = t and ts = ts and dec = dec, OF _ _ _ refl]) (auto simp: Let_def add_rules_builder)
qed

lemma builtin_keeps:
  assumes "builtin env rt c b = Inr b'"
  shows "set (b_pending b) \<subseteq> set (b_pending b')" and "pending_known b \<Longrightarrow> pending_known b'"
proof -
  have "set (b_pending b) \<subseteq> set (b_pending b') \<and> (pending_known b \<longrightarrow> pending_known b')"
  proof (cases c)
    case (PrefixRuleCall pat d ms nms j span)
    with assms have "prefix_rule_builtin rt pat d ms nms j span b = Inr b'" by simp
    then show ?thesis
      by (rule prefix_rule_builtin_effect) (auto simp: pending_known_def rules_for_programs)
  next
    case (NetworkRuleCall host protocol d j)
    with assms show ?thesis by (auto simp: network_rule_builtin_def bind_result_Inr pending_known_def)
  next
    case (HostExecutableCall name vs)
    with assms show ?thesis by (auto simp: host_executable_builtin_def bind_result_Inr pending_known_def)
  qed
  then show "set (b_pending b) \<subseteq> set (b_pending b')" "pending_known b \<Longrightarrow> pending_known b'" by blast+
qed

lemma eval_calls_keeps:
  "eval_calls sl env rt cs final b = (b', Inr ()) \<Longrightarrow>
     set (b_pending b) \<subseteq> set (b_pending b') \<and> (pending_known b \<longrightarrow> pending_known b')"
proof (induction cs arbitrary: b)
  case (Cons c cs)
  then obtain b1 where b1: "builtin env rt c b = Inr b1" "eval_calls sl env rt cs final b1 = (b', Inr ())"
    by (auto split: sum.splits)
  then show ?case using Cons.IH[OF b1(2)] builtin_keeps[OF b1(1)] by blast
qed (simp split: option.splits)

lemma eval_calls_member:
  assumes "eval_calls sl env rt cs final b = (b', Inr ())" "c \<in> set cs"
  shows "\<exists>b1 b2. builtin env rt c b1 = Inr b2 \<and> set (b_pending b2) \<subseteq> set (b_pending b')"
  using assms
proof (induction cs arbitrary: b)
  case (Cons c' cs)
  then obtain b1 where b1: "builtin env rt c' b = Inr b1" "eval_calls sl env rt cs final b1 = (b', Inr ())"
    by (auto split: sum.splits)
  show ?case
  proof (cases "c = c'")
    case True
    then show ?thesis using b1(1) eval_calls_keeps[OF b1(2)] by blast
  next
    case False
    then show ?thesis using Cons.IH[OF b1(2)] Cons.prems(2) by simp
  qed
qed simp

lemma validate_not_match_ok:
  "validate_not_match_examples env rt p exs = Inr () \<longleftrightarrow> list_all (\<lambda>ex. deciding env p True ex = []) exs"
  by (induction exs) (auto simp: deciding_def split: list.splits)

lemma validate_pending_ok:
  "validate_pending env rt b vs = Inr () \<longleftrightarrow>
     list_all (\<lambda>v. list_all (\<lambda>ex. deciding env (validation_policy b v) True ex = []) (pev_not_matches v)
        \<and> list_all (\<lambda>ex. deciding env (validation_policy b v) True ex \<noteq> []) (pev_matches v)) vs"
proof (induction vs)
  case (Cons v vs)
  have "validate_match_examples env rt (validation_policy b v) (pev_rules v) (pev_matches v) = Inr () \<longleftrightarrow>
      list_all (\<lambda>ex. deciding env (validation_policy b v) True ex \<noteq> []) (pev_matches v)"
    by (simp add: validate_match_examples_def Let_def deciding_def filter_empty_conv list_all_iff)
  with Cons validate_not_match_ok[of env rt "validation_policy b v" "pev_not_matches v"] show ?case
    by (auto split: sum.splits)
qed simp

text \<open>More rules, with the same host executables, leave no matched command unmatched.\<close>

lemma map_filter_empty_mono:
  "set xs \<subseteq> set ys \<Longrightarrow> List.map_filter f ys = [] \<Longrightarrow> List.map_filter f xs = []"
  by (metis list.set_intros(1) map_filter_set neq_Nil_conv subsetD empty_iff empty_set)

lemma deciding_mono:
  assumes "\<And>k. set (rules_for (rules_by_program p) k) \<subseteq> set (rules_for (rules_by_program q) k)"
    and "host_executables_by_name p = host_executables_by_name q"
    and "deciding env p True cmd \<noteq> []"
  shows "deciding env q True cmd \<noteq> []"
proof
  assume "deciding env q True cmd = []"
  then have none: "exact_matches q cmd = []" "match_host_executable_rules env q cmd = []"
    by (simp_all add: deciding_alt split: if_splits)
  have "exact_matches p cmd = []"
    using none(1) map_filter_empty_mono[OF assms(1)] by (auto simp: exact_matches_rules split: list.splits)
  moreover have "match_host_executable_rules env p cmd = []"
    using none(2) map_filter_empty_mono[OF assms(1)]
    by (auto simp: match_host_executable_rules_alt host_path_excluded_def assms(2)
        split: list.splits option.splits if_splits)
  ultimately show False using assms(3) by (simp add: deciding_alt)
qed

lemma validation_policy_rules:
  assumes "pending_known b" "v \<in> set (b_pending b)"
  shows "set (rules_for (rules_by_program (validation_policy b v)) k) \<subseteq> set (rules_for (rules_by_program (build b)) k)"
  using assms by (auto simp: validation_policy_def build_def rules_only_def rules_for_programs pending_known_def)

lemma unmatched_own_rule:
  assumes "deciding env (validation_policy b v) True cmd = []" "r \<in> set (pev_rules v)"
  shows "rule_matches r cmd = None"
proof (rule ccontr)
  assume "rule_matches r cmd \<noteq> None"
  then obtain pre m where m: "matches_prefix (pattern r) cmd = Some pre" "rule_matches r cmd = Some m"
    by (auto simp: rule_matches_def)
  from m(1) obtain args where "cmd = rule_program r # args" by (auto simp: matches_prefix_iff rule_program_def)
  then have "m \<in> set (exact_matches (validation_policy b v) cmd)"
    using assms(2) m(2)
    by (auto simp: exact_matches_rules map_filter_set validation_policy_def rules_only_def rules_for_programs)
  then show False using assms(1) by (auto simp: deciding_alt split: if_splits)
qed

lemma policy_parse_ok:
  assumes "policy_parse sl env rt ident contents builder_new = (b, Inr ())"
    and "run_module sl ident contents = Inr (calls, final)"
  shows "eval_calls sl env rt calls final builder_new = (b, Inr ())"
    and "validate_pending env rt b (b_pending b) = Inr ()"
    and "pending_known b"
proof -
  show e: "eval_calls sl env rt calls final builder_new = (b, Inr ())"
    using assms by (auto simp: policy_parse_def Let_def split: prod.splits sum.splits)
  show "validate_pending env rt b (b_pending b) = Inr ()"
    using assms e by (simp add: policy_parse_def validate_pending_examples_from_def builder_new_def)
  show "pending_known b"
    using eval_calls_keeps[OF e] by (simp add: pending_known_def builder_new_def)
qed

text \<open>
  C11. The examples of a rule file are checked for good: when a file parses, every \<open>match\<close> example of
  every \<open>prefix_rule\<close> call is matched by a rule of the policy built from the file, whatever the other
  calls add, and no \<open>not_match\<close> example matches any of the prefixes of its own call.
\<close>

theorem parsed_examples_hold:
  assumes "policy_parse sl env rt ident contents builder_new = (b, Inr ())"
    and "run_module sl ident contents = Inr (calls, final)"
    and "PrefixRuleCall pat d ms nms j span \<in> set calls"
  shows "\<exists>t ts matches not_matches.
     parse_pattern pat = Inr (t # ts) \<and> optional_examples rt ms = Inr matches \<and>
     optional_examples rt nms = Inr not_matches \<and>
     list_all (\<lambda>ex. matches_for_command_with_options env (build b) ex None True \<noteq> []) matches \<and>
     list_all (\<lambda>ex. list_all (\<lambda>head. matches_prefix \<lparr>pp_first = head, pp_rest = ts\<rparr> ex = None) (alternatives t))
       not_matches"
proof -
  note ok = policy_parse_ok[OF assms(1,2)]
  obtain b1 b2 where call: "prefix_rule_builtin rt pat d ms nms j span b1 = Inr b2"
    and sub: "set (b_pending b2) \<subseteq> set (b_pending b)"
    using eval_calls_member[OF ok(1) assms(3)] by auto
  from call obtain dec t ts matches not_matches rules where parsed: "parse_pattern pat = Inr (t # ts)"
      "optional_examples rt ms = Inr matches" "optional_examples rt nms = Inr not_matches"
    and rules: "rules = map (\<lambda>head. \<lparr>pattern = \<lparr>pp_first = head, pp_rest = ts\<rparr>, rule_dec = dec,
       rule_justification = j\<rparr>) (alternatives t)"
    and b2: "b2 = b1\<lparr>b_pending := b_pending b1 @ [\<lparr>pev_rules = rules, pev_matches = matches, pev_not_matches = not_matches,
             pev_location = map_option error_location_from_file_span span\<rparr>],
            b_rules := foldl (\<lambda>m r. mm_insert (rule_program r) r m) (b_rules b1) rules\<rparr>"
    by (rule prefix_rule_builtin_effect)
  define v where "v = last (b_pending b2)"
  have v: "pev_rules v = rules" "pev_matches v = matches" "pev_not_matches v = not_matches" "v \<in> set (b_pending b2)"
    by (simp_all add: v_def b2)
  have mem: "v \<in> set (b_pending b)" using v(4) sub by blast
  then have checked: "list_all (\<lambda>ex. deciding env (validation_policy b v) True ex = []) not_matches"
      "list_all (\<lambda>ex. deciding env (validation_policy b v) True ex \<noteq> []) matches"
    using ok(2) v by (auto simp: validate_pending_ok list_all_iff)
  have "deciding env (build b) True ex \<noteq> []" if "ex \<in> set matches" for ex
    using deciding_mono[OF validation_policy_rules[OF ok(3) mem]] checked(2) that
    by (auto simp: list_all_iff validation_policy_def build_def)
  moreover have "matches_prefix \<lparr>pp_first = head, pp_rest = ts\<rparr> ex = None"
    if "ex \<in> set not_matches" "head \<in> set (alternatives t)" for ex head
  proof -
    have "\<lparr>pattern = \<lparr>pp_first = head, pp_rest = ts\<rparr>, rule_dec = dec, rule_justification = j\<rparr> \<in> set (pev_rules v)"
      using that(2) v(1) rules by simp
    from unmatched_own_rule[OF _ this] checked(1) that(1) show ?thesis
      by (fastforce simp: list_all_iff rule_matches_def)
  qed
  ultimately show ?thesis using parsed by (auto simp: list_all_iff deciding_def)
qed

definition sample_rule_text :: rule_text where
  "sample_rule_text = \<lparr>shlex_split = (\<lambda>s. Some [s]), shlex_join = (\<lambda>ws. Some (join (lit '' '') ws)),
     debug_rule = rule_program, debug_match = (\<lambda>m. []), io_error_text = lit ''error''\<rparr>"

definition sample_calls :: "builtin_call list" where
  "sample_calls =
     [PrefixRuleCall [SStr (lit ''git''), SList [SStr (lit ''status''), SStr (lit ''log'')]] None
        (Some [SList [SStr (lit ''git''), SStr (lit ''log'')]]) (Some [SStr (lit ''git'')]) None None]"

definition sample_starlark :: starlark where
  "sample_starlark = \<lparr>run_module = (\<lambda>_ _. Inr (sample_calls, None)), call_error = (\<lambda>_. [])\<rparr>"

lemma sample_parses:
  "snd (policy_parse sample_starlark \<lparr>env_home = None, env_cwd = None\<rparr> sample_rule_text [] [] builder_new) = Inr ()"
  by code_simp

theorem parsed_examples_hold_witness:
  "\<exists>b t ts matches not_matches.
     parse_pattern [SStr (lit ''git''), SList [SStr (lit ''status''), SStr (lit ''log'')]] = Inr (t # ts) \<and>
     optional_examples sample_rule_text (Some [SList [SStr (lit ''git''), SStr (lit ''log'')]]) = Inr matches \<and>
     optional_examples sample_rule_text (Some [SStr (lit ''git'')]) = Inr not_matches \<and>
     list_all (\<lambda>ex. matches_for_command_with_options \<lparr>env_home = None, env_cwd = None\<rparr> (build b) ex None True \<noteq> [])
       matches \<and>
     list_all (\<lambda>ex. list_all (\<lambda>head. matches_prefix \<lparr>pp_first = head, pp_rest = ts\<rparr> ex = None) (alternatives t))
       not_matches"
proof -
  obtain b where b: "policy_parse sample_starlark \<lparr>env_home = None, env_cwd = None\<rparr> sample_rule_text [] [] builder_new
      = (b, Inr ())" using sample_parses by (metis prod.collapse)
  have run: "run_module sample_starlark [] [] = Inr (sample_calls, None)" by (simp add: sample_starlark_def)
  show ?thesis
    by (rule exI[of _ b], rule parsed_examples_hold[OF b run]) (simp add: sample_calls_def)
qed

end
