(* ===== verification/Policy_Amend.thy ===== *)
theory Policy_Amend
  imports Exec_Policy
begin

text \<open>
  \<open>execpolicy/src/amend.rs\<close>: adding a rule to a policy file. The file system calls are a
  parameter, each with its error; JSON quoting (serde) is a parameter too.
\<close>

section \<open>Errors and file operations\<close>

datatype 'e amend_error =
  EmptyPrefix
| InvalidNetworkRule rstr
| MissingParent rstr
| CreatePolicyDir rstr 'e
| SerializePrefix rstr
| SerializeNetworkRule rstr
| OpenPolicyFile rstr 'e
| WritePolicyFile rstr 'e
| LockPolicyFile rstr 'e
| SeekPolicyFile rstr 'e
| ReadPolicyFile rstr 'e
| PolicyMetadata rstr 'e

text \<open>
  The calls on a world \<open>'w\<close> of files: \<open>create_dir\<close> tells whether the directory exists already;
  opening creates a missing file; writing goes to the end. An error may leave the world changed.
\<close>

record ('w, 'e) policy_fs =
  create_dir :: "rstr \<Rightarrow> 'w \<Rightarrow> 'w \<times> ('e + unit)"
  already_exists :: "'e \<Rightarrow> bool"
  open_append :: "rstr \<Rightarrow> 'w \<Rightarrow> 'w \<times> ('e + unit)"
  lock_file :: "rstr \<Rightarrow> 'w \<Rightarrow> 'w \<times> ('e + unit)"
  seek_start :: "rstr \<Rightarrow> 'w \<Rightarrow> 'w \<times> ('e + unit)"
  read_to_string :: "rstr \<Rightarrow> 'w \<Rightarrow> 'w \<times> ('e + rstr)"
  write_all :: "rstr \<Rightarrow> rstr \<Rightarrow> 'w \<Rightarrow> 'w \<times> ('e + unit)"

text \<open>A call whose error is wrapped and returned early.\<close>

definition attempt ::
  "('e \<Rightarrow> 'f) \<Rightarrow> 'w \<times> ('e + 'a) \<Rightarrow> ('w \<Rightarrow> 'a \<Rightarrow> 'w \<times> ('f + 'b)) \<Rightarrow> 'w \<times> ('f + 'b)" where
  "attempt wrap r k = (case r of (w, Inl e) \<Rightarrow> (w, Inl (wrap e)) | (w, Inr a) \<Rightarrow> k w a)"

section \<open>Appending a line\<close>

definition append_locked_line ::
  "('w, 'e) policy_fs \<Rightarrow> rstr \<Rightarrow> rstr \<Rightarrow> 'w \<Rightarrow> 'w \<times> ('e amend_error + unit)" where
  "append_locked_line fs policy_path line w =
     attempt (OpenPolicyFile policy_path) (open_append fs policy_path w) (\<lambda>w _.
     attempt (LockPolicyFile policy_path) (lock_file fs policy_path w) (\<lambda>w _.
     attempt (SeekPolicyFile policy_path) (seek_start fs policy_path w) (\<lambda>w _.
     attempt (ReadPolicyFile policy_path) (read_to_string fs policy_path w) (\<lambda>w contents.
       if line \<in> set (str_lines contents) then (w, Inr ())
       else attempt (WritePolicyFile policy_path)
              (if contents \<noteq> [] \<and> \<not> ends_with [LF] contents then write_all fs policy_path [LF] w else (w, Inr ()))
              (\<lambda>w _. attempt (WritePolicyFile policy_path) (write_all fs policy_path (line @ [LF]) w) (\<lambda>w _. (w, Inr ())))))))"

text \<open>
  \<open>Path::parent\<close>: none for the root and the empty path. The parent is spelt with single separators
  and without inner \<open>.\<close> components, which names the same directory.
\<close>

definition path_parent :: "rstr \<Rightarrow> rstr option" where
  "path_parent p =
     (case rev (components p) of
        [] \<Rightarrow> None
      | [RootDir] \<Rightarrow> None
      | _ # before \<Rightarrow> Some (as_os_str (foldl (\<lambda>(r, ns) c.
            case c of RootDir \<Rightarrow> (True, ns) | CurDir \<Rightarrow> (r, ns @ [lit ''.'']) | ParentDir \<Rightarrow> (r, ns @ [lit ''..''])
                    | Normal s \<Rightarrow> (r, ns @ [s])) (False, []) (rev before))))"

definition append_rule_line ::
  "('w, 'e) policy_fs \<Rightarrow> rstr \<Rightarrow> rstr \<Rightarrow> 'w \<Rightarrow> 'w \<times> ('e amend_error + unit)" where
  "append_rule_line fs policy_path rule w =
     (case path_parent policy_path of
        None \<Rightarrow> (w, Inl (MissingParent policy_path))
      | Some dir \<Rightarrow>
          (case create_dir fs dir w of
             (w, Inr _) \<Rightarrow> append_locked_line fs policy_path rule w
           | (w, Inl source) \<Rightarrow>
               if already_exists fs source then append_locked_line fs policy_path rule w
               else (w, Inl (CreatePolicyDir dir source))))"

section \<open>Rules\<close>

type_synonym to_json = "rstr \<Rightarrow> rstr + rstr"

fun json_all :: "to_json \<Rightarrow> rstr list \<Rightarrow> rstr + rstr list" where
  "json_all json [] = Inr []"
| "json_all json (t # ts) =
     (case json t of Inl e \<Rightarrow> Inl e | Inr j \<Rightarrow> (case json_all json ts of Inl e \<Rightarrow> Inl e | Inr js \<Rightarrow> Inr (j # js)))"

definition allow_rule_line :: "rstr list \<Rightarrow> rstr" where
  "allow_rule_line tokens =
     lit ''prefix_rule(pattern=['' @ join (lit '', '') tokens @ lit ''], decision='' @ [34] @ lit ''allow'' @ [34] @ lit '')''"

definition blocking_append_allow_prefix_rule ::
  "('w, 'e) policy_fs \<Rightarrow> to_json \<Rightarrow> rstr \<Rightarrow> rstr list \<Rightarrow> 'w \<Rightarrow> 'w \<times> ('e amend_error + unit)" where
  "blocking_append_allow_prefix_rule fs json policy_path pre w =
     (if pre = [] then (w, Inl EmptyPrefix)
      else case json_all json pre of
             Inl e \<Rightarrow> (w, Inl (SerializePrefix e))
           | Inr tokens \<Rightarrow> append_rule_line fs policy_path (allow_rule_line tokens) w)"

fun decision_word :: "decision \<Rightarrow> rstr" where
  "decision_word Allow = lit ''allow''"
| "decision_word Prompt = lit ''prompt''"
| "decision_word Forbidden = lit ''deny''"

text \<open>The messages of the errors; \<open>dbg\<close> is the \<open>Debug\<close> format of a list of strings.\<close>

fun policy_error_text :: "(rstr list \<Rightarrow> rstr) \<Rightarrow> policy_error \<Rightarrow> rstr" where
  "policy_error_text dbg (InvalidDecision s) = lit ''invalid decision: '' @ s"
| "policy_error_text dbg (InvalidPattern s) = lit ''invalid pattern element: '' @ s"
| "policy_error_text dbg (InvalidExample s) = lit ''invalid example: '' @ s"
| "policy_error_text dbg (InvalidRule s) = lit ''invalid rule: '' @ s"
| "policy_error_text dbg (Starlark s) = lit ''starlark error: '' @ s"
| "policy_error_text dbg (ExampleDidNotMatch rs es _) =
     lit ''expected every example to match at least one rule. rules: '' @ dbg rs
     @ lit ''; unmatched examples: '' @ dbg es"
| "policy_error_text dbg (ExampleDidMatch r e _) =
     lit ''expected example to not match rule '' @ [96] @ r @ [96] @ lit '': '' @ e"

definition blocking_append_network_rule ::
  "('w, 'e) policy_fs \<Rightarrow> to_json \<Rightarrow> (rstr list \<Rightarrow> rstr) \<Rightarrow> rstr \<Rightarrow> rstr \<Rightarrow> network_rule_protocol \<Rightarrow> decision \<Rightarrow> rstr option \<Rightarrow> 'w
   \<Rightarrow> 'w \<times> ('e amend_error + unit)" where
  "blocking_append_network_rule fs json dbg policy_path raw_host protocol d justification w =
     (case normalize_network_rule_host raw_host of
        Inl err \<Rightarrow> (w, Inl (InvalidNetworkRule (policy_error_text dbg err)))
      | Inr host \<Rightarrow>
          if blank_justification justification
          then (w, Inl (InvalidNetworkRule (lit ''justification cannot be empty'')))
          else (case json_all json ([host, as_policy_string protocol, decision_word d]
                    @ (case justification of None \<Rightarrow> [] | Some j \<Rightarrow> [j])) of
                  Inl e \<Rightarrow> (w, Inl (SerializeNetworkRule e))
                | Inr quoted \<Rightarrow>
                    append_rule_line fs policy_path
                      (lit ''network_rule('' @ join (lit '', '')
                         (map2 (@) [lit ''host='', lit ''protocol='', lit ''decision='', lit ''justification=''] quoted)
                       @ lit '')'') w))"

section \<open>What an append leaves in the file\<close>

text \<open>
  The laws of plain files, for \<open>content w p\<close> the text of the file \<open>p\<close>: opening creates an empty
  file and changes nothing else, locking, seeking, reading and making the directory change nothing,
  and a successful write adds at the end.
\<close>

definition amend_laws :: "('w, 'e) policy_fs \<Rightarrow> ('w \<Rightarrow> rstr option) \<Rightarrow> rstr \<Rightarrow> bool" where
  "amend_laws fs content p \<longleftrightarrow>
     (\<forall>w w' r. open_append fs p w = (w', Inr r) \<longrightarrow> content w' = Some (case content w of None \<Rightarrow> [] | Some c \<Rightarrow> c))
   \<and> (\<forall>w w' r. lock_file fs p w = (w', Inr r) \<longrightarrow> content w' = content w)
   \<and> (\<forall>w w' r. seek_start fs p w = (w', Inr r) \<longrightarrow> content w' = content w)
   \<and> (\<forall>w w' c. read_to_string fs p w = (w', Inr c) \<longrightarrow> content w' = content w \<and> content w = Some c)
   \<and> (\<forall>w w' t r. write_all fs p t w = (w', Inr r) \<longrightarrow> content w' = map_option (\<lambda>c. c @ t) (content w))
   \<and> (\<forall>d w w' r. create_dir fs d w = (w', r) \<longrightarrow> content w' = content w)"

definition terminated :: "rstr \<Rightarrow> rstr" where
  "terminated c = (if c \<noteq> [] \<and> \<not> ends_with [LF] c then c @ [LF] else c)"

definition with_line :: "rstr \<Rightarrow> rstr \<Rightarrow> rstr" where
  "with_line line c = (if line \<in> set (str_lines c) then c else terminated c @ line @ [LF])"

abbreviation old_text :: "rstr option \<Rightarrow> rstr" where
  "old_text c \<equiv> (case c of None \<Rightarrow> [] | Some t \<Rightarrow> t)"

lemma attempt_ok:
  "attempt wrap r k = (w', Inr b) \<longleftrightarrow> (\<exists>w a. r = (w, Inr a) \<and> k w a = (w', Inr b))"
  by (auto simp: attempt_def split: prod.splits sum.splits)

lemma amend_lawsD:
  assumes "amend_laws fs content p"
  shows "open_append fs p w = (w', Inr r) \<Longrightarrow> content w' = Some (old_text (content w))"
    and "lock_file fs p w = (w', Inr r) \<Longrightarrow> content w' = content w"
    and "seek_start fs p w = (w', Inr r) \<Longrightarrow> content w' = content w"
    and "read_to_string fs p w = (w', Inr c) \<Longrightarrow> content w' = content w \<and> content w = Some c"
    and "write_all fs p t w = (w', Inr r) \<Longrightarrow> content w' = map_option (\<lambda>c. c @ t) (content w)"
    and "create_dir fs d w = (w', res) \<Longrightarrow> content w' = content w"
  using assms unfolding amend_laws_def by blast+

lemma append_locked_line_content:
  assumes "amend_laws fs content p" "append_locked_line fs p line w = (w', Inr r)"
  shows "content w' = Some (with_line line (old_text (content w)))"
proof -
  note laws = amend_lawsD[OF assms(1)]
  from assms(2) obtain w1 w2 w3 w4 a1 a2 a3 c where
    steps: "open_append fs p w = (w1, Inr a1)" "lock_file fs p w1 = (w2, Inr a2)" "seek_start fs p w2 = (w3, Inr a3)"
      "read_to_string fs p w3 = (w4, Inr c)"
    and last: "(if line \<in> set (str_lines c) then (w4, Inr ())
       else attempt (WritePolicyFile p) (if c \<noteq> [] \<and> \<not> ends_with [LF] c then write_all fs p [LF] w4 else (w4, Inr ()))
              (\<lambda>w _. attempt (WritePolicyFile p) (write_all fs p (line @ [LF]) w) (\<lambda>w _. (w, Inr ())))) = (w', Inr r)"
    unfolding append_locked_line_def attempt_ok by (elim exE conjE)
  have c: "content w4 = Some c" "old_text (content w) = c"
    using laws(1)[OF steps(1)] laws(2)[OF steps(2)] laws(3)[OF steps(3)] laws(4)[OF steps(4)] by simp_all
  show ?thesis
  proof (cases "line \<in> set (str_lines c)")
    case True
    then have "w' = w4" using last by simp
    then show ?thesis using True c by (simp add: with_line_def)
  next
    case False
    from last[unfolded if_not_P[OF False] attempt_ok] obtain w5 w6 a5 a6 where
      w5: "(if c \<noteq> [] \<and> \<not> ends_with [LF] c then write_all fs p [LF] w4 else (w4, Inr ())) = (w5, Inr a5)"
      and w6: "write_all fs p (line @ [LF]) w5 = (w6, Inr a6)" "w6 = w'"
      by (elim exE conjE) (simp add: prod_eq_iff)
    have "content w5 = Some (terminated c)"
    proof (cases "c \<noteq> [] \<and> \<not> ends_with [LF] c")
      case True
      with w5 have "write_all fs p [LF] w4 = (w5, Inr a5)" by simp
      from laws(5)[OF this] True c(1) show ?thesis by (simp add: terminated_def)
    next
      case False
      with w5 have "w5 = w4" by (metis prod.inject)
      with False c(1) show ?thesis by (auto simp: terminated_def)
    qed
    with laws(5)[OF w6(1)] show ?thesis using False c(2) w6(2) by (simp add: with_line_def)
  qed
qed

lemma append_rule_line_content:
  assumes "amend_laws fs content p" "append_rule_line fs p line w = (w', Inr r)"
  shows "content w' = Some (with_line line (old_text (content w)))"
proof (cases "path_parent p")
  case None
  then show ?thesis using assms(2) by (simp add: append_rule_line_def)
next
  case (Some dir)
  obtain w1 r1 where dir: "create_dir fs dir w = (w1, r1)" by (metis surj_pair)
  have "append_locked_line fs p line w1 = (w', Inr r)"
  proof (cases r1)
    case (Inl e)
    then show ?thesis using assms(2) Some dir by (cases "already_exists fs e") (simp_all add: append_rule_line_def)
  next
    case (Inr u)
    then show ?thesis using assms(2) Some dir by (simp add: append_rule_line_def)
  qed
  from append_locked_line_content[OF assms(1) this] show ?thesis unfolding amend_lawsD(6)[OF assms(1) dir] .
qed

lemma str_lines_snoc_line:
  assumes "c \<noteq> [] \<longrightarrow> ends_with [LF] c" "LF \<notin> set line" "drop_cr line = line"
  shows "str_lines (c @ line @ [LF]) = str_lines c @ [line]"
proof (cases "c = []")
  case True
  then show ?thesis using assms(2,3) split_on_append_sep[of LF line "[]"] by (simp add: str_lines_def)
next
  case False
  then obtain d where d: "c = d @ LF # []" using assms(1) by (auto simp: ends_with_iff)
  have "split_on LF (c @ line @ [LF]) = split_on LF d @ [line, []]"
    using split_on_append[of LF d "line @ [LF]"] split_on_append_sep[OF assms(2), of "[]"] by (simp add: d)
  moreover have "split_on LF c = split_on LF d @ [[]]" using split_on_append[of LF d "[]"] by (simp add: d)
  ultimately show ?thesis using assms(3) by (simp add: str_lines_def butlast_append)
qed

lemma split_on_last: "\<exists>d. s = d @ last (split_on c s) \<and> (d = [] \<or> last d = c)"
proof (induction s)
  case (Cons x s)
  then obtain d where d: "s = d @ last (split_on c s)" "d = [] \<or> last d = c" by blast
  show ?case
  proof (cases "x = c")
    case True
    with d show ?thesis by (intro exI[of _ "x # d"]) auto
  next
    case False
    obtain p ps where ps: "split_on c s = p # ps" by (metis split_on_nonempty list.exhaust)
    show ?thesis
    proof (cases "ps = []")
      case True
      with ps have "p = s" using join_split_on[of c s] by simp
      then show ?thesis using False ps True by (intro exI[of _ "[]"]) simp
    next
      case ne: False
      have "d \<noteq> []"
      proof
        assume "d = []"
        with d(1) ps ne have "s = last ps" by simp
        then have "c \<notin> set s" using split_on_pieces[of "last ps" c s] ps ne by simp
        then show False using split_on_no_sep[of c s] ps ne by simp
      qed
      with d False ps ne show ?thesis by (intro exI[of _ "x # d"]) auto
    qed
  qed
qed simp

lemma str_lines_terminated:
  assumes "\<not> ends_with [CR] c"
  shows "str_lines (terminated c) = str_lines c"
proof (cases "c \<noteq> [] \<and> \<not> ends_with [LF] c")
  case True
  define q where "q = last (split_on LF c)"
  obtain d where d: "c = d @ q" "d = [] \<or> last d = LF" using split_on_last[of c LF] by (auto simp: q_def)
  have "q \<noteq> []"
  proof
    assume "q = []"
    with d True show False by (cases d rule: rev_cases) (auto simp: ends_with_iff)
  qed
  moreover have "drop_cr q = q"
  proof (cases "strip_suffix [CR] q")
    case (Some t)
    then have "ends_with [CR] c" using d(1) by (auto simp: strip_suffix_iff ends_with_iff)
    with assms show ?thesis by blast
  qed (simp add: drop_cr_def)
  moreover have "split_on LF c = butlast (split_on LF c) @ [q]" by (simp add: q_def)
  moreover have "split_on LF (c @ [LF]) = split_on LF c @ [[]]" using split_on_append[of LF c "[]"] by simp
  ultimately show ?thesis
    using True by (simp add: terminated_def str_lines_def Let_def q_def[symmetric]) (metis list.simps(8,9) map_append)
qed (auto simp: terminated_def)

text \<open>
  Adding a rule to a policy file that succeeds leaves the lines of the file and, when it is not
  among them already, the rule as one more line at the end (also when the last line had no line
  break). Adding the same rule again changes nothing.
\<close>

theorem append_rule_line_lines:
  assumes "amend_laws fs content p" "append_rule_line fs p line w = (w', Inr r)"
    and "LF \<notin> set line" "drop_cr line = line" "\<not> ends_with [CR] (old_text (content w))"
    and "append_rule_line fs p line w' = (w'', Inr r')"
  shows "str_lines (old_text (content w')) =
      (if line \<in> set (str_lines (old_text (content w))) then str_lines (old_text (content w))
       else str_lines (old_text (content w)) @ [line])
    \<and> content w'' = content w'"
proof -
  let ?c = "old_text (content w)"
  have c': "content w' = Some (with_line line ?c)" using append_rule_line_content[OF assms(1,2)] .
  have t: "terminated ?c \<noteq> [] \<longrightarrow> ends_with [LF] (terminated ?c)"
    by (simp add: terminated_def ends_with_iff)
  have lines: "str_lines (with_line line ?c) =
      (if line \<in> set (str_lines ?c) then str_lines ?c else str_lines ?c @ [line])"
    using str_lines_snoc_line[OF t assms(3,4)] str_lines_terminated[OF assms(5)] by (simp add: with_line_def)
  then have "line \<in> set (str_lines (with_line line ?c))" by simp
  then have "content w'' = content w'"
    using append_rule_line_content[OF assms(1,6)] c' by (simp add: with_line_def[of line "with_line line ?c"])
  with lines c' show ?thesis by simp
qed

text \<open>A world of one file in memory.\<close>

definition one_file_fs :: "(rstr option, unit) policy_fs" where
  "one_file_fs = \<lparr>create_dir = (\<lambda>_ w. (w, Inl ())), already_exists = (\<lambda>_. True),
     open_append = (\<lambda>_ w. (Some (old_text w), Inr ())), lock_file = (\<lambda>_ w. (w, Inr ())),
     seek_start = (\<lambda>_ w. (w, Inr ())),
     read_to_string = (\<lambda>_ w. (w, case w of None \<Rightarrow> Inl () | Some c \<Rightarrow> Inr c)),
     write_all = (\<lambda>_ t w. (map_option (\<lambda>c. c @ t) w, Inr ()))\<rparr>"

lemma one_file_laws: "amend_laws one_file_fs (\<lambda>w. w) p"
  by (auto simp: amend_laws_def one_file_fs_def split: option.splits)

theorem append_rule_line_lines_witness:
  "str_lines (old_text (fst (append_rule_line one_file_fs (lit ''/r/d'') (lit ''b'') (Some (lit ''a'')))))
     = [lit ''a'', lit ''b'']"
proof -
  let ?w = "fst (append_rule_line one_file_fs (lit ''/r/d'') (lit ''b'') (Some (lit ''a'')))"
  have 1: "append_rule_line one_file_fs (lit ''/r/d'') (lit ''b'') (Some (lit ''a'')) = (?w, Inr ())"
    "append_rule_line one_file_fs (lit ''/r/d'') (lit ''b'') ?w = (?w, Inr ())" by code_simp+
  have 2: "LF \<notin> set (lit ''b'')" "drop_cr (lit ''b'') = lit ''b''" "\<not> ends_with [CR] (old_text (Some (lit ''a'')))"
    "str_lines (old_text (Some (lit ''a''))) = [lit ''a'']" "lit ''b'' \<noteq> lit ''a''" by code_simp+
  from append_rule_line_lines[OF one_file_laws 1(1) 2(1-3) 1(2)] 2(4,5) show ?thesis by simp
qed

end
