(* ===== verification/Bash_Commands.thy ===== *)
theory Bash_Commands
  imports Absolute_Path "HOL-Library.Multiset"
begin

text \<open>
  \<open>shell-command/src/bash.rs\<close> and \<open>shell_detect.rs\<close>: which plain commands a script given to
  \<open>bash -lc\<close> (or \<open>zsh\<close>, \<open>sh\<close>) runs. The parser of the script is tree-sitter, a parameter that
  gives the syntax tree; everything the code does with the tree is modelled. A node carries its
  kind, whether it is named, its start, its text (\<open>None\<close> when it is not UTF-8) and its children.
\<close>

section \<open>Syntax trees\<close>

datatype node =
  Node (kind: rstr) (is_named: bool) (start_byte: nat) (utf8_text: "rstr option") (children: "node list")

record syntax_tree =
  has_error :: bool
  root_node :: node

definition named_children :: "node \<Rightarrow> node list" where
  "named_children n = filter is_named (children n)"

text \<open>Mapping with early return.\<close>

fun traverse :: "('a \<Rightarrow> 'b option) \<Rightarrow> 'a list \<Rightarrow> 'b list option" where
  "traverse f [] = Some []"
| "traverse f (x # xs) =
     (case f x of None \<Rightarrow> None | Some y \<Rightarrow> (case traverse f xs of None \<Rightarrow> None | Some ys \<Rightarrow> Some (y # ys)))"

section \<open>Plain commands\<close>

definition ALLOWED_KINDS :: "rstr list" where
  "ALLOWED_KINDS = [lit ''program'', lit ''list'', lit ''pipeline'', lit ''command'', lit ''command_name'',
     lit ''word'', lit ''string'', lit ''string_content'', lit ''raw_string'', lit ''number'', lit ''concatenation'']"

definition ALLOWED_PUNCT_TOKENS :: "rstr list" where
  "ALLOWED_PUNCT_TOKENS = [lit ''&&'', lit ''||'', lit '';'', lit ''|'', [34], [39]]"

definition rejected_node :: "node \<Rightarrow> bool" where
  "rejected_node n \<longleftrightarrow>
     (if is_named n then kind n \<notin> set ALLOWED_KINDS
      else (list_ex (\<lambda>c. c \<in> set (lit ''&;|'')) (kind n) \<and> kind n \<notin> set ALLOWED_PUNCT_TOKENS)
           \<or> \<not> (kind n \<in> set ALLOWED_PUNCT_TOKENS \<or> trim (kind n) = []))"

abbreviation is_command :: "node \<Rightarrow> bool" where
  "is_command n \<equiv> kind n = lit ''command''"

lemma size_list_rev_children: "size_list size (rev (children n)) < size n"
proof -
  have "size_list size (rev ns) = size_list size ns" for ns :: "node list" by (induction ns) auto
  then show ?thesis by (cases n) simp
qed

lemma size_list_named_children: "size_list size (rev (named_children n)) < size n"
proof -
  have "size_list size (rev ns) = size_list size ns" for ns :: "node list" by (induction ns) auto
  moreover have "size_list size (filter is_named ns) \<le> size_list size ns" for ns by (induction ns) auto
  ultimately show ?thesis by (cases n) (simp add: named_children_def le_imp_less_Suc)
qed

text \<open>The walk over the tree, with the top of the stack at the head.\<close>

function walk_commands :: "node list \<Rightarrow> node list \<Rightarrow> node list option" where
  "walk_commands [] command_nodes = Some command_nodes"
| "walk_commands (n # stack) command_nodes =
     (if rejected_node n then None
      else walk_commands (rev (children n) @ stack)
             (if is_named n \<and> is_command n then command_nodes @ [n] else command_nodes))"
  by pat_completeness auto
termination
  by (relation "measure (\<lambda>(stack, _). size_list size stack)")
     (auto simp: less_Suc_eq_le size_list_rev_children less_imp_le)

definition parse_double_quoted_string :: "node \<Rightarrow> rstr option" where
  "parse_double_quoted_string n =
     (if kind n \<noteq> lit ''string'' then None
      else if list_ex (\<lambda>part. kind part \<noteq> lit ''string_content'') (named_children n) then None
      else Option.bind (utf8_text n) (\<lambda>raw.
             Option.bind (strip_prefix [34] raw) (\<lambda>t. strip_suffix [34] t)))"

definition parse_raw_string :: "node \<Rightarrow> rstr option" where
  "parse_raw_string n =
     (if kind n \<noteq> lit ''raw_string'' then None
      else Option.bind (utf8_text n) (\<lambda>raw.
             Option.bind (strip_prefix [39] raw) (\<lambda>t. strip_suffix [39] t)))"

definition concatenation_part :: "node \<Rightarrow> rstr option" where
  "concatenation_part part =
     (if kind part \<in> {lit ''word'', lit ''number''} then utf8_text part
      else if kind part = lit ''string'' then parse_double_quoted_string part
      else if kind part = lit ''raw_string'' then parse_raw_string part
      else None)"

definition plain_word :: "node \<Rightarrow> rstr option" where
  "plain_word child =
     (if kind child = lit ''command_name''
      then (case named_children child of
              [] \<Rightarrow> None
            | word_node # _ \<Rightarrow> if kind word_node \<noteq> lit ''word'' then None else utf8_text word_node)
      else if kind child \<in> {lit ''word'', lit ''number''} then utf8_text child
      else if kind child = lit ''string'' then parse_double_quoted_string child
      else if kind child = lit ''raw_string'' then parse_raw_string child
      else if kind child = lit ''concatenation''
      then (case traverse concatenation_part (named_children child) of
              None \<Rightarrow> None
            | Some parts \<Rightarrow> if concat parts = [] then None else Some (concat parts))
      else None)"

definition parse_plain_command_from_node :: "node \<Rightarrow> rstr list option" where
  "parse_plain_command_from_node cmd =
     (if \<not> is_command cmd then None else traverse plain_word (named_children cmd))"

definition try_parse_word_only_commands_sequence :: "syntax_tree \<Rightarrow> rstr list list option" where
  "try_parse_word_only_commands_sequence tree =
     (if has_error tree then None
      else case walk_commands [root_node tree] [] of
        None \<Rightarrow> None
      | Some command_nodes \<Rightarrow> traverse parse_plain_command_from_node (sort_key start_byte command_nodes))"

section \<open>Shells\<close>

datatype shell_type = Zsh | Bash | PowerShell | Sh | Cmd

lemma split_on_hd: "hd (split_on c s) = takeWhile (\<lambda>x. x \<noteq> c) s"
  by (induction s) (auto split: list.splits)

lemma split_on_sublist: "t \<in> set (split_on c s) \<Longrightarrow> sublist t s"
proof (induction s arbitrary: t)
  case (Cons x s)
  obtain q qs where q: "split_on c s = q # qs" by (metis split_on_nonempty list.exhaust)
  then have "prefix q s" using split_on_hd[of c s] takeWhile_is_prefix by (metis list.sel(1))
  then have "sublist (x # q) (x # s)" by (simp add: prefix_imp_sublist)
  with Cons q show ?case by (auto split: if_splits simp: sublist_Cons_right)
qed simp

lemma file_stem_sublist:
  assumes "file_stem p = Some s"
  shows "sublist s p"
proof -
  obtain name where name: "file_name p = Some name" using assms by (auto simp: file_stem_def)
  then have "Normal name \<in> set (components p)"
    by (auto simp: file_name_def last_opt_def split: if_splits path_component.splits dest: last_in_set)
  then have "name \<in> set (split_on SLASH p)"
    using components_subset[of p] by (auto simp: component_of_def split: if_splits)
  then have "sublist name p" by (rule split_on_sublist)
  moreover define d where "d = rev (dropWhile (\<lambda>c. c \<noteq> 46) (rev name))"
  have "prefix d name" unfolding d_def
    by (metis prefixI rev_append rev_rev_ident takeWhile_dropWhile_id)
  then have "prefix (butlast d) name" by (meson prefix_order.trans prefixeq_butlast)
  moreover have "s = name \<or> s = butlast d"
    using assms name by (auto simp: file_stem_def Let_def d_def split: if_splits)
  ultimately show ?thesis by (meson prefix_imp_sublist sublist_order.order_trans)
qed

lemma sublist_shorter: "sublist s t \<Longrightarrow> s \<noteq> t \<Longrightarrow> length s < length t"
  by (auto simp: sublist_def)

text \<open>Paths are compared by their components.\<close>

definition same_path :: "rstr \<Rightarrow> rstr \<Rightarrow> bool" where
  "same_path p q \<longleftrightarrow> components p = components q"

function detect_shell_type :: "rstr \<Rightarrow> shell_type option" where
  "detect_shell_type shell_path =
     (if shell_path = lit ''zsh'' then Some Zsh
      else if shell_path = lit ''sh'' then Some Sh
      else if shell_path = lit ''cmd'' then Some Cmd
      else if shell_path = lit ''bash'' then Some Bash
      else if shell_path = lit ''pwsh'' then Some PowerShell
      else if shell_path = lit ''powershell'' then Some PowerShell
      else case file_stem shell_path of
             Some shell_name \<Rightarrow> if \<not> same_path shell_name shell_path then detect_shell_type shell_name else None
           | None \<Rightarrow> None)"
  by pat_completeness auto
termination
proof (relation "measure length", simp)
  fix shell_path shell_name
  assume stem: "file_stem shell_path = Some shell_name" and "\<not> same_path shell_name shell_path"
  then have "shell_name \<noteq> shell_path" by (auto simp: same_path_def)
  then show "(shell_name, shell_path) \<in> measure length"
    using sublist_shorter[OF file_stem_sublist[OF stem]] by simp
qed

declare detect_shell_type.simps [simp del]

definition extract_bash_command :: "rstr list \<Rightarrow> (rstr \<times> rstr) option" where
  "extract_bash_command command =
     (case command of
        [shell, flag, script] \<Rightarrow>
          if flag \<notin> {lit ''-lc'', lit ''-c''} \<or> detect_shell_type shell \<notin> {Some Zsh, Some Bash, Some Sh}
          then None else Some (shell, script)
      | _ \<Rightarrow> None)"

text \<open>\<open>try_parse_shell\<close> is the parameter: tree-sitter with the grammar of bash.\<close>

type_synonym shell_parser = "rstr \<Rightarrow> syntax_tree option"

definition parse_shell_lc_plain_commands :: "shell_parser \<Rightarrow> rstr list \<Rightarrow> rstr list list option" where
  "parse_shell_lc_plain_commands try_parse_shell command =
     (case extract_bash_command command of
        None \<Rightarrow> None
      | Some (_, script) \<Rightarrow>
          Option.bind (try_parse_shell script) try_parse_word_only_commands_sequence)"

section \<open>Here-documents\<close>

function has_kind_on :: "rstr \<Rightarrow> node list \<Rightarrow> bool" where
  "has_kind_on k [] = False"
| "has_kind_on k (n # stack) = (if kind n = k then True else has_kind_on k (rev (named_children n) @ stack))"
  by pat_completeness auto
termination
  by (relation "measure (\<lambda>(_, stack). size_list size stack)")
     (auto simp: less_Suc_eq_le size_list_named_children less_imp_le)

definition has_named_descendant_kind :: "node \<Rightarrow> rstr \<Rightarrow> bool" where
  "has_named_descendant_kind n k = has_kind_on k [n]"

function single_command_on :: "node list \<Rightarrow> node option \<Rightarrow> node option" where
  "single_command_on [] single_command = single_command"
| "single_command_on (n # stack) single_command =
     (if is_command n \<and> single_command \<noteq> None then None
      else single_command_on (rev (named_children n) @ stack) (if is_command n then Some n else single_command))"
  by pat_completeness auto
termination
  by (relation "measure (\<lambda>(stack, _). size_list size stack)")
     (auto simp: less_Suc_eq_le size_list_named_children less_imp_le)

definition find_single_command_node :: "node \<Rightarrow> node option" where
  "find_single_command_node root = single_command_on [root] None"

definition is_literal_word_or_number :: "node \<Rightarrow> bool" where
  "is_literal_word_or_number n \<longleftrightarrow> kind n \<in> {lit ''word'', lit ''number''} \<and> named_children n = []"

definition is_allowed_heredoc_attachment_kind :: "rstr \<Rightarrow> bool" where
  "is_allowed_heredoc_attachment_kind k \<longleftrightarrow>
     k \<in> {lit ''heredoc_body'', lit ''simple_heredoc_body'', lit ''heredoc_redirect'', lit ''herestring_redirect'',
          lit ''redirected_statement''}"

text \<open>The words one child contributes: none for a comment or an attached here-document.\<close>

definition heredoc_words :: "node \<Rightarrow> rstr list option" where
  "heredoc_words child =
     (if kind child = lit ''command_name''
      then (case named_children child of
              [] \<Rightarrow> None
            | word_node # _ \<Rightarrow>
                if kind word_node \<notin> {lit ''word'', lit ''number''} \<or> \<not> is_literal_word_or_number word_node then None
                else map_option (\<lambda>w. [w]) (utf8_text word_node))
      else if kind child \<in> {lit ''word'', lit ''number''}
      then (if \<not> is_literal_word_or_number child then None else map_option (\<lambda>w. [w]) (utf8_text child))
      else if kind child = lit ''comment'' then Some []
      else if is_allowed_heredoc_attachment_kind (kind child) then Some []
      else None)"

definition parse_heredoc_command_words :: "node \<Rightarrow> rstr list option" where
  "parse_heredoc_command_words cmd =
     (if \<not> is_command cmd then None
      else case traverse heredoc_words (named_children cmd) of
             None \<Rightarrow> None
           | Some wss \<Rightarrow> if concat wss = [] then None else Some (concat wss))"

definition heredoc_command_of_tree :: "syntax_tree \<Rightarrow> rstr list option" where
  "heredoc_command_of_tree tree =
     (if has_error tree then None
      else if \<not> has_named_descendant_kind (root_node tree) (lit ''heredoc_redirect'') then None
      else if has_named_descendant_kind (root_node tree) (lit ''file_redirect'') then None
      else Option.bind (find_single_command_node (root_node tree)) parse_heredoc_command_words)"

definition parse_shell_lc_single_command_prefix :: "shell_parser \<Rightarrow> rstr list \<Rightarrow> rstr list option" where
  "parse_shell_lc_single_command_prefix try_parse_shell command =
     (case extract_bash_command command of
        None \<Rightarrow> None
      | Some (_, script) \<Rightarrow> Option.bind (try_parse_shell script) heredoc_command_of_tree)"

section \<open>What the walks see\<close>

text \<open>The nodes of a tree in the order of the walk: a node, then its children from last to first.\<close>

fun visit :: "node \<Rightarrow> node list" where
  "visit (Node k b s t cs) = Node k b s t cs # concat (map visit (rev cs))"

fun visit_named :: "node \<Rightarrow> node list" where
  "visit_named (Node k b s t cs) = Node k b s t cs # concat (map visit_named (rev (filter is_named cs)))"

text \<open>The nodes in source order.\<close>

fun preorder :: "node \<Rightarrow> node list" where
  "preorder (Node k b s t cs) = Node k b s t cs # concat (map preorder cs)"

lemma visit_unfold: "visit n = n # concat (map visit (rev (children n)))"
  by (cases n) simp

lemma visit_named_unfold: "visit_named n = n # concat (map visit_named (rev (named_children n)))"
  by (cases n) (simp add: named_children_def)

lemma mset_concat_rev: "mset (concat (rev xss)) = mset (concat xss)"
  by (induction xss) auto

lemma visit_preorder: "mset (visit n) = mset (preorder n)"
proof (induction n)
  case (Node k b s t cs)
  then have "mset (concat (map visit cs)) = mset (concat (map preorder cs))"
    by (induction cs) auto
  then show ?case using mset_concat_rev[of "map visit cs"] by (simp add: rev_map)
qed

lemma set_visit: "set (visit n) = set (preorder n)"
  using visit_preorder by (metis mset_eq_setD)

lemma walk_commands_visit:
  "walk_commands stack acc =
     (if \<exists>n \<in> set (concat (map visit stack)). rejected_node n then None
      else Some (acc @ filter (\<lambda>n. is_named n \<and> is_command n) (concat (map visit stack))))"
proof (induction stack acc rule: walk_commands.induct)
  case (2 n stack acc)
  have v: "concat (map visit (n # stack)) = n # concat (map visit (rev (children n) @ stack))"
    using visit_unfold[of n] by simp
  show ?case
  proof (cases "rejected_node n")
    case False
    show ?thesis using 2[OF False] False unfolding v by simp
  next
    case True
    then show ?thesis unfolding v by simp
  qed
qed simp

lemma command_named: "\<not> rejected_node n \<Longrightarrow> is_command n \<Longrightarrow> is_named n"
  by (auto simp: rejected_node_def ALLOWED_PUNCT_TOKENS_def lit_def trim_empty_iff is_whitespace_def split: if_splits)

lemma traverse_iff: "traverse f xs = Some ys \<longleftrightarrow> list_all2 (\<lambda>x y. f x = Some y) xs ys"
proof
  show "traverse f xs = Some ys \<Longrightarrow> list_all2 (\<lambda>x y. f x = Some y) xs ys"
    by (induction xs arbitrary: ys) (auto split: option.splits)
  show "list_all2 (\<lambda>x y. f x = Some y) xs ys \<Longrightarrow> traverse f xs = Some ys"
    by (induction rule: list_all2_induct) auto
qed

lemma has_kind_on_iff: "has_kind_on k stack \<longleftrightarrow> (\<exists>n \<in> set (concat (map visit_named stack)). kind n = k)"
proof (induction k stack rule: has_kind_on.induct)
  case (2 k n stack)
  have v: "concat (map visit_named (n # stack)) = n # concat (map visit_named (rev (named_children n) @ stack))"
    using visit_named_unfold[of n] by simp
  show ?case unfolding v using 2 by (cases "kind n = k") simp_all
qed simp

lemma single_command_on_iff:
  "single_command_on stack acc = Some c \<longleftrightarrow>
     (case acc of None \<Rightarrow> [] | Some a \<Rightarrow> [a]) @ filter is_command (concat (map visit_named stack)) = [c]"
proof (induction stack acc rule: single_command_on.induct)
  case (1 acc)
  then show ?case by (cases acc) auto
next
  case (2 n stack acc)
  have v: "concat (map visit_named (n # stack)) = n # concat (map visit_named (rev (named_children n) @ stack))"
    using visit_named_unfold[of n] by simp
  show ?case
  proof (cases "is_command n \<and> acc \<noteq> None")
    case True
    then show ?thesis unfolding v by auto
  next
    case False
    with 2[OF False] show ?thesis unfolding v by (cases acc) auto
  qed
qed

lemma try_parse_alt:
  "try_parse_word_only_commands_sequence tree =
     (if has_error tree \<or> (\<exists>n \<in> set (preorder (root_node tree)). rejected_node n) then None
      else traverse parse_plain_command_from_node
             (sort_key start_byte (filter (\<lambda>n. is_named n \<and> is_command n) (visit (root_node tree)))))"
  by (simp add: try_parse_word_only_commands_sequence_def walk_commands_visit set_visit)

lemma commands_in_order:
  assumes "sorted_wrt (<) (map start_byte (filter is_command (preorder n)))"
    and "\<not> (\<exists>m \<in> set (preorder n). rejected_node m)"
  shows "sort_key start_byte (filter (\<lambda>m. is_named m \<and> is_command m) (visit n)) = filter is_command (preorder n)"
proof (rule sort_key_inj_key_eq)
  have "(is_named m \<and> is_command m) = is_command m" if "m \<in> set (preorder n)" for m
    using assms(2) that command_named[of m] by blast
  then have "filter (\<lambda>m. is_named m \<and> is_command m) (preorder n) = filter is_command (preorder n)"
    by (intro filter_cong refl)
  moreover have "mset (filter P (visit n)) = mset (filter P (preorder n))" for P
    by (simp only: mset_filter visit_preorder)
  ultimately show eq: "mset (filter (\<lambda>m. is_named m \<and> is_command m) (visit n)) = mset (filter is_command (preorder n))"
    by (simp only:)
  have "distinct (map start_byte (filter is_command (preorder n)))"
    and sorted: "sorted (map start_byte (filter is_command (preorder n)))"
    using assms(1) strict_sorted_iff by blast+
  then show "inj_on start_byte (set (filter (\<lambda>m. is_named m \<and> is_command m) (visit n)))"
    unfolding mset_eq_setD[OF eq] by (simp add: distinct_map)
  show "sorted (map start_byte (filter is_command (preorder n)))" by (rule sorted)
qed

section \<open>Plain commands are complete\<close>

text \<open>
  C17. A script is split into plain commands exactly when its tree has no error, every node of it is
  on the list of harmless constructs and every command consists of literal words only. Then
  nothing is left out: there is one command for each command node, in source order, with one word
  for each of its parts. (In the trees of the parser, the commands start at increasing offsets.)
\<close>

theorem plain_commands_complete:
  assumes "sorted_wrt (<) (map start_byte (filter is_command (preorder (root_node tree))))"
  shows "try_parse_word_only_commands_sequence tree = Some cmds \<longleftrightarrow>
    \<not> has_error tree
    \<and> (\<forall>n \<in> set (preorder (root_node tree)). \<not> rejected_node n)
    \<and> list_all2 (\<lambda>n words. list_all2 (\<lambda>part word. plain_word part = Some word) (named_children n) words)
        (filter is_command (preorder (root_node tree))) cmds"
proof (cases "\<exists>n \<in> set (preorder (root_node tree)). rejected_node n")
  case True
  then show ?thesis unfolding try_parse_alt by simp
next
  case False
  let ?cs = "filter is_command (preorder (root_node tree))"
  have "parse_plain_command_from_node n = Some words \<longleftrightarrow>
      list_all2 (\<lambda>part word. plain_word part = Some word) (named_children n) words" if "n \<in> set ?cs" for n words
    using that by (simp add: parse_plain_command_from_node_def traverse_iff)
  then have "list_all2 (\<lambda>n words. parse_plain_command_from_node n = Some words) ?cs cmds \<longleftrightarrow>
      list_all2 (\<lambda>n words. list_all2 (\<lambda>part word. plain_word part = Some word) (named_children n) words) ?cs cmds"
    by (intro list.rel_cong refl)
  moreover have "try_parse_word_only_commands_sequence tree =
      (if has_error tree then None else traverse parse_plain_command_from_node ?cs)"
    unfolding try_parse_alt commands_in_order[OF assms False] using False by (simp only: simp_thms)
  ultimately show ?thesis using False by (cases "has_error tree") (simp_all only: if_True if_False traverse_iff, blast+)
qed

text \<open>The tree of \<open>ls -l && cat "a b"\<close>.\<close>

definition sample_tree :: syntax_tree where
  "sample_tree = \<lparr>has_error = False, root_node =
     Node (lit ''program'') True 0 None
       [Node (lit ''list'') True 0 None
         [Node (lit ''command'') True 0 None
            [Node (lit ''command_name'') True 0 None [Node (lit ''word'') True 0 (Some (lit ''ls'')) []],
             Node (lit ''word'') True 3 (Some (lit ''-l'')) []],
          Node (lit ''&&'') False 6 None [],
          Node (lit ''command'') True 9 None
            [Node (lit ''command_name'') True 9 None [Node (lit ''word'') True 9 (Some (lit ''cat'')) []],
             Node (lit ''string'') True 13 (Some ([34] @ lit ''a b'' @ [34]))
               [Node [34] False 13 None [], Node (lit ''string_content'') True 14 (Some (lit ''a b'')) [],
                Node [34] False 17 None []]]]]\<rparr>"

theorem plain_commands_complete_witness:
  "try_parse_word_only_commands_sequence sample_tree = Some [[lit ''ls'', lit ''-l''], [lit ''cat'', lit ''a b'']]"
proof -
  have "sorted_wrt (<) (map start_byte (filter is_command (preorder (root_node sample_tree))))" by code_simp
  moreover have "\<not> has_error sample_tree" "list_all (\<lambda>n. \<not> rejected_node n) (preorder (root_node sample_tree))"
    by code_simp+
  moreover have "list_all2 (\<lambda>n words. list_all2 (\<lambda>part word. plain_word part = Some word) (named_children n) words)
      (filter is_command (preorder (root_node sample_tree))) [[lit ''ls'', lit ''-l''], [lit ''cat'', lit ''a b'']]"
    by code_simp
  ultimately show ?thesis using plain_commands_complete by (auto simp: list_all_iff)
qed

lemma parse_heredoc_iff:
  assumes "is_command c"
  shows "parse_heredoc_command_words c = Some words \<longleftrightarrow>
    (\<exists>wss. list_all2 (\<lambda>part ws. heredoc_words part = Some ws) (named_children c) wss \<and> words = concat wss \<and> words \<noteq> [])"
  unfolding traverse_iff[symmetric] parse_heredoc_command_words_def using assms
  by (cases "traverse heredoc_words (named_children c)") auto

text \<open>
  A script with a here-document stands for a command prefix exactly when its tree has no error
  and no redirection to a file, and has one single command, all of whose parts are literal words,
  comments or the here-document: no second command can hide behind the prefix.
\<close>

theorem heredoc_single_command:
  "heredoc_command_of_tree tree = Some words \<longleftrightarrow>
    \<not> has_error tree
    \<and> lit ''heredoc_redirect'' \<in> kind ` set (visit_named (root_node tree))
    \<and> lit ''file_redirect'' \<notin> kind ` set (visit_named (root_node tree))
    \<and> (\<exists>c wss. filter is_command (visit_named (root_node tree)) = [c] \<and> words = concat wss \<and> words \<noteq> []
        \<and> list_all2 (\<lambda>part ws. heredoc_words part = Some ws) (named_children c) wss)"
proof -
  let ?ns = "visit_named (root_node tree)"
  have single: "find_single_command_node (root_node tree) = Some c \<longleftrightarrow> filter is_command ?ns = [c]" for c
    using single_command_on_iff[of "[root_node tree]" None c] by (simp add: find_single_command_node_def)
  have words: "parse_heredoc_command_words c = Some words \<longleftrightarrow>
      (\<exists>wss. words = concat wss \<and> words \<noteq> [] \<and> list_all2 (\<lambda>part ws. heredoc_words part = Some ws) (named_children c) wss)"
    if "filter is_command ?ns = [c]" for c
  proof -
    have "c \<in> set (filter is_command ?ns)" unfolding that by simp
    then show ?thesis using parse_heredoc_iff[of c words] by (simp only: set_filter mem_Collect_eq) blast
  qed
  have "Option.bind (find_single_command_node (root_node tree)) parse_heredoc_command_words = Some words \<longleftrightarrow>
      (\<exists>c. filter is_command ?ns = [c] \<and> parse_heredoc_command_words c = Some words)"
    by (simp only: bind_eq_Some_conv single)
  also have "\<dots> \<longleftrightarrow> (\<exists>c wss. filter is_command ?ns = [c] \<and> words = concat wss \<and> words \<noteq> []
        \<and> list_all2 (\<lambda>part ws. heredoc_words part = Some ws) (named_children c) wss)"
    using words by blast
  finally have main: "Option.bind (find_single_command_node (root_node tree)) parse_heredoc_command_words = Some words \<longleftrightarrow>
      (\<exists>c wss. filter is_command ?ns = [c] \<and> words = concat wss \<and> words \<noteq> []
        \<and> list_all2 (\<lambda>part ws. heredoc_words part = Some ws) (named_children c) wss)" .
  have kinds: "has_named_descendant_kind (root_node tree) k \<longleftrightarrow> k \<in> kind ` set ?ns" for k
    unfolding has_named_descendant_kind_def has_kind_on_iff by (simp only: list.map concat.simps append_Nil2) blast
  show ?thesis unfolding heredoc_command_of_tree_def kinds main[symmetric]
    by (simp only: split: if_split) simp
qed

end
