(* ===== verification/Command_Safety.thy ===== *)
theory Command_Safety
  imports Bash_Commands
begin

text \<open>
  \<open>shell-command/src/command_safety\<close> on Unix: the lists of commands that are known to be safe and
  of those that might be dangerous (\<open>is_safe_command.rs\<close>, \<open>is_dangerous_command.rs\<close>), and the
  PowerShell safelist, which is consulted on every platform (\<open>windows_safe_commands.rs\<close>). Two
  parsers are parameters: tree-sitter for shell scripts and the PowerShell process that turns a
  script into command words.
\<close>

section \<open>Git subcommands\<close>

definition executable_name_lookup_key :: "rstr \<Rightarrow> rstr option" where
  "executable_name_lookup_key raw = file_name raw"

definition is_git_global_option_with_value :: "rstr \<Rightarrow> bool" where
  "is_git_global_option_with_value arg \<longleftrightarrow>
     arg \<in> {lit ''-C'', lit ''-c'', lit ''--config-env'', lit ''--exec-path'', lit ''--git-dir'', lit ''--namespace'',
            lit ''--super-prefix'', lit ''--work-tree''}"

definition is_git_global_option_with_inline_value :: "rstr \<Rightarrow> bool" where
  "is_git_global_option_with_inline_value arg \<longleftrightarrow>
     list_ex (\<lambda>p. starts_with p arg) [lit ''--config-env='', lit ''--exec-path='', lit ''--git-dir='', lit ''--namespace='',
        lit ''--super-prefix='', lit ''--work-tree='']
     \<or> ((starts_with (lit ''-C'') arg \<or> starts_with (lit ''-c'') arg) \<and> 2 < blen arg)"

fun find_subcommand :: "rstr list \<Rightarrow> nat \<Rightarrow> bool \<Rightarrow> rstr list \<Rightarrow> (nat \<times> rstr) option" where
  "find_subcommand subcommands idx skip_next [] = None"
| "find_subcommand subcommands idx skip_next (arg # args) =
     (if skip_next then find_subcommand subcommands (Suc idx) False args
      else if is_git_global_option_with_inline_value arg then find_subcommand subcommands (Suc idx) False args
      else if is_git_global_option_with_value arg then find_subcommand subcommands (Suc idx) True args
      else if arg = lit ''--'' \<or> starts_with (lit ''-'') arg then find_subcommand subcommands (Suc idx) False args
      else if arg \<in> set subcommands then Some (idx, arg)
      else None)"

definition find_git_subcommand :: "rstr list \<Rightarrow> rstr list \<Rightarrow> (nat \<times> rstr) option" where
  "find_git_subcommand command subcommands =
     (case command of
        [] \<Rightarrow> None
      | cmd0 # args \<Rightarrow>
          if executable_name_lookup_key cmd0 \<noteq> Some (lit ''git'') then None
          else find_subcommand subcommands 1 False args)"

datatype git_option_pattern = Exact rstr | ShortWithInlineValue rstr | Prefix rstr

definition UNSAFE_GIT_GLOBAL_OPTIONS :: "git_option_pattern list" where
  "UNSAFE_GIT_GLOBAL_OPTIONS =
     [Exact (lit ''-C''), ShortWithInlineValue (lit ''-C''), Exact (lit ''-c''), ShortWithInlineValue (lit ''-c''),
      Exact (lit ''-p''), Exact (lit ''--config-env''), Prefix (lit ''--config-env=''), Exact (lit ''--exec-path''),
      Prefix (lit ''--exec-path=''), Exact (lit ''--git-dir''), Prefix (lit ''--git-dir=''), Exact (lit ''--namespace''),
      Prefix (lit ''--namespace=''), Exact (lit ''--paginate''), Exact (lit ''--super-prefix''),
      Prefix (lit ''--super-prefix=''), Exact (lit ''--work-tree''), Prefix (lit ''--work-tree='')]"

definition UNSAFE_GIT_SUBCOMMAND_OPTIONS :: "git_option_pattern list" where
  "UNSAFE_GIT_SUBCOMMAND_OPTIONS =
     [Exact (lit ''--output''), Prefix (lit ''--output=''), Exact (lit ''--ext-diff''), Exact (lit ''--textconv''),
      Exact (lit ''--exec''), Prefix (lit ''--exec='')]"

fun option_pattern_matches :: "git_option_pattern \<Rightarrow> rstr \<Rightarrow> bool" where
  "option_pattern_matches (Exact option) arg \<longleftrightarrow> arg = option"
| "option_pattern_matches (ShortWithInlineValue option) arg \<longleftrightarrow> starts_with option arg \<and> blen option < blen arg"
| "option_pattern_matches (Prefix pre) arg \<longleftrightarrow> starts_with pre arg"

definition git_matches_option_pattern :: "rstr \<Rightarrow> git_option_pattern list \<Rightarrow> bool" where
  "git_matches_option_pattern arg patterns \<longleftrightarrow> list_ex (\<lambda>p. option_pattern_matches p arg) patterns"

definition git_has_unsafe_global_option :: "rstr list \<Rightarrow> bool" where
  "git_has_unsafe_global_option global_args \<longleftrightarrow>
     list_ex (\<lambda>arg. git_matches_option_pattern arg UNSAFE_GIT_GLOBAL_OPTIONS) global_args"

definition git_subcommand_args_are_read_only :: "rstr list \<Rightarrow> bool" where
  "git_subcommand_args_are_read_only args \<longleftrightarrow>
     \<not> list_ex (\<lambda>arg. git_matches_option_pattern arg UNSAFE_GIT_SUBCOMMAND_OPTIONS) args"

definition branch_flag :: "rstr \<Rightarrow> bool" where
  "branch_flag arg \<longleftrightarrow>
     arg \<in> {lit ''--list'', lit ''-l'', lit ''--show-current'', lit ''-a'', lit ''--all'', lit ''-r'', lit ''--remotes'',
            lit ''-v'', lit ''-vv'', lit ''--verbose''} \<or> starts_with (lit ''--format='') arg"

fun branch_flags_loop :: "bool \<Rightarrow> rstr list \<Rightarrow> bool" where
  "branch_flags_loop saw_read_only_flag [] = saw_read_only_flag"
| "branch_flags_loop saw_read_only_flag (arg # args) = (if branch_flag arg then branch_flags_loop True args else False)"

definition git_branch_is_read_only :: "rstr list \<Rightarrow> bool" where
  "git_branch_is_read_only branch_args = (if branch_args = [] then True else branch_flags_loop False branch_args)"

definition READ_ONLY_SUBCOMMANDS :: "rstr list" where
  "READ_ONLY_SUBCOMMANDS = [lit ''status'', lit ''log'', lit ''diff'', lit ''show'', lit ''branch'']"

definition is_safe_git_command :: "rstr list \<Rightarrow> bool" where
  "is_safe_git_command command =
     (case find_git_subcommand command READ_ONLY_SUBCOMMANDS of
        None \<Rightarrow> False
      | Some (subcommand_idx, subcommand) \<Rightarrow>
          if git_has_unsafe_global_option (drop 1 (take subcommand_idx command)) then False
          else let subcommand_args = drop (Suc subcommand_idx) command
               in if subcommand \<in> {lit ''status'', lit ''log'', lit ''diff'', lit ''show''}
                  then git_subcommand_args_are_read_only subcommand_args
                  else if subcommand = lit ''branch''
                  then git_subcommand_args_are_read_only subcommand_args \<and> git_branch_is_read_only subcommand_args
                  else False)"

section \<open>Safe commands\<close>

definition is_valid_sed_n_arg :: "rstr option \<Rightarrow> bool" where
  "is_valid_sed_n_arg arg =
     (case arg of
        None \<Rightarrow> False
      | Some s \<Rightarrow>
          (case strip_suffix (lit ''p'') s of
             None \<Rightarrow> False
           | Some core \<Rightarrow>
               (case split_on 44 core of
                  [num] \<Rightarrow> num \<noteq> [] \<and> list_all is_ascii_digit num
                | [a, b] \<Rightarrow> a \<noteq> [] \<and> b \<noteq> [] \<and> list_all is_ascii_digit a \<and> list_all is_ascii_digit b
                | _ \<Rightarrow> False)))"

definition READ_ONLY_COMMANDS :: "rstr list" where
  "READ_ONLY_COMMANDS =
     [lit ''cat'', lit ''cd'', lit ''cut'', lit ''echo'', lit ''expr'', lit ''false'', lit ''grep'', lit ''head'', lit ''id'',
      lit ''ls'', lit ''nl'', lit ''paste'', lit ''pwd'', lit ''rev'', lit ''seq'', lit ''stat'', lit ''tail'', lit ''tr'',
      lit ''true'', lit ''uname'', lit ''uniq'', lit ''wc'', lit ''which'', lit ''whoami'']"

definition unsafe_base64_arg :: "rstr \<Rightarrow> bool" where
  "unsafe_base64_arg arg \<longleftrightarrow> arg \<in> {lit ''-o'', lit ''--output''} \<or> starts_with (lit ''--output='') arg
     \<or> (starts_with (lit ''-o'') arg \<and> arg \<noteq> lit ''-o'')"

definition UNSAFE_FIND_OPTIONS :: "rstr list" where
  "UNSAFE_FIND_OPTIONS = [lit ''-exec'', lit ''-execdir'', lit ''-ok'', lit ''-okdir'', lit ''-delete'', lit ''-fls'',
     lit ''-fprint'', lit ''-fprint0'', lit ''-fprintf'']"

definition unsafe_rg_arg :: "rstr \<Rightarrow> bool" where
  "unsafe_rg_arg arg \<longleftrightarrow> arg \<in> {lit ''--search-zip'', lit ''-z''}
     \<or> list_ex (\<lambda>opt. arg = opt \<or> starts_with (opt @ lit ''='') arg) [lit ''--pre'', lit ''--hostname-bin'']"

text \<open>The build for Linux also lists \<open>numfmt\<close> and \<open>tac\<close>.\<close>

definition is_safe_to_call_with_exec :: "rstr list \<Rightarrow> bool" where
  "is_safe_to_call_with_exec command =
     (case command of
        [] \<Rightarrow> False
      | cmd0 # args \<Rightarrow>
          (case executable_name_lookup_key cmd0 of
             None \<Rightarrow> False
           | Some cmd \<Rightarrow>
               if cmd \<in> {lit ''numfmt'', lit ''tac''} then True
               else if cmd \<in> set READ_ONLY_COMMANDS then True
               else if cmd = lit ''base64'' then \<not> list_ex unsafe_base64_arg args
               else if cmd = lit ''find'' then \<not> list_ex (\<lambda>arg. arg \<in> set UNSAFE_FIND_OPTIONS) command
               else if cmd = lit ''rg'' then \<not> list_ex unsafe_rg_arg command
               else if cmd = lit ''git'' then is_safe_git_command command
               else if cmd = lit ''sed''
               then length command \<le> 4 \<and> 1 < length command \<and> command ! 1 = lit ''-n''
                    \<and> is_valid_sed_n_arg (if 2 < length command then Some (command ! 2) else None)
               else False))"

section \<open>PowerShell\<close>

definition is_powershell_executable :: "rstr \<Rightarrow> bool" where
  "is_powershell_executable exe \<longleftrightarrow>
     to_ascii_lowercase (case file_name exe of Some name \<Rightarrow> name | None \<Rightarrow> exe)
       \<in> {lit ''powershell'', lit ''powershell.exe'', lit ''pwsh'', lit ''pwsh.exe''}"

fun replace_char :: "rchar \<Rightarrow> rstr \<Rightarrow> rstr \<Rightarrow> rstr" where
  "replace_char c by_text [] = []"
| "replace_char c by_text (x # s) = (if x = c then by_text else [x]) @ replace_char c by_text s"

definition quote_argument :: "rstr \<Rightarrow> rstr" where
  "quote_argument arg =
     (if arg = [] then [39, 39]
      else if list_all (\<lambda>ch. \<not> is_whitespace ch) arg then arg
      else [39] @ replace_char 39 [39, 39] arg @ [39])"

definition join_arguments_as_script :: "rstr list \<Rightarrow> rstr" where
  "join_arguments_as_script args =
     (case args of [] \<Rightarrow> [] | first_arg # others \<Rightarrow> join [SP] (first_arg # map quote_argument others))"

type_synonym powershell_parser = "rstr \<Rightarrow> rstr \<Rightarrow> rstr list list option"

definition BENIGN_FLAGS :: "rstr list" where
  "BENIGN_FLAGS = [lit ''-nologo'', lit ''-noprofile'', lit ''-noninteractive'', lit ''-mta'', lit ''-sta'']"

definition OPAQUE_FLAGS :: "rstr list" where
  "OPAQUE_FLAGS = [lit ''-encodedcommand'', lit ''-ec'', lit ''-file'', lit ''/file'', lit ''-windowstyle'',
     lit ''-executionpolicy'', lit ''-workingdirectory'']"

text \<open>The loop over the arguments that remain.\<close>

fun parse_powershell_invocation :: "powershell_parser \<Rightarrow> rstr \<Rightarrow> rstr list \<Rightarrow> rstr list list option" where
  "parse_powershell_invocation ps executable [] = None"
| "parse_powershell_invocation ps executable (arg # args) =
     (let lower = to_ascii_lowercase arg in
      if lower \<in> {lit ''-command'', lit ''/command'', lit ''-c''}
      then (case args of [script] \<Rightarrow> ps executable script | _ \<Rightarrow> None)
      else if starts_with (lit ''-command:'') lower \<or> starts_with (lit ''/command:'') lower
      then (if args \<noteq> [] then None
            else ps executable (drop 1 (dropWhile (\<lambda>c. c \<noteq> 58) arg)))
      else if lower \<in> set BENIGN_FLAGS then parse_powershell_invocation ps executable args
      else if lower \<in> set OPAQUE_FLAGS then None
      else if starts_with (lit ''-'') lower then None
      else ps executable (join_arguments_as_script (arg # args)))"

definition try_parse_powershell_command_sequence :: "powershell_parser \<Rightarrow> rstr list \<Rightarrow> rstr list list option" where
  "try_parse_powershell_command_sequence ps command =
     (case command of
        [] \<Rightarrow> None
      | exe # args \<Rightarrow> if is_powershell_executable exe then parse_powershell_invocation ps exe args else None)"

definition trim_parens :: "rstr \<Rightarrow> rstr" where
  "trim_parens s = rev (dropWhile (\<lambda>c. c \<in> {40, 41}) (rev (dropWhile (\<lambda>c. c \<in> {40, 41}) s)))"

definition powershell_word :: "rstr \<Rightarrow> rstr" where
  "powershell_word w = to_ascii_lowercase (dropWhile (\<lambda>c. c = 45) (trim_parens w))"

definition SIDE_EFFECTING_CMDLETS :: "rstr list" where
  "SIDE_EFFECTING_CMDLETS = [lit ''set-content'', lit ''add-content'', lit ''out-file'', lit ''new-item'', lit ''remove-item'',
     lit ''move-item'', lit ''copy-item'', lit ''rename-item'', lit ''start-process'', lit ''stop-process'']"

definition SAFE_CMDLETS :: "rstr list" where
  "SAFE_CMDLETS = [lit ''echo'', lit ''write-output'', lit ''write-host'', lit ''dir'', lit ''ls'', lit ''get-childitem'',
     lit ''gci'', lit ''cat'', lit ''type'', lit ''gc'', lit ''get-content'', lit ''select-string'', lit ''sls'', lit ''findstr'',
     lit ''measure-object'', lit ''measure'', lit ''get-location'', lit ''gl'', lit ''pwd'', lit ''test-path'', lit ''tp'',
     lit ''resolve-path'', lit ''rvpa'', lit ''select-object'', lit ''select'', lit ''get-item'']"

definition is_safe_ripgrep :: "rstr list \<Rightarrow> bool" where
  "is_safe_ripgrep ws = (\<not> list_ex (\<lambda>arg. unsafe_rg_arg (to_ascii_lowercase arg)) (drop 1 ws))"

definition is_safe_powershell_words :: "rstr list \<Rightarrow> bool" where
  "is_safe_powershell_words ws =
     (case ws of
        [] \<Rightarrow> False
      | w # _ \<Rightarrow>
          if list_ex (\<lambda>w. powershell_word w \<in> set SIDE_EFFECTING_CMDLETS) ws then False
          else let command = powershell_word w
               in if command \<in> set SAFE_CMDLETS then True
                  else if command = lit ''git'' then is_safe_git_command ws
                  else if command = lit ''rg'' then is_safe_ripgrep ws
                  else False)"

definition is_safe_command_windows :: "powershell_parser \<Rightarrow> rstr list \<Rightarrow> bool" where
  "is_safe_command_windows ps command =
     (case try_parse_powershell_command_sequence ps command of
        Some commands \<Rightarrow> list_all is_safe_powershell_words commands
      | None \<Rightarrow> False)"

section \<open>The verdicts\<close>

record command_parsers =
  shell_tree :: shell_parser
  powershell_ast :: powershell_parser

definition zsh_as_bash :: "rstr \<Rightarrow> rstr" where
  "zsh_as_bash s = (if s = lit ''zsh'' then lit ''bash'' else s)"

definition is_known_safe_command :: "command_parsers \<Rightarrow> rstr list \<Rightarrow> bool" where
  "is_known_safe_command ps original =
     (let command = map zsh_as_bash original in
      is_safe_command_windows (powershell_ast ps) command
      \<or> is_safe_to_call_with_exec command
      \<or> (case parse_shell_lc_plain_commands (shell_tree ps) command of
           Some all_commands \<Rightarrow> all_commands \<noteq> [] \<and> list_all is_safe_to_call_with_exec all_commands
         | None \<Rightarrow> False))"

fun is_dangerous_to_call_with_exec :: "rstr list \<Rightarrow> bool" where
  "is_dangerous_to_call_with_exec [] = False"
| "is_dangerous_to_call_with_exec (cmd0 # args) =
     (if cmd0 = lit ''rm''
      then (case args of arg # _ \<Rightarrow> arg \<in> {lit ''-f'', lit ''-rf''} | [] \<Rightarrow> False)
      else if cmd0 = lit ''sudo'' then is_dangerous_to_call_with_exec args
      else False)"

definition command_might_be_dangerous :: "command_parsers \<Rightarrow> rstr list \<Rightarrow> bool" where
  "command_might_be_dangerous ps command =
     (is_dangerous_to_call_with_exec command
      \<or> (case parse_shell_lc_plain_commands (shell_tree ps) command of
           Some all_commands \<Rightarrow> list_ex is_dangerous_to_call_with_exec all_commands
         | None \<Rightarrow> False))"

section \<open>Read-only git commands\<close>

abbreviation unsafe_global :: "rstr \<Rightarrow> bool" where
  "unsafe_global g \<equiv> git_matches_option_pattern g UNSAFE_GIT_GLOBAL_OPTIONS"

abbreviation unsafe_subcommand_arg :: "rstr \<Rightarrow> bool" where
  "unsafe_subcommand_arg a \<equiv> git_matches_option_pattern a UNSAFE_GIT_SUBCOMMAND_OPTIONS"

lemma option_with_value_unsafe: "is_git_global_option_with_value g \<Longrightarrow> unsafe_global g"
  unfolding is_git_global_option_with_value_def git_matches_option_pattern_def UNSAFE_GIT_GLOBAL_OPTIONS_def
  by auto

lemma option_with_inline_value_unsafe: "is_git_global_option_with_inline_value g \<Longrightarrow> unsafe_global g"
proof -
  have "blen (lit ''-C'') = 2" "blen (lit ''-c'') = 2" by code_simp+
  then show "is_git_global_option_with_inline_value g \<Longrightarrow> unsafe_global g"
    unfolding is_git_global_option_with_inline_value_def git_matches_option_pattern_def UNSAFE_GIT_GLOBAL_OPTIONS_def
    by auto
qed

lemma find_subcommand_Some:
  "find_subcommand subs idx skip args = Some (i, sub) \<Longrightarrow>
   \<exists>globals others. args = globals @ sub # others \<and> i = idx + length globals \<and> sub \<in> set subs
     \<and> (\<not> skip \<longrightarrow> list_all (\<lambda>g. \<not> unsafe_global g) globals \<longrightarrow> list_all (starts_with (lit ''-'')) globals)"
proof (induction subs idx skip args rule: find_subcommand.induct)
  case (2 subs idx skip arg args)
  have dash: "starts_with (lit ''-'') (lit ''--'')" by code_simp
  have shift: ?case
    if rec: "find_subcommand subs (Suc idx) skip' args = Some (i, sub)"
      and IH: "\<exists>globals others. args = globals @ sub # others \<and> i = Suc idx + length globals \<and> sub \<in> set subs
        \<and> (\<not> skip' \<longrightarrow> list_all (\<lambda>g. \<not> unsafe_global g) globals \<longrightarrow> list_all (starts_with (lit ''-'')) globals)"
      and ok: "\<not> skip \<Longrightarrow> \<not> unsafe_global arg \<Longrightarrow> starts_with (lit ''-'') arg \<and> \<not> skip'" for skip'
  proof -
    from IH obtain globals others where "args = globals @ sub # others" "i = Suc idx + length globals" "sub \<in> set subs"
      "\<not> skip' \<longrightarrow> list_all (\<lambda>g. \<not> unsafe_global g) globals \<longrightarrow> list_all (starts_with (lit ''-'')) globals" by blast
    with ok show ?thesis by (intro exI[of _ "arg # globals"] exI[of _ others]) auto
  qed
  consider "skip" | "\<not> skip" "is_git_global_option_with_inline_value arg"
    | "\<not> skip" "\<not> is_git_global_option_with_inline_value arg" "is_git_global_option_with_value arg"
    | "\<not> skip" "\<not> is_git_global_option_with_inline_value arg" "\<not> is_git_global_option_with_value arg"
        "arg = lit ''--'' \<or> starts_with (lit ''-'') arg"
    | "\<not> skip" "\<not> is_git_global_option_with_inline_value arg" "\<not> is_git_global_option_with_value arg"
        "\<not> (arg = lit ''--'' \<or> starts_with (lit ''-'') arg)" by blast
  then show ?case
  proof cases
    case 1
    with "2.prems" have rec: "find_subcommand subs (Suc idx) False args = Some (i, sub)" by simp
    show ?thesis using shift[OF rec "2.IH"(1)[OF 1 rec]] 1 by blast
  next
    case 2
    with "2.prems" have rec: "find_subcommand subs (Suc idx) False args = Some (i, sub)" by simp
    show ?thesis using shift[OF rec "2.IH"(2)[OF 2 rec]] option_with_inline_value_unsafe[OF 2(2)] by blast
  next
    case 3
    with "2.prems" have rec: "find_subcommand subs (Suc idx) True args = Some (i, sub)" by simp
    show ?thesis using shift[OF rec "2.IH"(3)[OF 3 rec]] option_with_value_unsafe[OF 3(3)] by blast
  next
    case 4
    with "2.prems" have rec: "find_subcommand subs (Suc idx) False args = Some (i, sub)" by simp
    show ?thesis using shift[OF rec "2.IH"(4)[OF 4 rec]] 4(4) dash by blast
  next
    case 5
    with "2.prems" have "sub = arg" "i = idx" "arg \<in> set subs" by (auto split: if_splits)
    then show ?thesis by (intro exI[of _ "[]"] exI[of _ args]) simp
  qed
qed simp

lemma find_subcommand_globals:
  assumes "list_all (\<lambda>g. starts_with (lit ''-'') g \<and> \<not> unsafe_global g) globals"
    and "sub \<in> set subs" "\<not> starts_with (lit ''-'') sub"
  shows "find_subcommand subs idx False (globals @ sub # others) = Some (idx + length globals, sub)"
  using assms(1)
proof (induction globals arbitrary: idx)
  case Nil
  have dash: "starts_with (lit ''-'') (lit ''--'')" by code_simp
  have "lit ''--config-env='' = lit ''-'' @ lit ''-config-env=''" "lit ''--exec-path='' = lit ''-'' @ lit ''-exec-path=''"
    "lit ''--git-dir='' = lit ''-'' @ lit ''-git-dir=''" "lit ''--namespace='' = lit ''-'' @ lit ''-namespace=''"
    "lit ''--super-prefix='' = lit ''-'' @ lit ''-super-prefix=''" "lit ''--work-tree='' = lit ''-'' @ lit ''-work-tree=''"
    "lit ''-C'' = lit ''-'' @ lit ''C''" "lit ''-c'' = lit ''-'' @ lit ''c''"
    by code_simp+
  then have "\<not> is_git_global_option_with_inline_value sub"
    using assms(3) by (auto simp: is_git_global_option_with_inline_value_def starts_with_iff)
  moreover have "list_all (starts_with (lit ''-'')) [lit ''-C'', lit ''-c'', lit ''--config-env'', lit ''--exec-path'',
      lit ''--git-dir'', lit ''--namespace'', lit ''--super-prefix'', lit ''--work-tree'']" by code_simp
  then have "\<not> is_git_global_option_with_value sub"
    using assms(3) by (auto simp: is_git_global_option_with_value_def)
  ultimately show ?case using assms(2,3) dash by auto
next
  case (Cons g globals)
  then have "\<not> is_git_global_option_with_inline_value g" "\<not> is_git_global_option_with_value g"
    using option_with_inline_value_unsafe option_with_value_unsafe by auto
  with Cons show ?case by simp
qed

lemma branch_flags_loop_iff: "branch_flags_loop saw args \<longleftrightarrow> list_all branch_flag args \<and> (saw \<or> args \<noteq> [])"
  by (induction saw args rule: branch_flags_loop.induct) auto

lemma git_branch_is_read_only_iff: "git_branch_is_read_only args \<longleftrightarrow> list_all branch_flag args"
  by (simp add: git_branch_is_read_only_def branch_flags_loop_iff)

lemma subcommand_names:
  "list_all (\<lambda>s. \<not> starts_with (lit ''-'') s) READ_ONLY_SUBCOMMANDS"
  "lit ''branch'' \<notin> {lit ''status'', lit ''log'', lit ''diff'', lit ''show''}"
  by code_simp+

lemma is_safe_git_command_alt:
  assumes "command = exe # globals @ sub # args"
    and "find_git_subcommand command READ_ONLY_SUBCOMMANDS = Some (Suc (length globals), sub)"
    and "sub \<in> set READ_ONLY_SUBCOMMANDS"
  shows "is_safe_git_command command \<longleftrightarrow>
    list_all (\<lambda>g. \<not> unsafe_global g) globals \<and> list_all (\<lambda>a. \<not> unsafe_subcommand_arg a) args
    \<and> (if sub = lit ''branch'' then list_all branch_flag args else True)"
proof -
  have parts: "drop 1 (take (Suc (length globals)) command) = globals"
    "drop (Suc (Suc (length globals))) command = args" using assms(1) by simp_all
  have global: "git_has_unsafe_global_option globals \<longleftrightarrow> \<not> list_all (\<lambda>g. \<not> unsafe_global g) globals"
    by (simp add: git_has_unsafe_global_option_def list_ex_iff list_all_iff)
  have read_only: "git_subcommand_args_are_read_only args \<longleftrightarrow> list_all (\<lambda>a. \<not> unsafe_subcommand_arg a) args"
    by (simp add: git_subcommand_args_are_read_only_def list_ex_iff list_all_iff)
  have mem: "sub \<in> {lit ''status'', lit ''log'', lit ''diff'', lit ''show''} \<longleftrightarrow> sub \<noteq> lit ''branch''"
    using assms(3) subcommand_names(2) unfolding READ_ONLY_SUBCOMMANDS_def by auto
  show ?thesis
    unfolding is_safe_git_command_def assms(2) option.case prod.case parts Let_def global read_only mem
      git_branch_is_read_only_iff by auto
qed

text \<open>
  C22. A git command counts as read-only exactly when it is \<open>git\<close>, then options of which none sets
  a directory, a configuration, a pager or a program, then one of the five listed subcommands, then
  arguments of which none writes a file or runs a program; for \<open>branch\<close> every argument must be
  one of the listing flags.
\<close>

theorem safe_git_commands:
  "is_safe_git_command command \<longleftrightarrow>
    (\<exists>exe globals sub args. command = exe # globals @ sub # args \<and> file_name exe = Some (lit ''git'')
      \<and> sub \<in> set READ_ONLY_SUBCOMMANDS
      \<and> list_all (\<lambda>g. starts_with (lit ''-'') g \<and> \<not> unsafe_global g) globals
      \<and> list_all (\<lambda>a. \<not> unsafe_subcommand_arg a) args
      \<and> (if sub = lit ''branch'' then list_all branch_flag args else True))"
    (is "?l \<longleftrightarrow> ?r")
proof
  assume safe: ?l
  then obtain i sub where find: "find_git_subcommand command READ_ONLY_SUBCOMMANDS = Some (i, sub)"
    by (auto simp: is_safe_git_command_def split: option.splits)
  then obtain exe ws where command: "command = exe # ws" "file_name exe = Some (lit ''git'')"
    "find_subcommand READ_ONLY_SUBCOMMANDS 1 False ws = Some (i, sub)"
    by (auto simp: find_git_subcommand_def executable_name_lookup_key_def split: list.splits if_splits)
  from find_subcommand_Some[OF this(3)] obtain globals args where ws:
    "ws = globals @ sub # args" "i = 1 + length globals" "sub \<in> set READ_ONLY_SUBCOMMANDS"
    "list_all (\<lambda>g. \<not> unsafe_global g) globals \<longrightarrow> list_all (starts_with (lit ''-'')) globals" by blast
  have c: "command = exe # globals @ sub # args" using command(1) ws(1) by simp
  have "list_all (\<lambda>g. \<not> unsafe_global g) globals \<and> list_all (\<lambda>a. \<not> unsafe_subcommand_arg a) args
      \<and> (if sub = lit ''branch'' then list_all branch_flag args else True)"
    using is_safe_git_command_alt[OF c _ ws(3)] find ws(2) safe by simp
  moreover from this ws(4) have "list_all (\<lambda>g. starts_with (lit ''-'') g \<and> \<not> unsafe_global g) globals"
    by (simp add: list.pred_set)
  ultimately show ?r using c command(2) ws(3) by blast
next
  assume ?r
  then obtain exe globals sub args where r: "command = exe # globals @ sub # args" "file_name exe = Some (lit ''git'')"
    "sub \<in> set READ_ONLY_SUBCOMMANDS" "list_all (\<lambda>g. starts_with (lit ''-'') g \<and> \<not> unsafe_global g) globals"
    "list_all (\<lambda>a. \<not> unsafe_subcommand_arg a) args"
    "if sub = lit ''branch'' then list_all branch_flag args else True" by blast
  have "\<not> starts_with (lit ''-'') sub" using subcommand_names(1) r(3) by (simp add: list.pred_set)
  from find_subcommand_globals[OF r(4,3) this, of 1 args]
  have find: "find_git_subcommand command READ_ONLY_SUBCOMMANDS = Some (Suc (length globals), sub)"
    using r(1,2) by (simp add: find_git_subcommand_def executable_name_lookup_key_def)
  show ?l unfolding is_safe_git_command_alt[OF r(1) find r(3)] using r(4-6) by (simp add: list.pred_set)
qed

theorem safe_git_commands_witness:
  "is_safe_git_command [lit ''git'', lit ''--no-pager'', lit ''log'', lit ''-n1'']
   \<and> \<not> is_safe_git_command [lit ''git'', lit ''push'']"
proof
  have "[lit ''git'', lit ''--no-pager'', lit ''log'', lit ''-n1''] = lit ''git'' # [lit ''--no-pager''] @ lit ''log'' # [lit ''-n1'']"
    by simp
  moreover have "file_name (lit ''git'') = Some (lit ''git'')" "lit ''log'' \<in> set READ_ONLY_SUBCOMMANDS"
    "list_all (\<lambda>g. starts_with (lit ''-'') g \<and> \<not> unsafe_global g) [lit ''--no-pager'']"
    "list_all (\<lambda>a. \<not> unsafe_subcommand_arg a) [lit ''-n1'']"
    "if lit ''log'' = lit ''branch'' then list_all branch_flag [lit ''-n1''] else True" by code_simp+
  ultimately show "is_safe_git_command [lit ''git'', lit ''--no-pager'', lit ''log'', lit ''-n1'']"
    using safe_git_commands by blast
  show "\<not> is_safe_git_command [lit ''git'', lit ''push'']" by code_simp
qed

section \<open>Safe and dangerous commands\<close>

definition safe_names :: "rstr list" where
  "safe_names = [lit ''numfmt'', lit ''tac''] @ READ_ONLY_COMMANDS
     @ [lit ''base64'', lit ''find'', lit ''rg'', lit ''git'', lit ''sed'']"

abbreviation shell_names :: "rstr set" where
  "shell_names \<equiv> {lit ''zsh'', lit ''bash'', lit ''sh''}"

lemma safe_names_plain:
  "list_all (\<lambda>n. n \<notin> {lit ''rm'', lit ''sudo''} \<and> n \<notin> shell_names \<and> 46 \<notin> set n) safe_names"
  by code_simp

lemma safe_exec_name:
  "is_safe_to_call_with_exec c \<Longrightarrow> \<exists>cmd0 args n. c = cmd0 # args \<and> file_name cmd0 = Some n \<and> n \<in> set safe_names"
  by (auto simp: is_safe_to_call_with_exec_def executable_name_lookup_key_def safe_names_def
      split: option.splits if_splits list.splits)

lemma safe_exec_not_dangerous:
  assumes "is_safe_to_call_with_exec c"
  shows "\<not> is_dangerous_to_call_with_exec c"
proof -
  obtain cmd0 args n where c: "c = cmd0 # args" and n: "file_name cmd0 = Some n" "n \<in> set safe_names"
    using safe_exec_name[OF assms] by blast
  have "file_name (lit ''rm'') = Some (lit ''rm'')" "file_name (lit ''sudo'') = Some (lit ''sudo'')" by code_simp+
  moreover have "n \<noteq> lit ''rm''" "n \<noteq> lit ''sudo''"
    using safe_names_plain n(2) unfolding list.pred_set by blast+
  ultimately have "cmd0 \<noteq> lit ''rm''" "cmd0 \<noteq> lit ''sudo''" using n(1) by (metis option.inject)+
  then show ?thesis by (simp add: c)
qed

lemma file_stem_dotless:
  assumes "file_name p = Some n" "46 \<notin> set n"
  shows "file_stem p = Some n"
proof -
  have "dropWhile (\<lambda>c. c \<noteq> 46) (rev n) = []" using assms(2) by (auto simp: dropWhile_eq_Nil_conv)
  then show ?thesis using assms(1) by (simp add: file_stem_def del: dropWhile_eq_Nil_conv)
qed

lemma file_stem_one_dot:
  assumes "file_name p = Some (a @ 46 # b)" "46 \<notin> set b" "a \<noteq> []"
  shows "file_stem p = Some a"
proof -
  have "dropWhile (\<lambda>c. c \<noteq> 46) (rev b @ 46 # rev a) = 46 # rev a"
    using assms(2) by (subst dropWhile_append2) auto
  then have upto: "rev (dropWhile (\<lambda>c. c \<noteq> 46) (rev (a @ 46 # b))) = a @ [46]" by simp
  show ?thesis unfolding file_stem_def assms(1) option.map Let_def upto using assms(3) by simp
qed

lemma file_name_plain_name: "plain_name n \<Longrightarrow> file_name n = Some n"
  by (simp add: file_name_def components_def Let_def split_on_no_sep component_of_plain plain_name_def
      is_absolute_def starts_with_iff last_opt_def split: path_component.splits)

lemma shell_file_names:
  "file_name (lit ''zsh'') = Some (lit ''zsh'')" "file_name (lit ''sh'') = Some (lit ''sh'')"
  "file_name (lit ''bash'') = Some (lit ''bash'')"
  by code_simp+

abbreviation posix_shell :: "rstr \<Rightarrow> bool" where
  "posix_shell p \<equiv> detect_shell_type p \<in> {Some Zsh, Some Bash, Some Sh}"

lemma posix_shell_unfold:
  assumes "posix_shell p"
  shows "p \<in> shell_names \<or> (\<exists>n. file_stem p = Some n \<and> \<not> same_path n p \<and> posix_shell n)"
  using assms detect_shell_type.simps[of p] by (auto split: if_splits option.splits)

lemma posix_shell_dotless:
  assumes "posix_shell p" "file_name p = Some n" "46 \<notin> set n"
  shows "n \<in> shell_names"
proof (cases "p \<in> shell_names")
  case True
  then show ?thesis using assms(2) shell_file_names by auto
next
  case False
  with posix_shell_unfold[OF assms(1)] file_stem_dotless[OF assms(2,3)] have "posix_shell n" by auto
  moreover have "file_stem n = Some n"
    using file_stem_dotless assms(3) file_name_plain_name file_name_plain assms(2) by blast
  ultimately show ?thesis using posix_shell_unfold[of n] by (auto simp: same_path_def)
qed

lemma lower_dot: "46 \<in> set (to_ascii_lowercase s) \<longleftrightarrow> 46 \<in> set s"
  by (auto simp: to_ascii_lowercase_def to_ascii_lower_char_def image_iff split: if_splits)

lemma lower_shell_name: "n \<in> shell_names \<Longrightarrow> to_ascii_lowercase n = n"
proof -
  have "to_ascii_lowercase (lit ''zsh'') = lit ''zsh''" "to_ascii_lowercase (lit ''bash'') = lit ''bash''"
    "to_ascii_lowercase (lit ''sh'') = lit ''sh''" by code_simp+
  then show "n \<in> shell_names \<Longrightarrow> to_ascii_lowercase n = n" by blast
qed

lemma powershell_names:
  "lit ''powershell.exe'' = lit ''powershell'' @ 46 # lit ''exe''" "lit ''pwsh.exe'' = lit ''pwsh'' @ 46 # lit ''exe''"
  "46 \<notin> set (lit ''powershell'')" "46 \<notin> set (lit ''pwsh'')" "46 \<notin> set (lit ''exe'')"
  "lit ''powershell'' \<notin> shell_names" "lit ''pwsh'' \<notin> shell_names"
  "lit ''powershell'' \<noteq> []" "lit ''pwsh'' \<noteq> []"
  by code_simp+

lemma lower_split_dot:
  assumes "to_ascii_lowercase s = x @ 46 # y"
  obtains a b where "s = a @ 46 # b" "to_ascii_lowercase a = x" "to_ascii_lowercase b = y"
proof -
  from assms obtain a c where s: "s = a @ c" "map to_ascii_lower_char a = x" "map to_ascii_lower_char c = 46 # y"
    unfolding to_ascii_lowercase_def by (metis map_eq_append_conv)
  then obtain d b where "c = d # b" "to_ascii_lower_char d = 46" "map to_ascii_lower_char b = y" by auto
  moreover from this(2) have "d = 46" by (auto simp: to_ascii_lower_char_def split: if_splits)
  ultimately show thesis using that s by (auto simp: to_ascii_lowercase_def)
qed

lemma not_powershell:
  "\<not> is_powershell_executable (lit ''zsh'')" "\<not> is_powershell_executable (lit ''bash'')"
  "\<not> is_powershell_executable (lit ''sh'')" "\<not> is_powershell_executable (lit ''rm'')"
  "\<not> is_powershell_executable (lit ''sudo'')"
  by code_simp+

lemma powershell_not_posix:
  assumes "is_powershell_executable exe"
  shows "\<not> posix_shell exe"
proof
  assume shell: "posix_shell exe"
  have not_shell: "exe \<notin> shell_names" using assms not_powershell by auto
  from posix_shell_unfold[OF shell] not_shell obtain n where n: "file_stem exe = Some n" "posix_shell n" by blast
  then obtain name where name: "file_name exe = Some name" by (auto simp: file_stem_def)
  have lower: "to_ascii_lowercase name \<in> {lit ''powershell'', lit ''powershell.exe'', lit ''pwsh'', lit ''pwsh.exe''}"
    using assms name by (simp add: is_powershell_executable_def)
  have dotless: False if "to_ascii_lowercase n \<in> {lit ''powershell'', lit ''pwsh''}" "plain_name n"
  proof -
    have "46 \<notin> set n" using that(1) powershell_names(3,4) lower_dot[of n] by auto
    then have "n \<in> shell_names" using posix_shell_dotless[OF n(2) file_name_plain_name[OF that(2)]] by blast
    then show False using lower_shell_name[of n] that(1) powershell_names(6,7) by auto
  qed
  have plain: "plain_name name" using file_name_plain[OF name] .
  have dotted: False if low: "to_ascii_lowercase name = x @ 46 # lit ''exe''" and x: "x \<in> {lit ''powershell'', lit ''pwsh''}" for x
  proof -
    obtain a b where ab: "name = a @ 46 # b" "to_ascii_lowercase a = x" "to_ascii_lowercase b = lit ''exe''"
      using lower_split_dot[OF low] by metis
    have "46 \<notin> set a" "46 \<notin> set b" "a \<noteq> []"
      using ab x lower_dot[of a] lower_dot[of b] powershell_names(3-5,8,9) by (auto simp: to_ascii_lowercase_def)
    moreover from this have "plain_name a" using plain ab(1) by (auto simp: plain_name_def lit_def)
    moreover have "n = a" using n(1) file_stem_one_dot[of exe a b] name ab(1) calculation(2,3) by simp
    ultimately show False using dotless ab(2) x by blast
  qed
  show False
  proof (cases "to_ascii_lowercase name \<in> {lit ''powershell'', lit ''pwsh''}")
    case True
    then have "46 \<notin> set name" using powershell_names(3,4) lower_dot[of name] by auto
    then show False using file_stem_dotless[OF name] n(1) True dotless plain by simp
  next
    case False
    then show False using lower dotted[of "lit ''powershell''"] dotted[of "lit ''pwsh''"] powershell_names(1,2) by auto
  qed
qed

lemma plain_commands_shell:
  "parse_shell_lc_plain_commands parser (cmd0 # args) = Some cmds \<Longrightarrow> posix_shell cmd0"
  by (auto simp: parse_shell_lc_plain_commands_def extract_bash_command_def split: list.splits option.splits if_splits)

text \<open>
  The two lists never disagree: a command that is known to be safe, whether by its name, as a shell
  script of safe commands or as a PowerShell invocation, is never among those that might be
  dangerous (after the same reading of \<open>zsh\<close> as \<open>bash\<close>).
\<close>

lemma safe_never_dangerous:
  assumes "is_known_safe_command ps command"
  shows "\<not> command_might_be_dangerous ps (map zsh_as_bash command)"
proof -
  let ?c = "map zsh_as_bash command" and ?parse = "parse_shell_lc_plain_commands (shell_tree ps)"
  consider "is_safe_command_windows (powershell_ast ps) ?c" | "is_safe_to_call_with_exec ?c"
    | cmds where "?parse ?c = Some cmds" "list_all is_safe_to_call_with_exec cmds"
    using assms by (auto simp: is_known_safe_command_def Let_def split: option.splits)
  then show ?thesis
  proof cases
    case 1
    then obtain exe args where c: "?c = exe # args" "is_powershell_executable exe"
      by (auto simp: is_safe_command_windows_def try_parse_powershell_command_sequence_def
          split: option.splits list.splits if_splits)
    have none: "?parse ?c = None"
      using plain_commands_shell[of "shell_tree ps" exe args] powershell_not_posix[OF c(2)] c(1) by (metis option.exhaust)
    have "\<not> is_dangerous_to_call_with_exec ?c" using c not_powershell(4,5) by auto
    with none show ?thesis by (simp add: command_might_be_dangerous_def)
  next
    case 2
    from safe_exec_name[OF 2] obtain exe args n where
      c: "?c = exe # args" "file_name exe = Some n" "n \<in> set safe_names" by (elim exE conjE)
    have n: "n \<notin> shell_names" "46 \<notin> set n" using safe_names_plain c(3) unfolding list.pred_set by blast+
    have "?parse ?c = None"
      using plain_commands_shell[of "shell_tree ps" exe args] posix_shell_dotless[OF _ c(2) n(2)] n(1) c(1)
      by (metis option.exhaust)
    then show ?thesis using safe_exec_not_dangerous[OF 2] by (simp add: command_might_be_dangerous_def)
  next
    case 3
    then obtain exe args where c: "?c = exe # args" "posix_shell exe"
      using plain_commands_shell[of "shell_tree ps"]
      by (cases ?c) (auto simp: parse_shell_lc_plain_commands_def extract_bash_command_def)
    have "\<not> posix_shell (lit ''rm'')" "\<not> posix_shell (lit ''sudo'')" by code_simp+
    then have "\<not> is_dangerous_to_call_with_exec ?c" using c by auto
    moreover have "\<not> list_ex is_dangerous_to_call_with_exec cmds"
      using 3(2) safe_exec_not_dangerous by (auto simp: list_ex_iff list.pred_set)
    ultimately show ?thesis using 3(1) by (simp add: command_might_be_dangerous_def)
  qed
qed

lemma zsh_as_bash_id: "lit ''zsh'' \<notin> set command \<Longrightarrow> map zsh_as_bash command = command"
  by (induction command) (auto simp: zsh_as_bash_def)

end
