(* ===== verification/Exec_Approval.thy ===== *)
theory Exec_Approval
  imports Policy_Amend Command_Safety
begin

text \<open>
  \<open>core/src/exec_policy.rs\<close> on Unix: whether a command runs at once, after an approval or not at
  all. It composes the rules (\<open>Exec_Policy\<close>), the splitting of scripts (\<open>Bash_Commands\<close>), the lists
  of safe and dangerous commands (\<open>Command_Safety\<close>) and the policy file (\<open>Policy_Amend\<close>). The
  parsers, the quoting of a command for display (shlex) and the file system are parameters.
\<close>

section \<open>Requests and requirements\<close>

record granular_approval_config =
  sandbox_approval :: bool
  rules_approval :: bool
  skill_approval :: bool
  request_permissions :: bool
  mcp_elicitations :: bool

datatype ask_for_approval = UnlessTrusted | OnFailure | OnRequest | Granular granular_approval_config | Never

text \<open>Of a permission profile only its kind matters here; its contents stay abstract.\<close>

datatype ('fs, 'net) permission_profile = Managed 'fs 'net | Disabled | External 'net

datatype file_system_sandbox_kind = Restricted | Unrestricted | ExternalSandbox

datatype sandbox_permissions = UseDefault | RequireEscalated | WithAdditionalPermissions

definition requests_sandbox_override :: "sandbox_permissions \<Rightarrow> bool" where
  "requests_sandbox_override p \<longleftrightarrow> p \<noteq> UseDefault"

datatype exec_approval_requirement =
  Skip bool "rstr list option"
| NeedsApproval "rstr option" "rstr list option"
| ForbiddenRequirement rstr

record ('fs, 'net) exec_approval_request =
  req_command :: "rstr list"
  approval_policy :: ask_for_approval
  permission_profile :: "('fs, 'net) permission_profile"
  sandbox_kind :: file_system_sandbox_kind
  sandbox_perms :: sandbox_permissions
  req_prefix_rule :: "rstr list option"

record exec_policy_commands =
  commands :: "rstr list list"
  used_complex_parsing :: bool

definition PROMPT_CONFLICT_REASON :: rstr where
  "PROMPT_CONFLICT_REASON = lit ''approval required by policy, but AskForApproval is set to Never''"

definition REJECT_SANDBOX_APPROVAL_REASON :: rstr where
  "REJECT_SANDBOX_APPROVAL_REASON =
     lit ''approval required by policy, but AskForApproval::Granular.sandbox_approval is false''"

definition REJECT_RULES_APPROVAL_REASON :: rstr where
  "REJECT_RULES_APPROVAL_REASON =
     lit ''approval required by policy rule, but AskForApproval::Granular.rules is false''"

definition BANNED_PREFIX_SUGGESTIONS :: "rstr list list" where
  "BANNED_PREFIX_SUGGESTIONS =
     [[lit ''python3''], [lit ''python3'', lit ''-''], [lit ''python3'', lit ''-c''], [lit ''python''],
      [lit ''python'', lit ''-''], [lit ''python'', lit ''-c''], [lit ''py''], [lit ''py'', lit ''-3''], [lit ''pythonw''],
      [lit ''pyw''], [lit ''pypy''], [lit ''pypy3''], [lit ''git''], [lit ''bash''], [lit ''bash'', lit ''-lc''], [lit ''sh''],
      [lit ''sh'', lit ''-c''], [lit ''sh'', lit ''-lc''], [lit ''zsh''], [lit ''zsh'', lit ''-lc''], [lit ''/bin/zsh''],
      [lit ''/bin/zsh'', lit ''-lc''], [lit ''/bin/bash''], [lit ''/bin/bash'', lit ''-lc''], [lit ''pwsh''],
      [lit ''pwsh'', lit ''-Command''], [lit ''pwsh'', lit ''-c''], [lit ''powershell''], [lit ''powershell'', lit ''-Command''],
      [lit ''powershell'', lit ''-c''], [lit ''powershell.exe''], [lit ''powershell.exe'', lit ''-Command''],
      [lit ''powershell.exe'', lit ''-c''], [lit ''env''], [lit ''sudo''], [lit ''node''], [lit ''node'', lit ''-e''],
      [lit ''perl''], [lit ''perl'', lit ''-e''], [lit ''ruby''], [lit ''ruby'', lit ''-e''], [lit ''php''],
      [lit ''php'', lit ''-r''], [lit ''lua''], [lit ''lua'', lit ''-e''], [lit ''osascript'']]"

section \<open>Decisions\<close>

definition is_policy_match :: "rule_match \<Rightarrow> bool" where
  "is_policy_match m \<longleftrightarrow> \<not> is_heuristics_match m"

fun prompt_is_rejected_by_policy :: "ask_for_approval \<Rightarrow> bool \<Rightarrow> rstr option" where
  "prompt_is_rejected_by_policy Never prompt_is_rule = Some PROMPT_CONFLICT_REASON"
| "prompt_is_rejected_by_policy OnFailure prompt_is_rule = None"
| "prompt_is_rejected_by_policy OnRequest prompt_is_rule = None"
| "prompt_is_rejected_by_policy UnlessTrusted prompt_is_rule = None"
| "prompt_is_rejected_by_policy (Granular config) prompt_is_rule =
     (if prompt_is_rule
      then (if \<not> rules_approval config then Some REJECT_RULES_APPROVAL_REASON else None)
      else if \<not> sandbox_approval config then Some REJECT_SANDBOX_APPROVAL_REASON else None)"

text \<open>On Unix the environment never lacks sandbox protections, and no command comes from PowerShell.\<close>

definition unmatched_default :: "ask_for_approval \<Rightarrow> file_system_sandbox_kind \<Rightarrow> sandbox_permissions \<Rightarrow> decision" where
  "unmatched_default policy fs_kind perms =
     (case policy of
        Never \<Rightarrow> Allow
      | OnFailure \<Rightarrow> Allow
      | UnlessTrusted \<Rightarrow> Prompt
      | OnRequest \<Rightarrow>
          (case fs_kind of
             Unrestricted \<Rightarrow> Allow
           | ExternalSandbox \<Rightarrow> Allow
           | Restricted \<Rightarrow> if requests_sandbox_override perms then Prompt else Allow)
      | Granular _ \<Rightarrow>
          (case fs_kind of
             Unrestricted \<Rightarrow> Allow
           | ExternalSandbox \<Rightarrow> Allow
           | Restricted \<Rightarrow> if requests_sandbox_override perms then Prompt else Allow))"

definition sandbox_is_explicitly_disabled :: "('fs, 'net) permission_profile \<Rightarrow> bool" where
  "sandbox_is_explicitly_disabled profile = (case profile of Disabled \<Rightarrow> True | External _ \<Rightarrow> True | Managed _ _ \<Rightarrow> False)"

definition render_decision_for_unmatched_command ::
  "command_parsers \<Rightarrow> ('fs, 'net) exec_approval_request \<Rightarrow> bool \<Rightarrow> rstr list \<Rightarrow> decision" where
  "render_decision_for_unmatched_command ps req complex command =
     (if is_known_safe_command ps command \<and> \<not> complex \<and> approval_policy req = UnlessTrusted then Allow
      else if command_might_be_dangerous ps command
      then (if approval_policy req = Never
            then (if sandbox_is_explicitly_disabled (permission_profile req) then Allow else Forbidden)
            else Prompt)
      else unmatched_default (approval_policy req) (sandbox_kind req) (sandbox_perms req))"

definition commands_for_exec_policy :: "command_parsers \<Rightarrow> rstr list \<Rightarrow> exec_policy_commands" where
  "commands_for_exec_policy ps command =
     (case parse_shell_lc_plain_commands (shell_tree ps) command of
        Some (c # cs) \<Rightarrow> \<lparr>commands = c # cs, used_complex_parsing = False\<rparr>
      | _ \<Rightarrow>
        (case parse_shell_lc_single_command_prefix (shell_tree ps) command of
           Some single_command \<Rightarrow> \<lparr>commands = [single_command], used_complex_parsing = True\<rparr>
         | None \<Rightarrow> \<lparr>commands = [command], used_complex_parsing = False\<rparr>))"

section \<open>Amendments\<close>

fun find_map :: "('a \<Rightarrow> 'b option) \<Rightarrow> 'a list \<Rightarrow> 'b option" where
  "find_map f [] = None"
| "find_map f (x # xs) = (case f x of Some y \<Rightarrow> Some y | None \<Rightarrow> find_map f xs)"

fun heuristics_command :: "decision \<Rightarrow> rule_match \<Rightarrow> rstr list option" where
  "heuristics_command d (HeuristicsRuleMatch cmd d') = (if d' = d then Some cmd else None)"
| "heuristics_command d (PrefixRuleMatch _ _ _ _) = None"

definition prompting_rule :: "rule_match \<Rightarrow> bool" where
  "prompting_rule m \<longleftrightarrow> is_policy_match m \<and> rule_decision m = Prompt"

definition try_derive_execpolicy_amendment_for_prompt_rules :: "rule_match list \<Rightarrow> rstr list option" where
  "try_derive_execpolicy_amendment_for_prompt_rules ms =
     (if list_ex prompting_rule ms then None else find_map (heuristics_command Prompt) ms)"

definition try_derive_execpolicy_amendment_for_allow_rules :: "rule_match list \<Rightarrow> rstr list option" where
  "try_derive_execpolicy_amendment_for_allow_rules ms =
     (if list_ex is_policy_match ms then None else find_map (heuristics_command Allow) ms)"

definition prefix_rule_would_approve_all_commands ::
  "path_env \<Rightarrow> policy \<Rightarrow> rstr list \<Rightarrow> rstr list list \<Rightarrow> (rstr list \<Rightarrow> decision) \<Rightarrow> bool \<Rightarrow> bool" where
  "prefix_rule_would_approve_all_commands env p pre cmds fallback resolve =
     (case add_prefix_rule pre Allow p of
        Inl _ \<Rightarrow> False
      | Inr p' \<Rightarrow> list_all (\<lambda>c. map_option eval_decision (check_with_options env p' c fallback resolve) = Some Allow) cmds)"

definition derive_requested_execpolicy_amendment_from_prefix_rule ::
  "path_env \<Rightarrow> rstr list option \<Rightarrow> rule_match list \<Rightarrow> policy \<Rightarrow> rstr list list \<Rightarrow> (rstr list \<Rightarrow> decision) \<Rightarrow> bool
   \<Rightarrow> rstr list option" where
  "derive_requested_execpolicy_amendment_from_prefix_rule env requested ms p cmds fallback resolve =
     (case requested of
        None \<Rightarrow> None
      | Some pre \<Rightarrow>
          if pre = [] then None
          else if pre \<in> set BANNED_PREFIX_SUGGESTIONS then None
          else if list_ex is_policy_match ms then None
          else if prefix_rule_would_approve_all_commands env p pre cmds fallback resolve then Some pre
          else None)"

section \<open>Reasons\<close>

text \<open>\<open>Iterator::max_by_key\<close>: the last of the largest elements.\<close>

fun max_by_key :: "('a \<Rightarrow> nat) \<Rightarrow> 'a list \<Rightarrow> 'a option" where
  "max_by_key f [] = None"
| "max_by_key f (x # xs) = Some (foldl (\<lambda>best y. if f best \<le> f y then y else best) x xs)"

fun prefix_match_of :: "decision \<Rightarrow> rule_match \<Rightarrow> (rstr list \<times> rstr option) option" where
  "prefix_match_of d (PrefixRuleMatch matched_prefix d' _ justification) =
     (if d' = d then Some (matched_prefix, justification) else None)"
| "prefix_match_of d (HeuristicsRuleMatch _ _) = None"

definition most_specific :: "decision \<Rightarrow> rule_match list \<Rightarrow> (rstr list \<times> rstr option) option" where
  "most_specific d ms = max_by_key (\<lambda>(pre, _). length pre) (List.map_filter (prefix_match_of d) ms)"

type_synonym shell_quote = "rstr list \<Rightarrow> rstr option"

definition render_shlex_command :: "shell_quote \<Rightarrow> rstr list \<Rightarrow> rstr" where
  "render_shlex_command try_join args = (case try_join args of Some s \<Rightarrow> s | None \<Rightarrow> join [SP] args)"

definition derive_prompt_reason :: "shell_quote \<Rightarrow> rstr list \<Rightarrow> evaluation \<Rightarrow> rstr option" where
  "derive_prompt_reason try_join command_args e =
     (let command = [96] @ render_shlex_command try_join command_args @ [96] in
      case most_specific Prompt (matched_rules e) of
        Some (_, Some justification) \<Rightarrow> Some (command @ lit '' requires approval: '' @ justification)
      | Some (_, None) \<Rightarrow> Some (command @ lit '' requires approval by policy'')
      | None \<Rightarrow> None)"

definition derive_forbidden_reason :: "shell_quote \<Rightarrow> rstr list \<Rightarrow> evaluation \<Rightarrow> rstr" where
  "derive_forbidden_reason try_join command_args e =
     (let command = [96] @ render_shlex_command try_join command_args @ [96] in
      case most_specific Forbidden (matched_rules e) of
        Some (_, Some justification) \<Rightarrow> command @ lit '' rejected: '' @ justification
      | Some (matched_prefix, None) \<Rightarrow>
          command @ lit '' rejected: policy forbids commands starting with '' @ [96]
          @ render_shlex_command try_join matched_prefix @ [96]
      | None \<Rightarrow> command @ lit '' rejected: blocked by policy'')"

section \<open>The requirement of a command\<close>

record approval_env =
  paths :: path_env
  parsers :: command_parsers
  shell_join :: shell_quote

definition explicitly_allowed :: "approval_env \<Rightarrow> policy \<Rightarrow> rstr list \<Rightarrow> bool" where
  "explicitly_allowed env p command =
     list_ex (\<lambda>m. is_policy_match m \<and> rule_decision m = Allow)
       (matches_for_command_with_options (paths env) p command None True)"

text \<open>\<open>None\<close> would be the panic of an evaluation without matches.\<close>

definition create_exec_approval_requirement_for_command ::
  "approval_env \<Rightarrow> policy \<Rightarrow> ('fs, 'net) exec_approval_request \<Rightarrow> exec_approval_requirement option" where
  "create_exec_approval_requirement_for_command env p req =
     (let parsed = commands_for_exec_policy (parsers env) (req_command req);
          cmds = commands parsed;
          auto_amendment_allowed = (\<not> used_complex_parsing parsed);
          fallback = render_decision_for_unmatched_command (parsers env) req (used_complex_parsing parsed)
      in map_option (\<lambda>e.
           let ms = matched_rules e;
               requested_amendment =
                 (if auto_amendment_allowed
                  then derive_requested_execpolicy_amendment_from_prefix_rule (paths env) (req_prefix_rule req) ms p cmds
                         fallback True
                  else None)
           in case eval_decision e of
                Forbidden \<Rightarrow> ForbiddenRequirement (derive_forbidden_reason (shell_join env) (req_command req) e)
              | Prompt \<Rightarrow>
                  (case prompt_is_rejected_by_policy (approval_policy req) (list_ex prompting_rule ms) of
                     Some reason \<Rightarrow> ForbiddenRequirement reason
                   | None \<Rightarrow>
                       NeedsApproval (derive_prompt_reason (shell_join env) (req_command req) e)
                         (case requested_amendment of
                            Some a \<Rightarrow> Some a
                          | None \<Rightarrow> if auto_amendment_allowed
                                    then try_derive_execpolicy_amendment_for_prompt_rules ms else None))
              | Allow \<Rightarrow>
                  Skip (list_all (explicitly_allowed env p) cmds)
                    (if auto_amendment_allowed then try_derive_execpolicy_amendment_for_allow_rules ms else None))
         (check_multiple_with_options (paths env) p cmds fallback True))"

section \<open>Updating the policy\<close>

datatype 'e exec_policy_update_error =
  AppendRule rstr "'e amend_error"
| JoinBlockingTask rstr
| AddRule policy_error

definition RULES_DIR_NAME :: rstr where
  "RULES_DIR_NAME = lit ''rules''"

definition DEFAULT_POLICY_FILE :: rstr where
  "DEFAULT_POLICY_FILE = lit ''default.rules''"

definition default_policy_path :: "rstr \<Rightarrow> rstr" where
  "default_policy_path codex_home = path_join (path_join codex_home RULES_DIR_NAME) DEFAULT_POLICY_FILE"

definition already_allowed :: "path_env \<Rightarrow> policy \<Rightarrow> rstr list \<Rightarrow> bool option" where
  "already_allowed env p command =
     map_option (\<lambda>e. eval_decision e = Allow
         \<and> list_ex (\<lambda>m. is_policy_match m \<and> rule_decision m = Allow) (matched_rules e))
       (check_multiple_with_options env p [command] (\<lambda>_. Forbidden) True)"

definition updated_policy :: "path_env \<Rightarrow> policy \<Rightarrow> rstr list \<Rightarrow> (policy_error, policy) rresult option" where
  "updated_policy env p command =
     map_option (\<lambda>allowed. if allowed then Inr p else add_prefix_rule command Allow p) (already_allowed env p command)"

text \<open>
  The update lock serialises the updates and is never closed, and the blocking task does not fail to
  be joined; the outer \<open>None\<close> would be a panic.
\<close>

definition append_amendment_and_update ::
  "('w, 'e) policy_fs \<Rightarrow> to_json \<Rightarrow> path_env \<Rightarrow> rstr \<Rightarrow> rstr list \<Rightarrow> 'w \<Rightarrow> policy
   \<Rightarrow> ('w \<times> policy \<times> ('e exec_policy_update_error + unit)) option" where
  "append_amendment_and_update fs json env codex_home command w p =
     (let policy_path = default_policy_path codex_home in
      case blocking_append_allow_prefix_rule fs json policy_path command w of
        (w', Inl source) \<Rightarrow> Some (w', p, Inl (AppendRule policy_path source))
      | (w', Inr _) \<Rightarrow>
          map_option (\<lambda>r. case r of Inl e \<Rightarrow> (w', p, Inl (AddRule e)) | Inr p' \<Rightarrow> (w', p', Inr ()))
            (updated_policy env p command))"

definition append_network_rule_and_update ::
  "('w, 'e) policy_fs \<Rightarrow> to_json \<Rightarrow> (rstr list \<Rightarrow> rstr) \<Rightarrow> rstr \<Rightarrow> rstr \<Rightarrow> network_rule_protocol \<Rightarrow> decision
   \<Rightarrow> rstr option \<Rightarrow> 'w \<Rightarrow> policy \<Rightarrow> 'w \<times> policy \<times> ('e exec_policy_update_error + unit)" where
  "append_network_rule_and_update fs json dbg codex_home host protocol d justification w p =
     (let policy_path = default_policy_path codex_home in
      case blocking_append_network_rule fs json dbg policy_path host protocol d justification w of
        (w', Inl source) \<Rightarrow> (w', p, Inl (AppendRule policy_path source))
      | (w', Inr _) \<Rightarrow>
          (case add_network_rule host protocol d justification p of
             Inl e \<Rightarrow> (w', p, Inl (AddRule e))
           | Inr p' \<Rightarrow> (w', p', Inr ())))"

section \<open>What a requirement means\<close>

abbreviation request_commands :: "approval_env \<Rightarrow> ('fs, 'net) exec_approval_request \<Rightarrow> rstr list list" where
  "request_commands env req \<equiv> commands (commands_for_exec_policy (parsers env) (req_command req))"

abbreviation heuristics :: "approval_env \<Rightarrow> ('fs, 'net) exec_approval_request \<Rightarrow> rstr list \<Rightarrow> decision" where
  "heuristics env req \<equiv> render_decision_for_unmatched_command (parsers env) req
     (used_complex_parsing (commands_for_exec_policy (parsers env) (req_command req)))"

abbreviation decides_on :: "approval_env \<Rightarrow> policy \<Rightarrow> ('fs, 'net) exec_approval_request \<Rightarrow> rstr list \<Rightarrow> decision" where
  "decides_on env p req \<equiv> decision_for (paths env) p (heuristics env req) True"

abbreviation rules_on :: "approval_env \<Rightarrow> policy \<Rightarrow> rstr list \<Rightarrow> rule_match list" where
  "rules_on env p \<equiv> deciding (paths env) p True"

lemma commands_nonempty: "commands (commands_for_exec_policy ps command) \<noteq> []"
  by (auto simp: commands_for_exec_policy_def split: option.splits list.splits)

lemma explicitly_allowed_iff:
  assumes "list_all (\<lambda>m. rule_decision m = Allow) (rules_on env p c)"
  shows "explicitly_allowed env p c \<longleftrightarrow> rules_on env p c \<noteq> []"
  using assms deciding_prefix_match[of _ "paths env" p True c]
  by (cases "rules_on env p c") (auto simp: explicitly_allowed_def deciding_def[symmetric] is_policy_match_def list_ex_iff)

lemma decision_for_Allow:
  "decision_for env p fallback resolve c = Allow \<longleftrightarrow>
     (if deciding env p resolve c = [] then fallback c = Allow
      else list_all (\<lambda>m. rule_decision m = Allow) (deciding env p resolve c))"
  by (simp add: decision_for_def Max_decision_Allow_iff list.pred_set)

lemma decision_for_Forbidden:
  "decision_for env p fallback resolve c = Forbidden \<longleftrightarrow>
     (if deciding env p resolve c = [] then fallback c = Forbidden
      else list_ex (\<lambda>m. rule_decision m = Forbidden) (deciding env p resolve c))"
  by (auto simp: decision_for_def Max_decision_Forbidden_iff list_ex_iff image_iff eq_commute[of Forbidden])

text \<open>The evaluation behind a requirement.\<close>

definition request_evaluation :: "approval_env \<Rightarrow> policy \<Rightarrow> ('fs, 'net) exec_approval_request \<Rightarrow> evaluation" where
  "request_evaluation env p req =
     \<lparr>eval_decision = Max (decides_on env p req ` set (request_commands env req)),
      matched_rules = concat (map (\<lambda>c. matches_for_command_with_options (paths env) p c (Some (heuristics env req)) True)
        (request_commands env req))\<rparr>"

lemma request_check:
  "check_multiple_with_options (paths env) p (request_commands env req) (heuristics env req) True =
     Some (request_evaluation env p req)"
  unfolding request_evaluation_def by (rule check_multiple_decision[OF commands_nonempty])

lemma requirement_Skip:
  assumes "eval_decision (request_evaluation env p req) = Allow"
  shows "\<exists>a. create_exec_approval_requirement_for_command env p req =
    Some (Skip (list_all (explicitly_allowed env p) (request_commands env req)) a)"
  using assms unfolding create_exec_approval_requirement_for_command_def Let_def request_check by simp

lemma requirement_Forbidden:
  assumes "eval_decision (request_evaluation env p req) = Forbidden"
  shows "\<exists>reason. create_exec_approval_requirement_for_command env p req = Some (ForbiddenRequirement reason)"
  using assms unfolding create_exec_approval_requirement_for_command_def Let_def request_check by simp

lemma requirement_Prompt:
  assumes "eval_decision (request_evaluation env p req) = Prompt"
  shows "create_exec_approval_requirement_for_command env p req = Some
    (case prompt_is_rejected_by_policy (approval_policy req) (list_ex prompting_rule (matched_rules (request_evaluation env p req))) of
       Some reason \<Rightarrow> ForbiddenRequirement reason
     | None \<Rightarrow>
         NeedsApproval (derive_prompt_reason (shell_join env) (req_command req) (request_evaluation env p req))
           (case (if \<not> used_complex_parsing (commands_for_exec_policy (parsers env) (req_command req))
                  then derive_requested_execpolicy_amendment_from_prefix_rule (paths env) (req_prefix_rule req)
                         (matched_rules (request_evaluation env p req)) p (request_commands env req) (heuristics env req) True
                  else None) of
              Some a \<Rightarrow> Some a
            | None \<Rightarrow> if \<not> used_complex_parsing (commands_for_exec_policy (parsers env) (req_command req))
                then try_derive_execpolicy_amendment_for_prompt_rules (matched_rules (request_evaluation env p req)) else None))"
  using assms unfolding create_exec_approval_requirement_for_command_def Let_def request_check by simp

lemma eval_decision_request:
  "eval_decision (request_evaluation env p req) = Max (decides_on env p req ` set (request_commands env req))"
  by (simp add: request_evaluation_def)

lemma request_all_Allow:
  "eval_decision (request_evaluation env p req) = Allow \<longleftrightarrow>
     (\<forall>c \<in> set (request_commands env req). decides_on env p req c = Allow)"
  unfolding eval_decision_request by (subst Max_decision_Allow_iff) (simp_all add: commands_nonempty)

lemma request_some_Forbidden:
  "eval_decision (request_evaluation env p req) = Forbidden \<longleftrightarrow>
     (\<exists>c \<in> set (request_commands env req). decides_on env p req c = Forbidden)"
  unfolding eval_decision_request
  by (subst Max_decision_Forbidden_iff) (auto simp: commands_nonempty image_iff eq_commute[of Forbidden])

lemma request_Prompt:
  "eval_decision (request_evaluation env p req) = Prompt \<Longrightarrow>
     \<exists>c \<in> set (request_commands env req). decides_on env p req c = Prompt"
proof -
  assume "eval_decision (request_evaluation env p req) = Prompt"
  moreover have "Max (decides_on env p req ` set (request_commands env req)) \<in> decides_on env p req ` set (request_commands env req)"
    by (intro Max_in) (simp_all add: commands_nonempty)
  ultimately show ?thesis unfolding eval_decision_request by (metis imageE)
qed

lemma request_matches:
  "m \<in> set (matched_rules (request_evaluation env p req)) \<longleftrightarrow>
     (\<exists>c \<in> set (request_commands env req).
        m \<in> set (rules_on env p c) \<or> rules_on env p c = [] \<and> m = HeuristicsRuleMatch c (heuristics env req c))"
  by (auto simp: request_evaluation_def matches_with_fallback split: if_splits)

text \<open>
  Which questions a user takes, after the documentation of \<open>AskForApproval\<close>: none under \<open>Never\<close>;
  under a granular policy those that come from a rule or from the sandbox, as its switches say.
\<close>

definition takes_question :: "ask_for_approval \<Rightarrow> bool \<Rightarrow> bool" where
  "takes_question policy by_rule =
     (case policy of
        Never \<Rightarrow> False
      | Granular config \<Rightarrow> (if by_rule then rules_approval config else sandbox_approval config)
      | _ \<Rightarrow> True)"

definition asked_by_rule :: "approval_env \<Rightarrow> policy \<Rightarrow> ('fs, 'net) exec_approval_request \<Rightarrow> bool" where
  "asked_by_rule env p req =
     list_ex (\<lambda>c. list_ex (\<lambda>m. rule_decision m = Prompt) (rules_on env p c)) (request_commands env req)"

lemma rejected_iff: "prompt_is_rejected_by_policy policy by_rule = None \<longleftrightarrow> takes_question policy by_rule"
  by (cases policy) (simp_all add: takes_question_def)

lemma prompting_rule_iff:
  "list_ex prompting_rule (matched_rules (request_evaluation env p req)) \<longleftrightarrow> asked_by_rule env p req"
proof
  assume "list_ex prompting_rule (matched_rules (request_evaluation env p req))"
  then obtain m where m: "m \<in> set (matched_rules (request_evaluation env p req))" "prompting_rule m"
    by (auto simp: list_ex_iff)
  from m(1)[unfolded request_matches] m(2) show "asked_by_rule env p req"
    by (auto simp: asked_by_rule_def prompting_rule_def is_policy_match_def list_ex_iff)
next
  assume "asked_by_rule env p req"
  then obtain c m where "c \<in> set (request_commands env req)" "m \<in> set (rules_on env p c)" "rule_decision m = Prompt"
    by (auto simp: asked_by_rule_def list_ex_iff)
  then show "list_ex prompting_rule (matched_rules (request_evaluation env p req))"
    using deciding_prefix_match unfolding list_ex_iff
    by (intro bexI[of _ m]) (auto simp: request_matches prompting_rule_def is_policy_match_def)
qed

lemmas requirement_Prompt_taken = requirement_Prompt[unfolded prompting_rule_iff]

text \<open>
  C1. The requirement of every request is well defined and means what it says. A command line
  runs without approval only when each of the commands it contains is allowed by every rule that
  applies to it or, without rules, by the heuristics; it leaves the sandbox only when each of them
  has an allowing rule. It asks for approval only when one of its commands needs a question, none
  is forbidden and the user takes the question: never under \<open>Never\<close>, under a granular policy as the
  switch for rules says when a rule asks and as the switch for the sandbox says otherwise. It is
  refused only when a rule or the heuristics forbid one of its commands, or when a question is
  needed that the user does not take.
\<close>

theorem approval_requirement_sound:
  "\<exists>r. create_exec_approval_requirement_for_command env p req = Some r \<and> (case r of
     Skip bypass _ \<Rightarrow>
       list_all (\<lambda>c. if rules_on env p c = [] then heuristics env req c = Allow
                     else list_all (\<lambda>m. rule_decision m = Allow) (rules_on env p c)) (request_commands env req)
       \<and> (bypass \<longleftrightarrow> list_all (\<lambda>c. rules_on env p c \<noteq> []) (request_commands env req))
   | NeedsApproval _ _ \<Rightarrow>
       takes_question (approval_policy req) (asked_by_rule env p req)
       \<and> list_ex (\<lambda>c. decides_on env p req c = Prompt) (request_commands env req)
       \<and> list_all (\<lambda>c. decides_on env p req c \<noteq> Forbidden) (request_commands env req)
   | ForbiddenRequirement _ \<Rightarrow>
       list_ex (\<lambda>c. if rules_on env p c = [] then heuristics env req c = Forbidden
                    else list_ex (\<lambda>m. rule_decision m = Forbidden) (rules_on env p c)) (request_commands env req)
       \<or> list_ex (\<lambda>c. decides_on env p req c = Prompt) (request_commands env req)
         \<and> \<not> takes_question (approval_policy req) (asked_by_rule env p req))"
proof (cases "eval_decision (request_evaluation env p req)")
  case Allow
  then have allow: "decides_on env p req c = Allow" if "c \<in> set (request_commands env req)" for c
    using that request_all_Allow by blast
  have "list_all (explicitly_allowed env p) (request_commands env req) \<longleftrightarrow>
      list_all (\<lambda>c. rules_on env p c \<noteq> []) (request_commands env req)"
  proof (rule list.pred_cong[OF refl])
    fix c assume "c \<in> set (request_commands env req)"
    from allow[OF this] have "list_all (\<lambda>m. rule_decision m = Allow) (rules_on env p c)"
      by (cases "rules_on env p c = []") (simp_all add: decision_for_Allow)
    then show "explicitly_allowed env p c = (rules_on env p c \<noteq> [])" by (rule explicitly_allowed_iff)
  qed
  moreover obtain a where "create_exec_approval_requirement_for_command env p req =
      Some (Skip (list_all (explicitly_allowed env p) (request_commands env req)) a)"
    using requirement_Skip[OF Allow] by blast
  moreover have "list_all (\<lambda>c. if rules_on env p c = [] then heuristics env req c = Allow
      else list_all (\<lambda>m. rule_decision m = Allow) (rules_on env p c)) (request_commands env req)"
    using allow unfolding decision_for_Allow list.pred_set by blast
  ultimately show ?thesis by simp
next
  case Prompt
  then have nf: "list_all (\<lambda>c. decides_on env p req c \<noteq> Forbidden) (request_commands env req)"
    using request_some_Forbidden[of env p req] by (simp add: list.pred_set)
  have pr: "list_ex (\<lambda>c. decides_on env p req c = Prompt) (request_commands env req)"
    using request_Prompt[OF Prompt] by (simp add: list_ex_iff)
  show ?thesis
  proof (cases "prompt_is_rejected_by_policy (approval_policy req) (asked_by_rule env p req)")
    case None
    with nf pr requirement_Prompt_taken[OF Prompt] show ?thesis by (simp add: rejected_iff)
  next
    case (Some reason)
    then have "\<not> takes_question (approval_policy req) (asked_by_rule env p req)" by (simp flip: rejected_iff)
    then show ?thesis using Some pr requirement_Prompt_taken[OF Prompt] by simp
  qed
next
  case Forbidden
  then obtain c where "c \<in> set (request_commands env req)" "decides_on env p req c = Forbidden"
    using request_some_Forbidden by blast
  then have "list_ex (\<lambda>c. if rules_on env p c = [] then heuristics env req c = Forbidden
      else list_ex (\<lambda>m. rule_decision m = Forbidden) (rules_on env p c)) (request_commands env req)"
    unfolding decision_for_Forbidden list_ex_iff by blast
  moreover obtain reason where "create_exec_approval_requirement_for_command env p req = Some (ForbiddenRequirement reason)"
    using requirement_Forbidden[OF Forbidden] by blast
  ultimately show ?thesis
    by (intro exI[of _ "ForbiddenRequirement reason"]) (simp only: exec_approval_requirement.case simp_thms)
qed


definition sample_env :: approval_env where
  "sample_env = \<lparr>paths = \<lparr>env_home = None, env_cwd = Some (lit ''/w'')\<rparr>,
     parsers = \<lparr>shell_tree = (\<lambda>_. None), powershell_ast = (\<lambda>_ _. None)\<rparr>, shell_join = (\<lambda>_. None)\<rparr>"

definition sample_request :: "rstr list \<Rightarrow> ask_for_approval \<Rightarrow> (unit, unit) exec_approval_request" where
  "sample_request cmd policy = \<lparr>req_command = cmd, approval_policy = policy, permission_profile = Disabled,
     sandbox_kind = Unrestricted, sandbox_perms = UseDefault, req_prefix_rule = None\<rparr>"

lemma sample_paths [simp]: "paths sample_env = \<lparr>env_home = None, env_cwd = Some (lit ''/w'')\<rparr>"
  by (simp add: sample_env_def)

lemma sample_commands: "request_commands sample_env (sample_request [lit ''rm'', lit ''-rf''] policy) = [[lit ''rm'', lit ''-rf'']]"
  by (simp add: commands_for_exec_policy_def parse_shell_lc_plain_commands_def extract_bash_command_def
      parse_shell_lc_single_command_prefix_def sample_request_def)


section \<open>Approvals converge\<close>

text \<open>The user approves a question and its proposed amendment is added.\<close>

definition approve_step :: "approval_env \<Rightarrow> ('fs, 'net) exec_approval_request \<Rightarrow> policy \<Rightarrow> policy" where
  "approve_step env req p =
     (case create_exec_approval_requirement_for_command env p req of
        Some (NeedsApproval _ (Some a)) \<Rightarrow>
          (case updated_policy (paths env) p a of Some (Inr p') \<Rightarrow> p' | _ \<Rightarrow> p)
      | _ \<Rightarrow> p)"

abbreviation only_allowing :: "approval_env \<Rightarrow> policy \<Rightarrow> ('fs, 'net) exec_approval_request \<Rightarrow> bool" where
  "only_allowing env p req \<equiv>
     list_all (\<lambda>c. list_all (\<lambda>m. rule_decision m = Allow) (rules_on env p c)) (request_commands env req)"

text \<open>The commands that still need a question.\<close>

definition pending :: "approval_env \<Rightarrow> policy \<Rightarrow> ('fs, 'net) exec_approval_request \<Rightarrow> rstr list set" where
  "pending env p req =
     {c \<in> set (request_commands env req). rules_on env p c = [] \<and> heuristics env req c = Prompt}"

lemma find_map_Some: "find_map f xs = Some y \<Longrightarrow> \<exists>x \<in> set xs. f x = Some y"
  by (induction xs) (auto split: option.splits)

lemma find_map_ex: "x \<in> set xs \<Longrightarrow> f x = Some y \<Longrightarrow> \<exists>z. find_map f xs = Some z"
  by (induction xs) (auto split: option.splits)

lemma no_prompting_rule:
  assumes "only_allowing env p req"
  shows "\<not> list_ex prompting_rule (matched_rules (request_evaluation env p req))"
proof
  assume "list_ex prompting_rule (matched_rules (request_evaluation env p req))"
  then obtain m where m: "m \<in> set (matched_rules (request_evaluation env p req))" "prompting_rule m"
    by (auto simp: list_ex_iff)
  from m(1)[unfolded request_matches] m(2) assms show False
    by (auto simp: prompting_rule_def is_policy_match_def list.pred_set)
qed

lemma decides_on_pending:
  assumes "only_allowing env p req" "c \<in> set (request_commands env req)" "heuristics env req c \<noteq> Forbidden"
  shows "decides_on env p req c = (if c \<in> pending env p req then Prompt else Allow)"
proof (cases "rules_on env p c = []")
  case True
  then show ?thesis
    using assms(2,3) by (cases "heuristics env req c") (simp_all add: decision_for_def pending_def)
next
  case False
  then have "decides_on env p req c = Allow"
    using assms(1,2) unfolding decision_for_Allow by (simp add: list.pred_set)
  with False show ?thesis by (simp add: pending_def)
qed

lemma prompt_amendment_pending:
  assumes "pending env p req \<noteq> {}" "only_allowing env p req"
  shows "\<exists>a \<in> pending env p req.
    try_derive_execpolicy_amendment_for_prompt_rules (matched_rules (request_evaluation env p req)) = Some a"
proof -
  let ?ms = "matched_rules (request_evaluation env p req)"
  from assms(1) obtain c where "c \<in> pending env p req" by blast
  then have "HeuristicsRuleMatch c Prompt \<in> set ?ms" unfolding request_matches by (auto simp: pending_def)
  then obtain a where a: "find_map (heuristics_command Prompt) ?ms = Some a"
    using find_map_ex[of "HeuristicsRuleMatch c Prompt" ?ms "heuristics_command Prompt" c] by auto
  from find_map_Some[OF a] obtain m where m: "m \<in> set ?ms" "heuristics_command Prompt m = Some a" by blast
  have "m = HeuristicsRuleMatch a Prompt" using m(2) by (cases m) (auto split: if_splits)
  with m(1) have "a \<in> pending env p req"
    unfolding request_matches using deciding_prefix_match by (fastforce simp: pending_def)
  with a show ?thesis
    using no_prompting_rule[OF assms(2)] by (simp add: try_derive_execpolicy_amendment_for_prompt_rules_def)
qed

lemma updated_policy_pending:
  "a \<in> pending env p req \<Longrightarrow> updated_policy (paths env) p a = Some (add_prefix_rule a Allow p)"
  by (simp add: pending_def updated_policy_def already_allowed_def check_multiple_decision decision_for_def)

lemma approve_step_pending:
  assumes "pending env p req \<noteq> {}" "only_allowing env p req" "[] \<notin> set (request_commands env req)"
    and "list_all (\<lambda>c. heuristics env req c \<noteq> Forbidden) (request_commands env req)"
    and "\<not> used_complex_parsing (commands_for_exec_policy (parsers env) (req_command req))"
    and "req_prefix_rule req = None" "prompt_is_rejected_by_policy (approval_policy req) False = None"
  shows "only_allowing env (approve_step env req p) req \<and> pending env (approve_step env req p) req \<subset> pending env p req"
proof -
  have dec: "decides_on env p req c = (if c \<in> pending env p req then Prompt else Allow)"
    if "c \<in> set (request_commands env req)" for c
    using decides_on_pending[OF assms(2) that] assms(4) that by (simp add: list.pred_set)
  have "eval_decision (request_evaluation env p req) = Prompt"
  proof (cases "eval_decision (request_evaluation env p req)")
    case Allow
    then show ?thesis using assms(1) request_all_Allow[of env p req] dec by (auto simp: pending_def)
  next
    case Forbidden
    then show ?thesis using request_some_Forbidden[of env p req] dec by (metis decision.distinct(3,5))
  qed
  from requirement_Prompt[OF this]
  obtain a reason where a: "a \<in> pending env p req"
    "create_exec_approval_requirement_for_command env p req = Some (NeedsApproval reason (Some a))"
    using prompt_amendment_pending[OF assms(1,2)] no_prompting_rule[OF assms(2)] assms(5-7)
    by (auto simp: derive_requested_execpolicy_amendment_from_prefix_rule_def)
  then have "a \<noteq> []" using assms(3) by (auto simp: pending_def)
  then obtain w ws p' where p': "a = w # ws" "add_prefix_rule (w # ws) Allow p = Inr p'"
    by (cases a) (auto simp: add_prefix_rule_def)
  have step: "approve_step env req p = p'"
    using a updated_policy_pending[OF a(1)] p' by (simp add: approve_step_def)
  have allow: "list_all (\<lambda>m. rule_decision m = Allow) (rules_on env p c)" if "c \<in> set (request_commands env req)" for c
    using assms(2) that by (simp add: list.pred_set)
  note add = deciding_add[OF p'(2) allow]
  have "only_allowing env p' req" using add(1) by (simp add: list.pred_set)
  moreover have "pending env p' req \<subseteq> pending env p req" using add(2) by (auto simp: pending_def)
  moreover have "a \<notin> pending env p' req" using add(3) a(1) p'(1) by (auto simp: pending_def)
  ultimately show ?thesis using a(1) step by blast
qed

lemma not_pending_Skip:
  assumes "pending env p req = {}" "only_allowing env p req"
    and "list_all (\<lambda>c. heuristics env req c \<noteq> Forbidden) (request_commands env req)"
  shows "\<exists>bypass a. create_exec_approval_requirement_for_command env p req = Some (Skip bypass a)"
proof -
  have "eval_decision (request_evaluation env p req) = Allow"
    unfolding request_all_Allow using decides_on_pending[OF assms(2)] assms(1,3) by (simp add: list.pred_set)
  then show ?thesis using requirement_Skip by blast
qed

text \<open>
  C14. Approvals converge, for a request of this kind: the line is read as plain commands (no
  here-document or other complex parsing), none of them empty; no rule prompts for or forbids one
  of them; the heuristics forbid none; the request proposes no prefix rule of its own; and the
  user takes questions that come from the sandbox. If each time the user approves the proposed
  amendment, then after at most as many approvals as the line has commands it runs without a
  question.
\<close>

theorem approvals_reach_skip:
  assumes "list_all (\<lambda>c. list_all (\<lambda>m. rule_decision m = Allow) (rules_on env p c)) (request_commands env req)"
    and "list_all (\<lambda>c. heuristics env req c \<noteq> Forbidden) (request_commands env req)" "[] \<notin> set (request_commands env req)"
    and "\<not> used_complex_parsing (commands_for_exec_policy (parsers env) (req_command req))"
    and "req_prefix_rule req = None" "takes_question (approval_policy req) False"
  shows "\<exists>n \<le> length (request_commands env req). \<exists>bypass a.
    create_exec_approval_requirement_for_command env ((approve_step env req ^^ n) p) req = Some (Skip bypass a)"
proof -
  have fin: "finite (pending env q req)" for q by (rule finite_subset[of _ "set (request_commands env req)"]) (auto simp: pending_def)
  have "\<exists>n \<le> card (pending env p req). \<exists>bypass a.
      create_exec_approval_requirement_for_command env ((approve_step env req ^^ n) p) req = Some (Skip bypass a)"
    using assms(1)
  proof (induction "card (pending env p req)" arbitrary: p rule: less_induct)
    case less
    show ?case
    proof (cases "pending env p req = {}")
      case True
      then show ?thesis using not_pending_Skip[OF True less.prems assms(2)] by (intro exI[of _ 0]) simp
    next
      case False
      let ?p = "approve_step env req p"
      have step: "only_allowing env ?p req" "pending env ?p req \<subset> pending env p req"
        using approve_step_pending[OF False less.prems assms(3,2,4,5) rejected_iff[THEN iffD2, OF assms(6)]] by blast+
      then have small: "card (pending env ?p req) < card (pending env p req)" using psubset_card_mono[OF fin] by blast
      from less.hyps[OF this step(1)] obtain n where n: "n \<le> card (pending env ?p req)" "\<exists>bypass a.
          create_exec_approval_requirement_for_command env ((approve_step env req ^^ n) ?p) req = Some (Skip bypass a)" by blast
      then have "\<exists>bypass a. create_exec_approval_requirement_for_command env ((approve_step env req ^^ Suc n) p) req
          = Some (Skip bypass a)" by (simp only: funpow_Suc_right comp_apply)
      moreover have "Suc n \<le> card (pending env p req)" using n(1) small by linarith
      ultimately show ?thesis by blast
    qed
  qed
  moreover have "card (pending env p req) \<le> length (request_commands env req)"
    using card_mono[of "set (request_commands env req)" "pending env p req"] card_length[of "request_commands env req"]
    by (auto simp: pending_def intro: order_trans)
  ultimately show ?thesis by (meson order_trans)
qed

theorem approvals_reach_skip_witness:
  "\<exists>n \<le> 1. \<exists>bypass a. create_exec_approval_requirement_for_command sample_env
     ((approve_step sample_env (sample_request [lit ''rm'', lit ''-rf''] OnRequest) ^^ n) policy_empty)
     (sample_request [lit ''rm'', lit ''-rf''] OnRequest) = Some (Skip bypass a)"
proof -
  let ?req = "sample_request [lit ''rm'', lit ''-rf''] OnRequest"
  have "rules_on sample_env policy_empty [lit ''rm'', lit ''-rf''] = []" by code_simp
  moreover have "\<not> used_complex_parsing (commands_for_exec_policy (parsers sample_env) (req_command ?req))"
    "heuristics sample_env ?req [lit ''rm'', lit ''-rf''] \<noteq> Forbidden" by code_simp+
  moreover have "req_prefix_rule ?req = None" "takes_question (approval_policy ?req) False"
    by (simp_all add: sample_request_def takes_question_def)
  ultimately show ?thesis
    using approvals_reach_skip[of sample_env policy_empty ?req] sample_commands[of OnRequest] by simp
qed

end
