(* ===== verification/Network_Addresses.thy ===== *)
theory Network_Addresses
  imports Rust_Prelude "HOL-Library.Word"
begin

text \<open>
  The addresses of \<open>network-proxy/src/policy.rs\<close>: the literals \<open>std::net\<close> parses, and
  which addresses are not public. Addresses are machine words; the checks of the code mix
  octets, masks and library predicates, and \<open>non_public_addresses\<close> shows that together they
  are the ranges of \<open>spec_non_public\<close>.
\<close>

unbundle bit_operations_syntax

section \<open>Address literals\<close>

datatype ip_addr = V4 "32 word" | V6 "128 word"

definition to_digit :: "nat \<Rightarrow> rchar \<Rightarrow> nat option" where
  "to_digit radix c =
     (let d = (if 48 \<le> c \<and> c \<le> 57 then c - 48
               else if 97 \<le> c \<and> c \<le> 122 then c - 87
               else if 65 \<le> c \<and> c \<le> 90 then c - 55 else radix)
      in if d < radix then Some d else None)"

fun read_digits :: "nat \<Rightarrow> rstr \<Rightarrow> nat list \<times> rstr" where
  "read_digits radix [] = ([], [])"
| "read_digits radix (c # s) =
     (case to_digit radix c of
        None \<Rightarrow> ([], c # s)
      | Some d \<Rightarrow> (let (ds, rest) = read_digits radix s in (d # ds, rest)))"

definition from_digits :: "nat \<Rightarrow> nat list \<Rightarrow> nat" where
  "from_digits radix ds = foldl (\<lambda>n d. n * radix + d) 0 ds"

definition read_number :: "nat \<Rightarrow> nat \<Rightarrow> bool \<Rightarrow> nat \<Rightarrow> rstr \<Rightarrow> (nat \<times> rstr) option" where
  "read_number radix max_digits allow_zero_prefix max_value s =
     (let (ds, rest) = read_digits radix s in
      if length ds > max_digits \<or> ds = [] then None
      else if \<not> allow_zero_prefix \<and> hd ds = 0 \<and> length ds > 1 then None
      else if from_digits radix ds \<le> max_value then Some (from_digits radix ds, rest)
      else None)"

definition read_separator :: "rchar \<Rightarrow> nat \<Rightarrow> (rstr \<Rightarrow> 'a option) \<Rightarrow> rstr \<Rightarrow> 'a option" where
  "read_separator sep index inner s =
     (if index > 0 then Option.bind (strip_prefix [sep] s) inner else inner s)"

fun read_octets :: "nat \<Rightarrow> nat \<Rightarrow> rstr \<Rightarrow> (nat list \<times> rstr) option" where
  "read_octets i 0 s = Some ([], s)"
| "read_octets i (Suc k) s =
     (case read_separator 46 i (read_number 10 3 False 255) s of
        None \<Rightarrow> None
      | Some (n, rest) \<Rightarrow> map_option (\<lambda>(ns, r). (n # ns, r)) (read_octets (Suc i) k rest))"

definition read_ipv4_addr :: "rstr \<Rightarrow> (nat \<times> rstr) option" where
  "read_ipv4_addr s = map_option (\<lambda>(ns, r). (from_digits 256 ns, r)) (read_octets 0 4 s)"

text \<open>
  \<open>read_groups\<close> reads up to the given number of groups and reports whether the last two came
  from an embedded IPv4 address.
\<close>

fun read_groups :: "nat \<Rightarrow> nat \<Rightarrow> rstr \<Rightarrow> nat list \<times> bool \<times> rstr" where
  "read_groups i 0 s = ([], False, s)"
| "read_groups i (Suc k) s =
     (case (if 0 < k then read_separator 58 i read_ipv4_addr s else None) of
        Some (n, rest) \<Rightarrow> ([n div 65536, n mod 65536], True, rest)
      | None \<Rightarrow>
          (case read_separator 58 i (read_number 16 4 True 65535) s of
             None \<Rightarrow> ([], False, s)
           | Some (g, rest) \<Rightarrow>
               (let (gs, embedded, r) = read_groups (Suc i) k rest in (g # gs, embedded, r))))"

definition read_ipv6_addr :: "rstr \<Rightarrow> (nat \<times> rstr) option" where
  "read_ipv6_addr s =
     (let (front, embedded, rest) = read_groups 0 8 s in
      if length front = 8 then Some (from_digits 65536 front, rest)
      else if embedded then None
      else (case strip_prefix [58, 58] rest of
              None \<Rightarrow> None
            | Some rest' \<Rightarrow>
                (let (back, _, r) = read_groups 0 (7 - length front) rest' in
                 Some (from_digits 65536
                         (front @ replicate (8 - length front - length back) 0 @ back), r))))"

definition parse_ip :: "rstr \<Rightarrow> ip_addr option" where
  "parse_ip s =
     (case read_ipv4_addr s of
        Some (n, rest) \<Rightarrow> if rest = [] then Some (V4 (word_of_nat n)) else None
      | None \<Rightarrow>
          (case read_ipv6_addr s of
             Some (n, rest) \<Rightarrow> if rest = [] then Some (V6 (word_of_nat n)) else None
           | None \<Rightarrow> None))"

section \<open>Public and other addresses\<close>

definition octet :: "nat \<Rightarrow> 32 word \<Rightarrow> nat" where
  "octet i ip = unat (drop_bit (24 - 8 * i) ip AND 255)"

definition ipv4 :: "nat \<Rightarrow> nat \<Rightarrow> nat \<Rightarrow> nat \<Rightarrow> 32 word" where
  "ipv4 a b c d = word_of_nat (from_digits 256 [a, b, c, d])"

definition ipv4_is_loopback :: "32 word \<Rightarrow> bool" where
  "ipv4_is_loopback ip \<longleftrightarrow> octet 0 ip = 127"

definition ipv4_is_private :: "32 word \<Rightarrow> bool" where
  "ipv4_is_private ip \<longleftrightarrow>
     octet 0 ip = 10 \<or>
     (octet 0 ip = 172 \<and> 16 \<le> octet 1 ip \<and> octet 1 ip \<le> 31) \<or>
     (octet 0 ip = 192 \<and> octet 1 ip = 168)"

definition ipv4_is_link_local :: "32 word \<Rightarrow> bool" where
  "ipv4_is_link_local ip \<longleftrightarrow> octet 0 ip = 169 \<and> octet 1 ip = 254"

definition ipv4_is_multicast :: "32 word \<Rightarrow> bool" where
  "ipv4_is_multicast ip \<longleftrightarrow> 224 \<le> octet 0 ip \<and> octet 0 ip \<le> 239"

definition ipv4_in_cidr :: "32 word \<Rightarrow> 32 word \<Rightarrow> nat \<Rightarrow> bool" where
  "ipv4_in_cidr ip base bits \<longleftrightarrow>
     (let netmask = (if bits = 0 then 0 else push_bit (32 - bits) (- 1))
      in ip AND netmask = base AND netmask)"

definition is_non_public_ipv4 :: "32 word \<Rightarrow> bool" where
  "is_non_public_ipv4 ip \<longleftrightarrow>
     ipv4_is_loopback ip \<or> ipv4_is_private ip \<or> ipv4_is_link_local ip \<or> ip = 0 \<or>
     ipv4_is_multicast ip \<or> ip = - 1 \<or>
     ipv4_in_cidr ip (ipv4 0 0 0 0) 8 \<or>
     ipv4_in_cidr ip (ipv4 100 64 0 0) 10 \<or>
     ipv4_in_cidr ip (ipv4 192 0 0 0) 24 \<or>
     ipv4_in_cidr ip (ipv4 192 0 2 0) 24 \<or>
     ipv4_in_cidr ip (ipv4 198 18 0 0) 15 \<or>
     ipv4_in_cidr ip (ipv4 198 51 100 0) 24 \<or>
     ipv4_in_cidr ip (ipv4 203 0 113 0) 24 \<or>
     ipv4_in_cidr ip (ipv4 240 0 0 0) 4"

definition segment :: "nat \<Rightarrow> 128 word \<Rightarrow> 16 word" where
  "segment i ip = ucast (drop_bit (112 - 16 * i) ip)"

text \<open>\<open>Ipv6Addr::to_ipv4\<close>: IPv4-compatible and IPv4-mapped addresses.\<close>

definition to_ipv4 :: "128 word \<Rightarrow> 32 word option" where
  "to_ipv4 ip =
     (if segment 0 ip = 0 \<and> segment 1 ip = 0 \<and> segment 2 ip = 0 \<and> segment 3 ip = 0 \<and>
         segment 4 ip = 0 \<and> (segment 5 ip = 0 \<or> segment 5 ip = 65535)
      then Some (ucast ip) else None)"

definition ipv6_is_multicast :: "128 word \<Rightarrow> bool" where
  "ipv6_is_multicast ip \<longleftrightarrow> drop_bit 8 (segment 0 ip) = 255"

definition ipv6_is_unique_local :: "128 word \<Rightarrow> bool" where
  "ipv6_is_unique_local ip \<longleftrightarrow> segment 0 ip AND 65024 = 64512"

definition ipv6_is_unicast_link_local :: "128 word \<Rightarrow> bool" where
  "ipv6_is_unicast_link_local ip \<longleftrightarrow> segment 0 ip AND 65472 = 65152"

definition is_non_public_ipv6 :: "128 word \<Rightarrow> bool" where
  "is_non_public_ipv6 ip \<longleftrightarrow>
     (case to_ipv4 ip of
        Some v4 \<Rightarrow> is_non_public_ipv4 v4 \<or> ip = 1
      | None \<Rightarrow>
          ip = 1 \<or> ip = 0 \<or> ipv6_is_multicast ip \<or> ipv6_is_unique_local ip \<or>
          ipv6_is_unicast_link_local ip)"

fun is_non_public_ip :: "ip_addr \<Rightarrow> bool" where
  "is_non_public_ip (V4 ip) = is_non_public_ipv4 ip"
| "is_non_public_ip (V6 ip) = is_non_public_ipv6 ip"

fun ip_is_loopback :: "ip_addr \<Rightarrow> bool" where
  "ip_is_loopback (V4 ip) = ipv4_is_loopback ip"
| "ip_is_loopback (V6 ip) = (ip = 1)"

section \<open>Lemmas on addresses\<close>

lemma masked_eq_iff:
  fixes a b :: "'a::len word"
  shows "a AND push_bit k (- 1) = b AND push_bit k (- 1) \<longleftrightarrow> unat a div 2 ^ k = unat b div 2 ^ k"
proof -
  have "a AND push_bit k (- 1) = b AND push_bit k (- 1) \<longleftrightarrow> drop_bit k a = drop_bit k b"
    (is "?L = ?R")
  proof
    assume l: ?L
    show ?R
    proof (rule bit_eqI)
      fix n
      have "bit (a AND push_bit k (- 1)) (k + n) = bit (b AND push_bit k (- 1)) (k + n)"
        by (simp only: l)
      then show "bit (drop_bit k a) n = bit (drop_bit k b) n"
        by (auto simp: bit_simps dest: bit_imp_le_length)
    qed
  next
    assume r: ?R
    show ?L
    proof (rule bit_eqI)
      fix n
      have "bit (drop_bit k a) (n - k) = bit (drop_bit k b) (n - k)" by (simp only: r)
      then show "bit (a AND push_bit k (- 1)) n = bit (b AND push_bit k (- 1)) n"
        by (auto simp: bit_simps)
    qed
  qed
  also have "\<dots> \<longleftrightarrow> unat (drop_bit k a) = unat (drop_bit k b)"
    by (simp add: word_unat_eq_iff)
  also have "\<dots> \<longleftrightarrow> unat a div 2 ^ k = unat b div 2 ^ k"
    unfolding unat_drop_bit_eq by (simp add: drop_bit_eq_div)
  finally show ?thesis .
qed

lemma octet_eq: "octet i ip = unat ip div 2 ^ (24 - 8 * i) mod 256"
proof -
  have "drop_bit (24 - 8 * i) ip AND 255 = take_bit 8 (drop_bit (24 - 8 * i) ip)"
    by (simp add: take_bit_eq_mask mask_eq_exp_minus_1)
  then show ?thesis
    by (simp only: octet_def unsigned_take_bit_eq unat_drop_bit_eq) (simp add: drop_bit_eq_div take_bit_eq_mod)
qed

lemma unat_ipv4_lt: "unat (ip :: 32 word) < 4294967296"
  using unsigned_less[of ip] by simp

lemma div_eq_range: "0 < (c::nat) \<Longrightarrow> n div c = k \<longleftrightarrow> k * c \<le> n \<and> n < k * c + c"
  by (metis add.commute div_nat_eqI div_times_less_eq_dividend dividend_less_div_times mult.commute mult_Suc)

lemma ipv4_in_cidr_eq:
  assumes "0 < bits" "bits \<le> 32"
  shows "ipv4_in_cidr ip base bits \<longleftrightarrow>
    unat base div 2 ^ (32 - bits) * 2 ^ (32 - bits) \<le> unat ip \<and>
    unat ip < unat base div 2 ^ (32 - bits) * 2 ^ (32 - bits) + 2 ^ (32 - bits)"
  using assms unfolding ipv4_in_cidr_def Let_def masked_eq_iff by (simp add: masked_eq_iff[unfolded push_bit_minus_one_eq_not_mask] div_eq_range)

abbreviation dotted :: "nat \<Rightarrow> nat \<Rightarrow> nat \<Rightarrow> nat \<Rightarrow> nat" where
  "dotted a b c d \<equiv> from_digits 256 [a, b, c, d]"

definition non_public_ranges :: "(nat \<times> nat) list" where
  "non_public_ranges =
     [(dotted 0 0 0 0, dotted 1 0 0 0), (dotted 10 0 0 0, dotted 11 0 0 0), (dotted 100 64 0 0, dotted 100 128 0 0),
      (dotted 127 0 0 0, dotted 128 0 0 0), (dotted 169 254 0 0, dotted 169 255 0 0), (dotted 172 16 0 0, dotted 172 32 0 0),
      (dotted 192 0 0 0, dotted 192 0 1 0), (dotted 192 0 2 0, dotted 192 0 3 0), (dotted 192 168 0 0, dotted 192 169 0 0),
      (dotted 198 18 0 0, dotted 198 20 0 0), (dotted 198 51 100 0, dotted 198 51 101 0),
      (dotted 203 0 113 0, dotted 203 0 114 0), (dotted 224 0 0 0, dotted 256 0 0 0)]"

definition in_ranges :: "(nat \<times> nat) list \<Rightarrow> nat \<Rightarrow> bool" where
  "in_ranges rs n \<longleftrightarrow> list_ex (\<lambda>(lo, hi). lo \<le> n \<and> n < hi) rs"

lemma unat_ipv4_const: "unat (ipv4 a b c d) = dotted a b c d mod 4294967296"
  by (simp add: ipv4_def unat_of_nat)

lemma first_octets:
  "octet 0 ip = unat ip div 16777216" "octet 1 ip = unat ip div 65536 mod 256"
  "octet (Suc 0) ip = unat ip div 65536 mod 256"
  using unat_ipv4_lt[of ip] by (simp_all add: octet_eq)

lemma octet_ranges:
  "octet 0 ip = k \<longleftrightarrow> k * 16777216 \<le> unat ip \<and> unat ip < k * 16777216 + 16777216"
  "k \<le> octet 0 ip \<longleftrightarrow> k * 16777216 \<le> unat ip"
  "octet 0 ip \<le> k \<longleftrightarrow> unat ip < k * 16777216 + 16777216"
  by (simp_all add: first_octets div_eq_range less_eq_div_iff_mult_less_eq) 
     (metis add.commute div_less_iff_less_mult less_Suc_eq_le mult_Suc zero_less_numeral)

lemma two_digits:
  fixes x y n a l h :: nat
  assumes "16777216 * x + 65536 * y \<le> n" "n < 16777216 * x + 65536 * y + 65536" "y < 256" "l \<le> h" "h < 256"
  shows "x = a \<and> l \<le> y \<and> y \<le> h \<longleftrightarrow> a * 16777216 + l * 65536 \<le> n \<and> n < a * 16777216 + h * 65536 + 65536"
proof (intro iffI conjI)
  assume n: "a * 16777216 + l * 65536 \<le> n \<and> n < a * 16777216 + h * 65536 + 65536"
  then have "a < Suc x" "x < Suc a" using assms by linarith+
  then show xa: "x = a" by simp
  from n assms show "l \<le> y" "y \<le> h" unfolding xa by linarith+
qed (use assms in auto)

lemma second_octet_ranges:
  assumes "l \<le> h" "h < 256"
  shows "octet 0 ip = a \<and> l \<le> octet 1 ip \<and> octet 1 ip \<le> h \<longleftrightarrow>
    a * 16777216 + l * 65536 \<le> unat ip \<and> unat ip < a * 16777216 + h * 65536 + 65536"
proof -
  have "unat ip div 65536 = 256 * octet 0 ip + octet 1 ip"
    using div_mult2_eq[of "unat ip" 65536 256] by (simp add: first_octets)
  then have n: "65536 * (256 * octet 0 ip + octet 1 ip) \<le> unat ip"
      "unat ip < 65536 * (256 * octet 0 ip + octet 1 ip) + 65536"
    using div_times_less_eq_dividend[of "unat ip" 65536] dividend_less_div_times[of 65536 "unat ip"]
    by (simp_all add: algebra_simps)
  have "octet 1 ip < 256" by (simp add: first_octets)
  with n assms show ?thesis by (intro two_digits) simp_all
qed

lemma cidr_ranges:
  "ipv4_in_cidr ip (ipv4 0 0 0 0) 8 \<longleftrightarrow> unat ip < 16777216"
  "ipv4_in_cidr ip (ipv4 100 64 0 0) 10 \<longleftrightarrow> 1681915904 \<le> unat ip \<and> unat ip < 1686110208"
  "ipv4_in_cidr ip (ipv4 192 0 0 0) 24 \<longleftrightarrow> 3221225472 \<le> unat ip \<and> unat ip < 3221225728"
  "ipv4_in_cidr ip (ipv4 192 0 2 0) 24 \<longleftrightarrow> 3221225984 \<le> unat ip \<and> unat ip < 3221226240"
  "ipv4_in_cidr ip (ipv4 198 18 0 0) 15 \<longleftrightarrow> 3323068416 \<le> unat ip \<and> unat ip < 3323199488"
  "ipv4_in_cidr ip (ipv4 198 51 100 0) 24 \<longleftrightarrow> 3325256704 \<le> unat ip \<and> unat ip < 3325256960"
  "ipv4_in_cidr ip (ipv4 203 0 113 0) 24 \<longleftrightarrow> 3405803776 \<le> unat ip \<and> unat ip < 3405804032"
  "ipv4_in_cidr ip (ipv4 240 0 0 0) 4 \<longleftrightarrow> 4026531840 \<le> unat ip \<and> unat ip < 4294967296"
  by (simp_all add: ipv4_in_cidr_eq unat_ipv4_const from_digits_def)

lemma class_ranges:
  "ipv4_is_loopback ip \<longleftrightarrow> 2130706432 \<le> unat ip \<and> unat ip < 2147483648"
  "ipv4_is_link_local ip \<longleftrightarrow> 2851995648 \<le> unat ip \<and> unat ip < 2852061184"
  "ipv4_is_private ip \<longleftrightarrow>
     167772160 \<le> unat ip \<and> unat ip < 184549376 \<or> 2886729728 \<le> unat ip \<and> unat ip < 2887778304 \<or>
     3232235520 \<le> unat ip \<and> unat ip < 3232301056"
  "ipv4_is_multicast ip \<longleftrightarrow> 3758096384 \<le> unat ip \<and> unat ip < 4026531840"
proof -
  have o: "octet 1 ip = k \<longleftrightarrow> k \<le> octet 1 ip \<and> octet 1 ip \<le> k" for k by auto
  show "ipv4_is_loopback ip \<longleftrightarrow> 2130706432 \<le> unat ip \<and> unat ip < 2147483648"
    by (simp add: ipv4_is_loopback_def octet_ranges)
  show "ipv4_is_multicast ip \<longleftrightarrow> 3758096384 \<le> unat ip \<and> unat ip < 4026531840"
    by (simp add: ipv4_is_multicast_def octet_ranges)
  show "ipv4_is_link_local ip \<longleftrightarrow> 2851995648 \<le> unat ip \<and> unat ip < 2852061184"
    unfolding ipv4_is_link_local_def o using second_octet_ranges[of 254 254 ip 169] by simp
  have "octet 0 ip = 10 \<longleftrightarrow> 167772160 \<le> unat ip \<and> unat ip < 184549376"
    by (simp add: octet_ranges)
  moreover have "octet 0 ip = 172 \<and> 16 \<le> octet 1 ip \<and> octet 1 ip \<le> 31 \<longleftrightarrow>
      2886729728 \<le> unat ip \<and> unat ip < 2887778304"
    using second_octet_ranges[of 16 31 ip 172] by simp
  moreover have "octet 0 ip = 192 \<and> octet 1 ip = 168 \<longleftrightarrow> 3232235520 \<le> unat ip \<and> unat ip < 3232301056"
    unfolding o using second_octet_ranges[of 168 168 ip 192] by simp
  ultimately show "ipv4_is_private ip \<longleftrightarrow>
     167772160 \<le> unat ip \<and> unat ip < 184549376 \<or> 2886729728 \<le> unat ip \<and> unat ip < 2887778304 \<or>
     3232235520 \<le> unat ip \<and> unat ip < 3232301056"
    unfolding ipv4_is_private_def by blast
qed

lemma extreme_addresses:
  fixes ip :: "32 word"
  shows "ip = 0 \<longleftrightarrow> unat ip = 0" "ip = - 1 \<longleftrightarrow> unat ip = 4294967295"
  by (simp_all add: word_unat_eq_iff unsigned_minus_1_eq_mask mask_eq_exp_minus_1)

lemma non_public_ipv4_ranges: "is_non_public_ipv4 ip \<longleftrightarrow> in_ranges non_public_ranges (unat ip)"
proof -
  define n where "n = unat ip"
  have top: "n < 4294967296" using unat_ipv4_lt n_def by simp
  have r: "in_ranges non_public_ranges n \<longleftrightarrow>
    n < 16777216 \<or> 167772160 \<le> n \<and> n < 184549376 \<or> 1681915904 \<le> n \<and> n < 1686110208 \<or>
    2130706432 \<le> n \<and> n < 2147483648 \<or> 2851995648 \<le> n \<and> n < 2852061184 \<or>
    2886729728 \<le> n \<and> n < 2887778304 \<or> 3221225472 \<le> n \<and> n < 3221225728 \<or>
    3221225984 \<le> n \<and> n < 3221226240 \<or> 3232235520 \<le> n \<and> n < 3232301056 \<or>
    3323068416 \<le> n \<and> n < 3323199488 \<or> 3325256704 \<le> n \<and> n < 3325256960 \<or>
    3405803776 \<le> n \<and> n < 3405804032 \<or> 3758096384 \<le> n \<and> n < 4294967296"
    by (simp add: in_ranges_def non_public_ranges_def from_digits_def)
  have "3758096384 \<le> n \<and> n < 4294967296 \<longleftrightarrow>
      3758096384 \<le> n \<and> n < 4026531840 \<or> n = 4294967295 \<or> 4026531840 \<le> n \<and> n < 4294967296"
    "n < 16777216 \<longleftrightarrow> n = 0 \<or> n < 16777216" by auto
  then show ?thesis
    unfolding is_non_public_ipv4_def class_ranges cidr_ranges extreme_addresses n_def[symmetric] r
    by argo
qed

lemma unat_segment: "unat (segment i ip) = unat ip div 2 ^ (112 - 16 * i) mod 65536"
  by (simp only: segment_def unsigned_ucast_eq unat_drop_bit_eq)
     (simp add: take_bit_eq_mod drop_bit_eq_div)

lemma unat_ipv6_lt: "unat (ip :: 128 word) < 2 ^ 128"
  using unsigned_less[of ip] by simp

lemma first_segment: "unat (segment 0 ip) = unat ip div 2 ^ 112"
proof -
  have "unat ip div 2 ^ 112 < 65536"
    using unat_ipv6_lt[of ip] by (intro less_mult_imp_div_less) simp
  then show ?thesis by (simp add: unat_segment)
qed

lemma div_step: "(n::nat) div 2 ^ k = 0 \<longleftrightarrow> n div 2 ^ (k + 16) = 0 \<and> n div 2 ^ k mod 65536 = 0"
proof -
  have "n div 2 ^ (k + 16) = n div 2 ^ k div 65536" by (simp add: power_add div_mult2_eq)
  then show ?thesis by (metis div_mult_mod_eq mod_0 div_0 add_0 mult_0)
qed

lemma segment_zero: "segment i ip = 0 \<longleftrightarrow> unat ip div 2 ^ (112 - 16 * i) mod 65536 = 0"
  by (simp only: word_unat_eq_iff unat_segment unsigned_0)

lemma high_segments_zero:
  "segment 0 ip = 0 \<and> segment 1 ip = 0 \<and> segment 2 ip = 0 \<and> segment 3 ip = 0 \<and> segment 4 ip = 0 \<longleftrightarrow>
   unat ip div 2 ^ 48 = 0"
proof -
  let ?n = "unat ip"
  have "?n div 2 ^ 48 = 0 \<longleftrightarrow> ?n div 2 ^ 64 = 0 \<and> segment 4 ip = 0"
    using div_step[of ?n 48] segment_zero[of 4 ip] by simp
  moreover have "?n div 2 ^ 64 = 0 \<longleftrightarrow> ?n div 2 ^ 80 = 0 \<and> segment 3 ip = 0"
    using div_step[of ?n 64] segment_zero[of 3 ip] by simp
  moreover have "?n div 2 ^ 80 = 0 \<longleftrightarrow> ?n div 2 ^ 96 = 0 \<and> segment 2 ip = 0"
    using div_step[of ?n 80] segment_zero[of 2 ip] by simp
  moreover have "?n div 2 ^ 96 = 0 \<longleftrightarrow> ?n div 2 ^ 112 = 0 \<and> segment 1 ip = 0"
    using div_step[of ?n 96] segment_zero[of 1 ip] by simp
  moreover have "?n div 2 ^ 112 = 0 \<longleftrightarrow> segment 0 ip = 0"
    by (simp only: word_unat_eq_iff first_segment unsigned_0)
  ultimately show ?thesis by blast
qed

lemma to_ipv4_eq:
  "to_ipv4 ip =
     (if unat ip div 2 ^ 32 = 0 \<or> unat ip div 2 ^ 32 = 65535 then Some (ucast ip) else None)"
proof -
  define x where "x = unat ip div 2 ^ 32"
  have h: "unat ip div 2 ^ 48 = x div 65536"
    by (simp add: x_def flip: div_mult2_eq)
  have five: "segment 5 ip = k \<longleftrightarrow> x mod 65536 = unat k" for k
    by (simp add: word_unat_eq_iff unat_segment x_def)
  have "x = k \<longleftrightarrow> x div 65536 = 0 \<and> x mod 65536 = k" if "k < 65536" for k
    using that by (auto simp: div_eq_0_iff)
  from this[of 0] this[of 65535] show ?thesis
    unfolding to_ipv4_def x_def[symmetric] five conj_assoc[symmetric]
    using high_segments_zero[of ip] unfolding h by auto
qed

definition spec_non_public :: "ip_addr \<Rightarrow> bool" where
  "spec_non_public ip =
     (case ip of
        V4 w \<Rightarrow> in_ranges non_public_ranges (unat w)
      | V6 w \<Rightarrow>
          unat w div 2 ^ 32 \<in> {0, 65535} \<and> in_ranges non_public_ranges (unat w mod 2 ^ 32) \<or>
          unat w div 2 ^ 112 \<in> {64512 ..< 65024} \<union> {65152 ..< 65216} \<union> {65280 ..< 65536})"

lemma ipv6_class_ranges:
  "ipv6_is_unique_local ip \<longleftrightarrow> unat ip div 2 ^ 112 \<in> {64512 ..< 65024}"
  "ipv6_is_unicast_link_local ip \<longleftrightarrow> unat ip div 2 ^ 112 \<in> {65152 ..< 65216}"
  "ipv6_is_multicast ip \<longleftrightarrow> unat ip div 2 ^ 112 \<in> {65280 ..< 65536}"
proof -
  let ?s = "unat (segment 0 ip)"
  have "(65024 :: 16 word) = push_bit 9 (- 1)" "(64512 :: 16 word) = 64512 AND push_bit 9 (- 1)"
     "(65472 :: 16 word) = push_bit 6 (- 1)" "(65152 :: 16 word) = 65152 AND push_bit 6 (- 1)"
    by code_simp+
  then have "ipv6_is_unique_local ip \<longleftrightarrow> ?s div 2 ^ 9 = 126"
    "ipv6_is_unicast_link_local ip \<longleftrightarrow> ?s div 2 ^ 6 = 1018"
    using masked_eq_iff[of "segment 0 ip" 9 64512] masked_eq_iff[of "segment 0 ip" 6 65152]
    by (simp_all add: ipv6_is_unique_local_def ipv6_is_unicast_link_local_def)
  moreover have "ipv6_is_multicast ip \<longleftrightarrow> ?s div 2 ^ 8 = 255"
    unfolding ipv6_is_multicast_def word_unat_eq_iff unat_drop_bit_eq by (simp add: drop_bit_eq_div)
  ultimately show
  "ipv6_is_unique_local ip \<longleftrightarrow> unat ip div 2 ^ 112 \<in> {64512 ..< 65024}"
  "ipv6_is_unicast_link_local ip \<longleftrightarrow> unat ip div 2 ^ 112 \<in> {65152 ..< 65216}"
  "ipv6_is_multicast ip \<longleftrightarrow> unat ip div 2 ^ 112 \<in> {65280 ..< 65536}"
    unfolding first_segment atLeastLessThan_iff by (simp_all add: div_eq_range)
qed

lemma low_word: "unat (ucast ip :: 32 word) = unat (ip :: 128 word) mod 2 ^ 32"
  by (simp only: unsigned_ucast_eq) (simp add: take_bit_eq_mod)

lemma high_not_mapped:
  assumes "unat ip div 2 ^ 32 \<in> {0, 65535}"
  shows "unat ip div 2 ^ 112 = 0"
proof -
  have "unat ip div 2 ^ 112 = unat ip div 2 ^ 32 div 2 ^ 80" by (simp flip: div_mult2_eq)
  with assms show ?thesis by auto
qed

lemma is_non_public_spec: "is_non_public_ip ip = spec_non_public ip"
proof (cases ip)
  case (V4 w)
  then show ?thesis by (simp add: spec_non_public_def non_public_ipv4_ranges)
next
  case (V6 w)
  let ?n = "unat w"
  show ?thesis
  proof (cases "?n div 2 ^ 32 \<in> {0, 65535}")
    case True
    then have four: "to_ipv4 w = Some (ucast w)" by (simp only: to_ipv4_eq) auto
    have "in_ranges non_public_ranges (1 mod 2 ^ 32)"
      by (simp add: in_ranges_def non_public_ranges_def from_digits_def)
    then have "w = 1 \<Longrightarrow> in_ranges non_public_ranges (?n mod 2 ^ 32)" by simp
    then have "is_non_public_ipv6 w \<longleftrightarrow> in_ranges non_public_ranges (?n mod 2 ^ 32)"
      unfolding is_non_public_ipv6_def four by (simp only: option.case non_public_ipv4_ranges low_word) blast
    then show ?thesis
      unfolding V6 spec_non_public_def using True high_not_mapped[OF True] by simp
  next
    case False
    then have four: "to_ipv4 w = None" by (simp only: to_ipv4_eq) auto
    have "w \<noteq> 0" "w \<noteq> 1" using False by auto
    with False V6 four show ?thesis
      by (simp add: spec_non_public_def is_non_public_ipv6_def ipv6_class_ranges del: atLeastLessThan_iff) blast
  qed
qed

text \<open>
  C27. The addresses the proxy takes for local are exactly these: the IPv4 ranges of
  \<open>non_public_ranges\<close>, the IPv4-compatible and IPv4-mapped IPv6 addresses of those ranges,
  and the IPv6 blocks \<open>fc00::/7\<close>, \<open>fe80::/10\<close> and \<open>ff00::/8\<close>. The comment in the code speaks of
  everything that is not globally routable; the documentation prefix \<open>2001:db8::/32\<close> and the former
  site-local prefix \<open>fec0::/10\<close> count as public, as their first addresses show.
\<close>

theorem non_public_addresses:
  "is_non_public_ip ip = spec_non_public ip
   \<and> \<not> is_non_public_ip (V6 0x20010DB8000000000000000000000001)
   \<and> \<not> is_non_public_ip (V6 0xFEC00000000000000000000000000001)"
proof -
  have "\<not> spec_non_public (V6 0x20010DB8000000000000000000000001)"
    "\<not> spec_non_public (V6 0xFEC00000000000000000000000000001)"
    by (simp_all add: spec_non_public_def)
  then show ?thesis by (simp add: is_non_public_spec)
qed

end
