(* ===== verification/Network_Hosts.thy ===== *)
theory Network_Hosts
  imports Network_Addresses
begin

text \<open>
  \<open>network-proxy/src/policy.rs\<close>: host names as the proxy reads them and the patterns of the
  domain lists. The globs of the crate \<open>globset\<close> and the host parser of the crate \<open>url\<close> are
  parameters.
\<close>

section \<open>Hosts\<close>

definition unscoped_ip_literal :: "rstr \<Rightarrow> rstr option" where
  "unscoped_ip_literal host =
     (case split_once_str [37] host of
        None \<Rightarrow> None
      | Some (ip, _) \<Rightarrow> if parse_ip ip = None then None else Some ip)"

fun scoped_literal :: "rstr list \<Rightarrow> rstr \<Rightarrow> rstr option" where
  "scoped_literal [] host = None"
| "scoped_literal (d # ds) host =
     (case split_once_str d host of
        Some (ip, scope) \<Rightarrow>
          if parse_ip ip \<noteq> None then Some (ip @ 37 # scope) else scoped_literal ds host
      | None \<Rightarrow> scoped_literal ds host)"

definition normalize_ip_literal :: "rstr \<Rightarrow> rstr option" where
  "normalize_ip_literal host =
     (if parse_ip host \<noteq> None then Some host else scoped_literal [lit ''%25'', lit ''%''] host)"

definition normalize_dns_host_or_ip_literal :: "rstr \<Rightarrow> rstr" where
  "normalize_dns_host_or_ip_literal host =
     (let h = trim_end_matches 46 (to_ascii_lowercase host)
      in case normalize_ip_literal h of Some ip \<Rightarrow> ip | None \<Rightarrow> h)"

definition normalize_host :: "rstr \<Rightarrow> rstr" where
  "normalize_host host =
     (let h = trim host in
      case (if starts_with [91] h then position (\<lambda>c. c = 93) h else None) of
        Some i \<Rightarrow> normalize_dns_host_or_ip_literal (drop 1 (take i h))
      | None \<Rightarrow>
          if count_list h 58 = 1 then normalize_dns_host_or_ip_literal (hd (split_on 58 h))
          else normalize_dns_host_or_ip_literal h)"

text \<open>\<open>Host::parse\<close>; a \<open>Host\<close> is its normalised text.\<close>

definition host_parse :: "rstr \<Rightarrow> rstr option" where
  "host_parse s = (let normalized = normalize_host s in if normalized = [] then None else Some normalized)"

definition host_no_scope :: "rstr \<Rightarrow> rstr" where
  "host_no_scope host = (case unscoped_ip_literal host of Some ip \<Rightarrow> ip | None \<Rightarrow> host)"

definition is_loopback_host :: "rstr \<Rightarrow> bool" where
  "is_loopback_host host \<longleftrightarrow>
     (let h = host_no_scope host in
      h = lit ''localhost'' \<or> (case parse_ip h of Some ip \<Rightarrow> ip_is_loopback ip | None \<Rightarrow> False))"

section \<open>Domain patterns\<close>

datatype domain_pattern =
    ApexAndSubdomains rstr
  | SubdomainsOnly rstr
  | ExactDomain rstr

definition normalize_pattern :: "rstr \<Rightarrow> rstr" where
  "normalize_pattern pattern =
     (let p = trim pattern in
      if p = lit ''*'' then lit ''*''
      else case strip_prefix (lit ''**.'') p of
        Some domain \<Rightarrow> lit ''**.'' @ normalize_host domain
      | None \<Rightarrow>
          (case strip_prefix (lit ''*.'') p of
             Some domain \<Rightarrow> lit ''*.'' @ normalize_host domain
           | None \<Rightarrow> normalize_host p))"

definition parse_domain :: "rstr \<Rightarrow> (rstr \<Rightarrow> domain_pattern) \<Rightarrow> domain_pattern" where
  "parse_domain domain build =
     (if trim domain = [] then ExactDomain [] else build (trim domain))"

definition domain_pattern_parse :: "rstr \<Rightarrow> domain_pattern" where
  "domain_pattern_parse input =
     (let s = trim input in
      if s = [] then ExactDomain []
      else case strip_prefix (lit ''**.'') s of
        Some domain \<Rightarrow> parse_domain domain ApexAndSubdomains
      | None \<Rightarrow>
          (case strip_prefix (lit ''*.'') s of
             Some domain \<Rightarrow> parse_domain domain SubdomainsOnly
           | None \<Rightarrow> ExactDomain s))"

text \<open>\<open>url_host\<close> is \<open>url::Host::parse\<close> followed by its display; an error is \<open>None\<close>.\<close>

definition parse_domain_for_constraints :: "(rstr \<Rightarrow> rstr option) \<Rightarrow> rstr \<Rightarrow> rstr" where
  "parse_domain_for_constraints url_host domain =
     (let d = trim_end_matches 46 (trim domain) in
      if d = [] then []
      else
        (let host = (if starts_with [91] d \<and> ends_with [93] d then drop 1 (butlast d) else d)
         in if 42 \<in> set host \<or> 63 \<in> set host \<or> 37 \<in> set host then d
            else (case url_host host of Some h \<Rightarrow> h | None \<Rightarrow> [])))"

definition parse_for_constraints :: "(rstr \<Rightarrow> rstr option) \<Rightarrow> rstr \<Rightarrow> domain_pattern" where
  "parse_for_constraints url_host input =
     (let s = trim input in
      if s = [] then ExactDomain []
      else case strip_prefix (lit ''**.'') s of
        Some domain \<Rightarrow> ApexAndSubdomains (parse_domain_for_constraints url_host domain)
      | None \<Rightarrow>
          (case strip_prefix (lit ''*.'') s of
             Some domain \<Rightarrow> SubdomainsOnly (parse_domain_for_constraints url_host domain)
           | None \<Rightarrow> ExactDomain (parse_domain_for_constraints url_host s)))"

definition expand_domain_pattern :: "rstr \<Rightarrow> rstr list" where
  "expand_domain_pattern pattern =
     (case domain_pattern_parse pattern of
        ExactDomain domain \<Rightarrow> [domain]
      | SubdomainsOnly domain \<Rightarrow> [lit ''?*.'' @ domain]
      | ApexAndSubdomains domain \<Rightarrow> [domain, lit ''?*.'' @ domain])"

definition is_global_wildcard_domain_pattern :: "rstr \<Rightarrow> bool" where
  "is_global_wildcard_domain_pattern pattern =
     list_ex (\<lambda>candidate. candidate = lit ''*'') (expand_domain_pattern (normalize_pattern pattern))"

definition normalize_domain :: "rstr \<Rightarrow> rstr" where
  "normalize_domain domain = to_ascii_lowercase (trim_end_matches 46 domain)"

definition domain_eq :: "rstr \<Rightarrow> rstr \<Rightarrow> bool" where
  "domain_eq l r \<longleftrightarrow> normalize_domain l = normalize_domain r"

definition is_subdomain_or_equal :: "rstr \<Rightarrow> rstr \<Rightarrow> bool" where
  "is_subdomain_or_equal child parent \<longleftrightarrow>
     normalize_domain child = normalize_domain parent \<or>
     ends_with (46 # normalize_domain parent) (normalize_domain child)"

definition is_strict_subdomain :: "rstr \<Rightarrow> rstr \<Rightarrow> bool" where
  "is_strict_subdomain child parent \<longleftrightarrow>
     normalize_domain child \<noteq> normalize_domain parent \<and>
     ends_with (46 # normalize_domain parent) (normalize_domain child)"

fun pattern_allows :: "domain_pattern \<Rightarrow> domain_pattern \<Rightarrow> bool" where
  "pattern_allows (ExactDomain domain) candidate =
     (case candidate of ExactDomain c \<Rightarrow> domain_eq c domain | _ \<Rightarrow> False)"
| "pattern_allows (SubdomainsOnly domain) candidate =
     (case candidate of
        ExactDomain c \<Rightarrow> is_strict_subdomain c domain
      | SubdomainsOnly c \<Rightarrow> is_subdomain_or_equal c domain
      | ApexAndSubdomains c \<Rightarrow> is_strict_subdomain c domain)"
| "pattern_allows (ApexAndSubdomains domain) candidate =
     (case candidate of
        ExactDomain c \<Rightarrow> is_subdomain_or_equal c domain
      | SubdomainsOnly c \<Rightarrow> is_subdomain_or_equal c domain
      | ApexAndSubdomains c \<Rightarrow> is_subdomain_or_equal c domain)"

section \<open>Compiled lists\<close>

datatype global_wildcard = AllowGlobalWildcard | RejectGlobalWildcard

datatype 'e globset_error =
    UnsupportedGlobalWildcard
  | InvalidGlobPattern rstr 'e
  | GlobSetBuildError 'e

text \<open>\<open>glob\<close> is \<open>GlobBuilder\<close> with \<open>case_insensitive\<close>, \<open>build\<close> is \<open>GlobSetBuilder::build\<close>.\<close>

fun add_candidates ::
  "(rstr \<Rightarrow> ('e, 'g) rresult) \<Rightarrow> rstr list \<Rightarrow> rstr list \<times> 'g list \<Rightarrow>
   ('e globset_error, rstr list \<times> 'g list) rresult" where
  "add_candidates glob [] st = Inr st"
| "add_candidates glob (candidate # cs) (seen, globs) =
     (if candidate \<in> set seen then add_candidates glob cs (seen, globs)
      else case glob candidate of
        Inl e \<Rightarrow> Inl (InvalidGlobPattern candidate e)
      | Inr g \<Rightarrow> add_candidates glob cs (candidate # seen, globs @ [g]))"

fun add_patterns ::
  "(rstr \<Rightarrow> ('e, 'g) rresult) \<Rightarrow> global_wildcard \<Rightarrow> rstr list \<Rightarrow> rstr list \<times> 'g list \<Rightarrow>
   ('e globset_error, rstr list \<times> 'g list) rresult" where
  "add_patterns glob gw [] st = Inr st"
| "add_patterns glob gw (pattern # ps) st =
     (if gw = RejectGlobalWildcard \<and> is_global_wildcard_domain_pattern pattern
      then Inl UnsupportedGlobalWildcard
      else case add_candidates glob (expand_domain_pattern (normalize_pattern pattern)) st of
        Inl e \<Rightarrow> Inl e
      | Inr st' \<Rightarrow> add_patterns glob gw ps st')"

definition compile_globset_with_policy ::
  "(rstr \<Rightarrow> ('e, 'g) rresult) \<Rightarrow> ('g list \<Rightarrow> ('e, 's) rresult) \<Rightarrow> rstr list \<Rightarrow> global_wildcard \<Rightarrow>
   ('e globset_error, 's) rresult" where
  "compile_globset_with_policy glob build patterns gw =
     (case add_patterns glob gw patterns ([], []) of
        Inl e \<Rightarrow> Inl e
      | Inr (_, globs) \<Rightarrow>
          (case build globs of Inl e \<Rightarrow> Inl (GlobSetBuildError e) | Inr s \<Rightarrow> Inr s))"

definition compile_allowlist_globset ::
  "(rstr \<Rightarrow> ('e, 'g) rresult) \<Rightarrow> ('g list \<Rightarrow> ('e, 's) rresult) \<Rightarrow> rstr list \<Rightarrow>
   ('e globset_error, 's) rresult" where
  "compile_allowlist_globset glob build patterns =
     compile_globset_with_policy glob build patterns AllowGlobalWildcard"

definition compile_denylist_globset ::
  "(rstr \<Rightarrow> ('e, 'g) rresult) \<Rightarrow> ('g list \<Rightarrow> ('e, 's) rresult) \<Rightarrow> rstr list \<Rightarrow>
   ('e globset_error, 's) rresult" where
  "compile_denylist_globset glob build patterns =
     compile_globset_with_policy glob build patterns RejectGlobalWildcard"

section \<open>Domains\<close>

lemma trim_end_matches_last: "trim_end_matches c s = [] \<or> last (trim_end_matches c s) \<noteq> c"
  using hd_dropWhile[of "\<lambda>x. x = c" "rev s"]
  by (auto simp: trim_end_matches_def last_rev)

lemma trim_end_matches_id: "s = [] \<or> last s \<noteq> c \<Longrightarrow> trim_end_matches c s = s"
  by (cases s rule: rev_cases) (auto simp: trim_end_matches_def)

lemma lower_char_idem [simp]: "to_ascii_lower_char (to_ascii_lower_char c) = to_ascii_lower_char c"
  by (simp add: to_ascii_lower_char_def)

lemma lower_idem [simp]: "to_ascii_lowercase (to_ascii_lowercase s) = to_ascii_lowercase s"
  by (simp add: to_ascii_lowercase_def)

lemma lower_char_dot: "to_ascii_lower_char c = 46 \<longleftrightarrow> c = 46"
  by (auto simp: to_ascii_lower_char_def)

lemma normalize_domain_last: "normalize_domain d = [] \<or> last (normalize_domain d) \<noteq> 46"
  using trim_end_matches_last[of 46 d]
  by (auto simp: normalize_domain_def to_ascii_lowercase_def last_map lower_char_dot)

lemma normalize_domain_id:
  assumes "to_ascii_lowercase d = d" "d = [] \<or> last d \<noteq> 46"
  shows "normalize_domain d = d"
  using assms by (simp add: normalize_domain_def trim_end_matches_id)

lemma normalize_domain_lower: "to_ascii_lowercase (normalize_domain d) = normalize_domain d"
  by (simp add: normalize_domain_def)

text \<open>The hosts of a pattern.\<close>

fun covers :: "domain_pattern \<Rightarrow> rstr \<Rightarrow> bool" where
  "covers (ExactDomain d) h = domain_eq h d"
| "covers (SubdomainsOnly d) h = is_strict_subdomain h d"
| "covers (ApexAndSubdomains d) h = is_subdomain_or_equal h d"

fun domain_of :: "domain_pattern \<Rightarrow> rstr" where
  "domain_of (ExactDomain d) = d"
| "domain_of (SubdomainsOnly d) = d"
| "domain_of (ApexAndSubdomains d) = d"

definition below :: "rstr \<Rightarrow> rstr \<Rightarrow> bool" where
  "below h d \<longleftrightarrow> ends_with (46 # d) h"

lemma below_neq: "below h d \<Longrightarrow> h \<noteq> d"
  by (auto simp: below_def ends_with_iff)

lemma below_trans: "below h q \<Longrightarrow> below q p \<Longrightarrow> below h p"
  by (auto simp: below_def ends_with_iff)

lemma below_child: "x \<noteq> 46 \<Longrightarrow> below (x # 46 # q) p \<longleftrightarrow> q = p \<or> below q p"
  by (auto simp: below_def ends_with_iff Cons_eq_append_conv)

lemma subdomain_simps:
  "is_strict_subdomain h d \<longleftrightarrow> below (normalize_domain h) (normalize_domain d)"
  "is_subdomain_or_equal h d \<longleftrightarrow>
     normalize_domain h = normalize_domain d \<or> below (normalize_domain h) (normalize_domain d)"
  using below_neq by (auto simp: is_strict_subdomain_def is_subdomain_or_equal_def below_def)

lemma allows_contains:
  "pattern_allows p q \<Longrightarrow> covers q h \<Longrightarrow> covers p h"
  by (cases p; cases q; simp add: subdomain_simps domain_eq_def; (metis below_trans)?)

lemma child_domain:
  assumes "normalize_domain q \<noteq> []" "x \<in> {97, 98}"
  shows "normalize_domain (x # 46 # normalize_domain q) = x # 46 # normalize_domain q"
  using assms normalize_domain_last[of q] normalize_domain_lower[of q]
  by (intro normalize_domain_id)
     (auto simp: to_ascii_lowercase_def to_ascii_lower_char_def)

lemma allows_if_contains:
  assumes "normalize_domain (domain_of q) \<noteq> []" "\<And>h. covers q h \<Longrightarrow> covers p h"
  shows "pattern_allows p q"
proof -
  obtain d where d: "domain_of q = d" by simp
  define n where "n = normalize_domain d"
  have nd: "normalize_domain d = n" "normalize_domain n = n"
      "normalize_domain (97 # 46 # n) = 97 # 46 # n" "normalize_domain (98 # 46 # n) = 98 # 46 # n"
    using child_domain[of d] assms(1) d normalize_domain_id[OF normalize_domain_lower normalize_domain_last, of d]
    by (auto simp: n_def)
  have self: "covers p n" if "\<forall>e. q \<noteq> SubdomainsOnly e"
    using that d nd by (intro assms(2)) (cases q; simp add: domain_eq_def subdomain_simps)
  have kids: "covers p (97 # 46 # n)" "covers p (98 # 46 # n)" if "\<forall>e. q \<noteq> ExactDomain e"
    using that d nd by (intro assms(2); cases q; simp add: subdomain_simps below_child)+
  have two: "97 # 46 # n \<noteq> e \<or> 98 # 46 # n \<noteq> e" for e by auto
  show ?thesis
  proof (cases p)
    case (ExactDomain e)
    then show ?thesis
      using self kids nd d two[of "normalize_domain e"] by (cases q; simp add: domain_eq_def)
  next
    case (SubdomainsOnly e)
    then show ?thesis using self kids nd d by (cases q) (simp_all add: subdomain_simps below_child)
  next
    case (ApexAndSubdomains e)
    then show ?thesis
      using self kids nd d two[of "normalize_domain e"]
      by (cases q; simp add: subdomain_simps below_child; blast?)
  qed
qed

text \<open>
  One domain pattern allows another, as the managed constraints ask it, exactly when every
  host of the second is a host of the first, provided the second names a domain at all.
\<close>

theorem constraint_patterns_contain:
  assumes "normalize_domain (domain_of q) \<noteq> []"
  shows "pattern_allows p q \<longleftrightarrow> (\<forall>h. covers q h \<longrightarrow> covers p h)"
  using allows_contains allows_if_contains[OF assms] by blast
theorem constraint_patterns_contain_witness:
  "\<not> pattern_allows (SubdomainsOnly (lit ''example.com'')) (ApexAndSubdomains (lit ''example.com'')) \<and>
   (\<exists>h. covers (ApexAndSubdomains (lit ''example.com'')) h \<and> \<not> covers (SubdomainsOnly (lit ''example.com'')) h)"
proof -
  have ne: "normalize_domain (domain_of (ApexAndSubdomains (lit ''example.com''))) \<noteq> []" by code_simp
  have "\<not> pattern_allows (SubdomainsOnly (lit ''example.com'')) (ApexAndSubdomains (lit ''example.com''))"
    by code_simp
  with constraint_patterns_contain[OF ne, of "SubdomainsOnly (lit ''example.com'')"] show ?thesis
    by blast
qed

section \<open>What compiled lists match\<close>

definition candidates :: "rstr list \<Rightarrow> rstr list" where
  "candidates ps = concat (map (\<lambda>p. expand_domain_pattern (normalize_pattern p)) ps)"

definition globs_of :: "(rstr \<Rightarrow> ('e, 'g) rresult) \<Rightarrow> rstr list \<Rightarrow> 'g set" where
  "globs_of glob cs = {g. \<exists>c\<in>set cs. glob c = Inr g}"

definition globs_ok :: "(rstr \<Rightarrow> ('e, 'g) rresult) \<Rightarrow> rstr list \<times> 'g list \<Rightarrow> bool" where
  "globs_ok glob st \<longleftrightarrow> set (snd st) = globs_of glob (fst st)"

lemma add_candidates_globs:
  assumes "add_candidates glob cs st = Inr st'" "globs_ok glob st"
  shows "globs_ok glob st' \<and> set (fst st') = set cs \<union> set (fst st)"
  using assms
proof (induction glob cs st rule: add_candidates.induct)
  case (2 glob c cs seen globs)
  then show ?case
    by (auto simp: globs_ok_def globs_of_def split: if_splits sum.splits)
qed simp

lemma add_patterns_globs:
  assumes "add_patterns glob gw ps st = Inr st'" "globs_ok glob st"
  shows "globs_ok glob st' \<and> set (fst st') = set (candidates ps) \<union> set (fst st)"
  using assms
proof (induction glob gw ps st rule: add_patterns.induct)
  case (2 glob gw p ps st)
  obtain st1 where "add_candidates glob (expand_domain_pattern (normalize_pattern p)) st = Inr st1"
      "add_patterns glob gw ps st1 = Inr st'"
      "\<not> (gw = RejectGlobalWildcard \<and> is_global_wildcard_domain_pattern p)"
    using "2.prems" by (auto split: if_splits sum.splits)
  with 2 add_candidates_globs[of glob _ st st1] show ?case
    by (auto simp: candidates_def)
qed (simp add: candidates_def)

text \<open>
  What the documentation of \<open>globset\<close> says: a set matches when one of its globs does; a glob
  of letters, digits, hyphens, underscores and dots matches itself, whatever the case; \<open>?\<close>
  stands for one character and \<open>*\<close> for any number of them.
\<close>

definition dns_char :: "rchar \<Rightarrow> bool" where
  "dns_char c \<longleftrightarrow>
     (97 \<le> c \<and> c \<le> 122) \<or> (65 \<le> c \<and> c \<le> 90) \<or> (48 \<le> c \<and> c \<le> 57) \<or> c = 45 \<or> c = 46 \<or> c = 95"

definition dns_name :: "rstr \<Rightarrow> bool" where
  "dns_name d \<longleftrightarrow> d \<noteq> [] \<and> list_all dns_char d \<and> hd d \<noteq> 46 \<and> last d \<noteq> 46"

definition set_law ::
  "('g list \<Rightarrow> ('e, 's) rresult) \<Rightarrow> ('s \<Rightarrow> rstr \<Rightarrow> bool) \<Rightarrow> ('g \<Rightarrow> rstr \<Rightarrow> bool) \<Rightarrow> bool" where
  "set_law build set_match glob_match \<longleftrightarrow>
     (\<forall>gs s h. build gs = Inr s \<longrightarrow> set_match s h = list_ex (\<lambda>g. glob_match g h) gs)"

definition glob_law :: "(rstr \<Rightarrow> ('e, 'g) rresult) \<Rightarrow> ('g \<Rightarrow> rstr \<Rightarrow> bool) \<Rightarrow> bool" where
  "glob_law glob glob_match \<longleftrightarrow>
     (\<forall>d. dns_name d \<longrightarrow>
        (\<exists>g. glob d = Inr g \<and> (\<forall>h. glob_match g h \<longleftrightarrow> to_ascii_lowercase h = to_ascii_lowercase d)) \<and>
        (\<exists>g. glob (lit ''?*.'' @ d) = Inr g \<and>
           (\<forall>h. glob_match g h \<longleftrightarrow>
              (\<exists>x. x \<noteq> [] \<and> to_ascii_lowercase h = x @ 46 # to_ascii_lowercase d))))"

lemma compiled_match:
  assumes "set_law build set_match glob_match"
    and "compile_globset_with_policy glob build ps gw = Inr s"
  shows "set_match s h \<longleftrightarrow> (\<exists>g \<in> globs_of glob (candidates ps). glob_match g h)"
proof -
  obtain seen globs where st: "add_patterns glob gw ps ([], []) = Inr (seen, globs)" "build globs = Inr s"
    using assms(2) by (auto simp: compile_globset_with_policy_def split: sum.splits)
  have "globs_ok glob ([], [])" by (simp add: globs_ok_def globs_of_def)
  from add_patterns_globs[OF st(1) this] have "set globs = globs_of glob (candidates ps)"
    by (simp add: globs_ok_def globs_of_def)
  with assms(1) st(2) show ?thesis by (auto simp: set_law_def list_ex_iff)
qed

section \<open>Plain entries\<close>

fun matches_pattern :: "domain_pattern \<Rightarrow> rstr \<Rightarrow> bool" where
  "matches_pattern (ExactDomain d) h \<longleftrightarrow> to_ascii_lowercase h = to_ascii_lowercase d"
| "matches_pattern (SubdomainsOnly d) h \<longleftrightarrow>
     (\<exists>x. x \<noteq> [] \<and> to_ascii_lowercase h = x @ 46 # to_ascii_lowercase d)"
| "matches_pattern (ApexAndSubdomains d) h \<longleftrightarrow>
     to_ascii_lowercase h = to_ascii_lowercase d \<or>
     (\<exists>x. x \<noteq> [] \<and> to_ascii_lowercase h = x @ 46 # to_ascii_lowercase d)"

text \<open>An entry that names a domain the host parser of \<open>url\<close> keeps, with or without a wildcard.\<close>

definition plain_entry :: "(rstr \<Rightarrow> rstr option) \<Rightarrow> rstr \<Rightarrow> bool" where
  "plain_entry url_host e \<longleftrightarrow>
     (\<exists>d. dns_name d \<and> url_host (d) = Some (to_ascii_lowercase d) \<and>
        trim e \<in> {d, lit ''*.'' @ d, lit ''**.'' @ d})"

lemma dns_char_facts:
  "dns_char c \<Longrightarrow> \<not> is_whitespace c \<and> c \<noteq> 42 \<and> c \<noteq> 63 \<and> c \<noteq> 37 \<and> c \<noteq> 91 \<and> c \<noteq> 58"
  by (auto simp: dns_char_def is_whitespace_def)

lemma dns_name_facts:
  assumes "dns_name d"
  shows "trim d = d" "42 \<notin> set d" "63 \<notin> set d" "37 \<notin> set d" "58 \<notin> set d" "\<not> starts_with [91] d"
    "trim_end_matches 46 d = d"
proof -
  have c: "\<And>x. x \<in> set d \<Longrightarrow> dns_char x" and ne: "d \<noteq> []"
    using assms by (auto simp: dns_name_def list_all_iff)
  show "42 \<notin> set d" "63 \<notin> set d" "37 \<notin> set d" "58 \<notin> set d"
    using c dns_char_facts by blast+
  show "\<not> starts_with [91] d"
    using c[of "hd d"] ne dns_char_facts by (cases d) auto
  show "trim d = d"
    using c[of "hd d"] c[of "last d"] ne dns_char_facts trim_padded[of "[]" "[]" d] by auto
  show "trim_end_matches 46 d = d"
    using assms by (intro trim_end_matches_id) (auto simp: dns_name_def)
qed

lemma dns_char_lower: "dns_char c \<Longrightarrow> dns_char (to_ascii_lower_char c)"
  by (auto simp: dns_char_def to_ascii_lower_char_def)

lemma dns_name_lower: "dns_name d \<Longrightarrow> dns_name (to_ascii_lowercase d)"
  by (auto simp: dns_name_def to_ascii_lowercase_def list_all_iff last_map hd_map lower_char_dot dns_char_lower)

lemma find_sub_absent: "c \<notin> set s \<Longrightarrow> find_sub (c # p) s = None"
  by (auto simp: find_sub_None_iff)

lemma scoped_literal_absent: "37 \<notin> set h \<Longrightarrow> scoped_literal [lit ''%25'', lit ''%''] h = None"
  using find_sub_absent[of 37 h] by (simp add: split_once_str_def lit_def)

lemma normalize_host_dns:
  assumes "dns_name d"
  shows "normalize_host d = to_ascii_lowercase d"
proof -
  note f = dns_name_facts[OF assms] and l = dns_name_facts[OF dns_name_lower[OF assms]]
  have "count_list d 58 = 0" using f by (simp add: count_list_0_iff)
  moreover have "normalize_dns_host_or_ip_literal d = to_ascii_lowercase d"
    using l scoped_literal_absent[of "to_ascii_lowercase d"]
    by (simp add: normalize_dns_host_or_ip_literal_def Let_def normalize_ip_literal_def)
  ultimately show ?thesis
    using f by (simp add: normalize_host_def Let_def)
qed

lemma constraint_domain_dns:
  assumes "dns_name d" "url_host d = Some (to_ascii_lowercase d)"
  shows "parse_domain_for_constraints url_host d = to_ascii_lowercase d"
  using dns_name_facts[OF assms(1)] assms
  by (simp add: parse_domain_for_constraints_def Let_def dns_name_def)

lemma star_prefixes:
  "strip_prefix (lit ''**.'') (lit ''*.'' @ d) = None"
  "42 \<notin> set d \<Longrightarrow> strip_prefix (lit ''**.'') d = None"
  "42 \<notin> set d \<Longrightarrow> strip_prefix (lit ''*.'') d = None"
  by (auto simp: lit_def strip_prefix_None)

lemma trim_star:
  assumes "dns_name d"
  shows "trim (lit ''*.'' @ d) = lit ''*.'' @ d" "trim (lit ''**.'' @ d) = lit ''**.'' @ d"
  using assms dns_char_facts[of "last d"] trim_padded[of "[]" "[]" "lit ''*.'' @ d"]
    trim_padded[of "[]" "[]" "lit ''**.'' @ d"]
  by (auto simp: dns_name_def list_all_iff lit_def is_whitespace_def)

lemma plain_entry_pattern:
  assumes "plain_entry url_host e"
  obtains d where "dns_name d" "to_ascii_lowercase d = d"
    "parse_for_constraints url_host e = domain_pattern_parse (normalize_pattern e)"
    "domain_pattern_parse (normalize_pattern e) \<in> {ExactDomain d, SubdomainsOnly d, ApexAndSubdomains d}"
proof -
  obtain d where d: "dns_name d" "url_host d = Some (to_ascii_lowercase d)"
      "trim e \<in> {d, lit ''*.'' @ d, lit ''**.'' @ d}"
    using assms by (auto simp: plain_entry_def)
  let ?d = "to_ascii_lowercase d"
  note low = dns_name_lower[OF d(1)]
  have ne: "lit ''*.'' @ d \<noteq> lit ''*''" "lit ''**.'' @ d \<noteq> lit ''*''" "d \<noteq> lit ''*''" "d \<noteq> []" "?d \<noteq> []"
    using d(1) dns_name_facts(2)[OF d(1)] low by (auto simp: lit_def dns_name_def)
  note rules = normalize_pattern_def domain_pattern_parse_def parse_for_constraints_def parse_domain_def Let_def
    normalize_host_dns[OF d(1)] constraint_domain_dns[of d url_host, OF d(1) d(2)] star_prefixes ne trim_star[OF low]
    dns_name_facts(1)[OF low] dns_name_facts(2)[OF low] dns_name_facts(2)[OF d(1)]
  from d(3) consider "trim e = d" | "trim e = lit ''*.'' @ d" | "trim e = lit ''**.'' @ d" by blast
  then show thesis
  proof cases
    case 1
    then show thesis by (intro that[of ?d]) (simp_all add: rules low)
  next
    case 2
    then show thesis by (intro that[of ?d]) (simp_all add: rules low)
  next
    case 3
    then show thesis by (intro that[of ?d]) (simp_all add: rules low)
  qed
qed

lemma expand_matches:
  assumes "glob_law glob glob_match" "dns_name d"
    and "domain_pattern_parse q \<in> {ExactDomain d, SubdomainsOnly d, ApexAndSubdomains d}"
  shows "(\<exists>g \<in> globs_of glob (expand_domain_pattern q). glob_match g h) \<longleftrightarrow>
    matches_pattern (domain_pattern_parse q) h"
proof -
  obtain g1 where g1: "glob d = Inr g1" "\<And>h. glob_match g1 h \<longleftrightarrow> to_ascii_lowercase h = to_ascii_lowercase d"
    using assms(1,2) by (auto simp: glob_law_def)
  obtain g2 where g2: "glob (lit ''?*.'' @ d) = Inr g2"
      "\<And>h. glob_match g2 h \<longleftrightarrow> (\<exists>x. x \<noteq> [] \<and> to_ascii_lowercase h = x @ 46 # to_ascii_lowercase d)"
    using assms(1,2) unfolding glob_law_def by blast
  show ?thesis
    using assms(3) g1 g2 by (elim insertE emptyE) (simp_all add: expand_domain_pattern_def globs_of_def, blast)
qed

lemma allows_domains:
  assumes "pattern_allows p q"
  shows "below (normalize_domain (domain_of q)) (normalize_domain (domain_of p)) \<or>
    normalize_domain (domain_of q) = normalize_domain (domain_of p)"
  using assms by (cases p; cases q) (auto simp: subdomain_simps domain_eq_def)

lemma matches_domain:
  "matches_pattern q h \<Longrightarrow> to_ascii_lowercase (domain_of q) = d \<Longrightarrow>
   to_ascii_lowercase h = d \<or> (\<exists>x. x \<noteq> [] \<and> to_ascii_lowercase h = x @ 46 # d)"
  by (cases q) auto

lemma allows_matches:
  assumes "pattern_allows p q" "matches_pattern q h"
    and "dns_name (domain_of p)" "to_ascii_lowercase (domain_of p) = domain_of p"
    and "dns_name (domain_of q)" "to_ascii_lowercase (domain_of q) = domain_of q"
  shows "matches_pattern p h"
proof -
  let ?p = "domain_of p" and ?q = "domain_of q"
  have n: "normalize_domain ?p = ?p" "normalize_domain ?q = ?q"
    using assms(3-6) by (auto intro!: normalize_domain_id simp: dns_name_def)
  have deep: "\<exists>z. z \<noteq> [] \<and> ?q = z @ 46 # ?p" if b: "below ?q ?p"
  proof -
    obtain z where z: "?q = z @ 46 # ?p" using b unfolding below_def ends_with_iff by blast
    moreover have "z \<noteq> []" using z assms(5) by (cases z) (auto simp: dns_name_def)
    ultimately show ?thesis by blast
  qed
  have sub: "\<exists>y. y \<noteq> [] \<and> to_ascii_lowercase h = y @ 46 # ?p"
    if b: "below ?q ?p" and m: "to_ascii_lowercase h = ?q \<or> (\<exists>x. x \<noteq> [] \<and> to_ascii_lowercase h = x @ 46 # ?q)"
  proof -
    obtain z where z: "z \<noteq> []" "?q = z @ 46 # ?p" using deep b by blast
    from m show ?thesis
    proof
      assume "to_ascii_lowercase h = ?q"
      with z show ?thesis by auto
    next
      assume "\<exists>x. x \<noteq> [] \<and> to_ascii_lowercase h = x @ 46 # ?q"
      then obtain x where "to_ascii_lowercase h = (x @ 46 # z) @ 46 # ?p" using z(2) by auto
      then show ?thesis by blast
    qed
  qed
  have cover: "to_ascii_lowercase h = ?q \<or> (\<exists>x. x \<noteq> [] \<and> to_ascii_lowercase h = x @ 46 # ?q)"
    by (rule matches_domain[OF assms(2,6)])
  have "below ?q ?p \<or> ?q = ?p"
    using allows_domains[OF assms(1)] unfolding n .
  then show ?thesis
  proof
    assume b: "below ?q ?p"
    then have "\<forall>d. p \<noteq> ExactDomain d"
      using assms(1) n below_neq[OF b] by (auto simp: domain_eq_def split: domain_pattern.splits)
    with sub[OF b cover] assms(4) show ?thesis by (cases p) auto
  next
    assume e: "?q = ?p"
    then have "\<not> below ?q ?p" using below_neq by blast
    with e assms(1,2,4,6) n show ?thesis
      by (cases p; cases q) (simp_all add: subdomain_simps)
  qed
qed

lemma parse_ip_Nil: "parse_ip [] = None"
  by code_simp

lemma scoped_literal_star: "scoped_literal ds (42 # s) = Some x \<Longrightarrow> 42 \<in> set x"
proof (induction ds)
  case (Cons d ds)
  have "42 \<in> set (take i (42 # s)) \<or> take i (42 # s) = []" for i by (cases i) auto
  with Cons show ?case
    by (fastforce simp: split_once_str_def parse_ip_Nil split: option.splits if_splits)
qed simp

lemma star_kept: "42 \<in> set (normalize_dns_host_or_ip_literal (42 # s))"
proof -
  have "to_ascii_lowercase (42 # s) = 42 # to_ascii_lowercase s"
    by (simp add: to_ascii_lowercase_def to_ascii_lower_char_def)
  then obtain t where "trim_end_matches 46 (to_ascii_lowercase (42 # s)) = 42 # t"
    using trim_end_matches_Cons[of 42 46] by auto
  then show ?thesis
    using scoped_literal_star[of "[lit ''%25'', lit ''%'']" t]
    by (simp add: normalize_dns_host_or_ip_literal_def Let_def normalize_ip_literal_def del: scoped_literal.simps split: option.splits)
qed

lemma scoped_literal_subset: "scoped_literal ds h = Some x \<Longrightarrow> set x \<subseteq> insert 37 (set h)"
  by (induction ds) (auto simp: split_once_str_def dest: in_set_takeD in_set_dropD split: option.splits if_splits)

lemma normalize_dns_host_lower: "c \<in> set (normalize_dns_host_or_ip_literal h) \<Longrightarrow> to_ascii_lower_char c = c"
proof -
  let ?h = "trim_end_matches 46 (to_ascii_lowercase h)"
  have low: "to_ascii_lower_char c = c" if "c \<in> insert 37 (set ?h)" for c
  proof -
    have "c = 37 \<or> c \<in> set (to_ascii_lowercase h)"
      using that set_dropWhileD[of c _ "rev (to_ascii_lowercase h)"] by (auto simp: trim_end_matches_def)
    then show ?thesis
    proof
      assume "c = 37"
      then show ?thesis by (simp add: to_ascii_lower_char_def)
    next
      assume "c \<in> set (to_ascii_lowercase h)"
      then show ?thesis by (auto simp: to_ascii_lowercase_def)
    qed
  qed
  assume "c \<in> set (normalize_dns_host_or_ip_literal h)"
  then have "c \<in> insert 37 (set ?h)"
    using scoped_literal_subset[of _ ?h]
    by (auto simp: normalize_dns_host_or_ip_literal_def normalize_ip_literal_def Let_def
          simp del: scoped_literal.simps split: option.splits if_splits)
  then show ?thesis by (rule low)
qed

lemma normalize_host_lowered: "to_ascii_lowercase (normalize_host h) = normalize_host h"
proof -
  have "to_ascii_lower_char c = c" if "c \<in> set (normalize_host h)" for c
    using that normalize_dns_host_lower[of c] by (auto simp: normalize_host_def Let_def split: option.splits if_splits)
  then show ?thesis by (simp add: to_ascii_lowercase_def map_idI)
qed

lemma host_entry_pattern:
  assumes "dns_name host" "normalize_host e = host"
  shows "normalize_pattern e = host"
proof -
  have ns: "42 \<notin> set host" using dns_name_facts(2)[OF assms(1)] .
  have eq: "normalize_host (trim e) = host" using assms(2) by (simp add: normalize_host_def)
  have "\<not> starts_with [42] (trim e)"
  proof
    assume "starts_with [42] (trim e)"
    then obtain s where s: "trim e = 42 # s" by (cases "trim e") auto
    then have t: "trim (42 # s) = 42 # s" using trim_idem[of e] by simp
    obtain u where u: "hd (split_on 58 (42 # s)) = 42 # u" using split_on_first[of 42 58 s] by auto
    have "42 \<in> set (normalize_host (42 # s))"
      unfolding normalize_host_def t Let_def u by (simp add: star_kept)
    then have "42 \<in> set (normalize_host (trim e))" unfolding s .
    with eq ns show False by simp
  qed
  then have star_free: "trim e \<noteq> lit ''*''" "strip_prefix (lit ''**.'') (trim e) = None" "strip_prefix (lit ''*.'') (trim e) = None"
    by (cases "trim e"; simp add: lit_def)+
  show ?thesis
    using eq star_free by (simp add: normalize_pattern_def Let_def)
qed

definition within :: "(rstr \<Rightarrow> rstr option) \<Rightarrow> rstr list \<Rightarrow> rstr \<Rightarrow> bool" where
  "within url_host managed e \<longleftrightarrow>
     list_ex (\<lambda>m. pattern_allows (parse_for_constraints url_host m) (parse_for_constraints url_host e)) managed"

lemma contained_lists:
  assumes "glob_law glob glob_match" "set_law build set_match glob_match"
    and "list_all (plain_entry url_host) (es @ ms)" "list_all (within url_host ms) es"
    and "compile_globset_with_policy glob build es gw = Inr s"
    and "compile_globset_with_policy glob build ms gw' = Inr s'"
    and "set_match s h"
  shows "set_match s' h"
proof -
  let ?pat = "\<lambda>e. domain_pattern_parse (normalize_pattern e)"
  have entry: "(\<exists>g \<in> globs_of glob (expand_domain_pattern (normalize_pattern e)). glob_match g h) \<longleftrightarrow>
      matches_pattern (?pat e) h" "dns_name (domain_of (?pat e))"
      "to_ascii_lowercase (domain_of (?pat e)) = domain_of (?pat e)"
      "parse_for_constraints url_host e = ?pat e"
    if "plain_entry url_host e" for e
    by (rule plain_entry_pattern[OF that]; use expand_matches[OF assms(1)] in auto)+
  have cand: "(\<exists>g \<in> globs_of glob (candidates ps). glob_match g h) \<longleftrightarrow>
      (\<exists>e\<in>set ps. \<exists>g \<in> globs_of glob (expand_domain_pattern (normalize_pattern e)). glob_match g h)" for ps
    by (auto simp: candidates_def globs_of_def)
  obtain e where e: "e \<in> set es" "plain_entry url_host e" "matches_pattern (?pat e) h"
    using assms(3,7) compiled_match[OF assms(2,5)] cand entry(1) by (auto simp: list_all_iff)
  obtain m where m: "m \<in> set ms" "plain_entry url_host m" "pattern_allows (?pat m) (?pat e)"
    using assms(3,4) e entry(4) by (auto simp: list_all_iff list_ex_iff within_def)
  have "matches_pattern (?pat m) h"
    using allows_matches[OF m(3) e(3)] entry(2,3) e(2) m(2) by blast
  with m entry(1) show ?thesis
    unfolding compiled_match[OF assms(2,6)] cand by blast
qed
end
