(* ===== verification/Network_Settings.thy ===== *)
theory Network_Settings
  imports Network_Hosts Absolute_Path "HOL-Library.List_Lexorder"
begin

text \<open>
  \<open>network-proxy/src/config.rs\<close>: the settings of the proxy, its lists of domains and Unix
  sockets, and the addresses it binds. A \<open>BTreeMap\<close> is the list of its entries in key order.
  The URL parser of the crate \<open>url\<close>, the home directory and the current directory are
  parameters. The configuration of the hooks comes from \<open>network-proxy/src/mitm_hook.rs\<close>.
\<close>

section \<open>Settings\<close>

datatype network_domain_permission = PermNone | PermAllow | PermDeny

fun permission_rank :: "network_domain_permission \<Rightarrow> nat" where
  "permission_rank PermNone = 0"
| "permission_rank PermAllow = 1"
| "permission_rank PermDeny = 2"

record network_domain_permission_entry =
  entry_pattern :: rstr
  entry_permission :: network_domain_permission

datatype network_unix_socket_permission = SocketAllow | SocketNone

datatype network_mode = Limited | Full

record injected_header_config =
  ih_name :: rstr
  ih_secret_env_var :: "rstr option"
  ih_secret_file :: "rstr option"
  ih_prefix :: "rstr option"

text \<open>The body matcher is a JSON value that is always refused, so only its presence counts.\<close>

record mitm_hook_match_config =
  hm_methods :: "rstr list"
  hm_path_prefixes :: "rstr list"
  hm_query :: "(rstr \<times> rstr list) list"
  hm_headers :: "(rstr \<times> rstr list) list"
  hm_body :: "unit option"

record mitm_hook_actions_config =
  ha_strip_request_headers :: "rstr list"
  ha_inject_request_headers :: "injected_header_config list"

record mitm_hook_config =
  hook_host :: rstr
  hook_matcher :: mitm_hook_match_config
  hook_actions :: mitm_hook_actions_config

record network_proxy_settings =
  enabled :: bool
  proxy_url :: rstr
  enable_socks5 :: bool
  socks_url :: rstr
  enable_socks5_udp :: bool
  allow_upstream_proxy :: bool
  dangerously_allow_non_loopback_proxy :: bool
  dangerously_allow_all_unix_sockets :: bool
  net_mode :: network_mode
  domains :: "network_domain_permission_entry list option"
  unix_sockets :: "(rstr \<times> network_unix_socket_permission) list option"
  allow_local_binding :: bool
  mitm :: bool
  mitm_hooks :: "mitm_hook_config list"

definition default_proxy_url :: rstr where
  "default_proxy_url = lit ''http://127.0.0.1:3128''"

definition default_socks_url :: rstr where
  "default_socks_url = lit ''http://127.0.0.1:8081''"

definition default_settings :: network_proxy_settings where
  "default_settings =
     \<lparr>enabled = False, proxy_url = default_proxy_url, enable_socks5 = True,
      socks_url = default_socks_url, enable_socks5_udp = True, allow_upstream_proxy = True,
      dangerously_allow_non_loopback_proxy = False, dangerously_allow_all_unix_sockets = False,
      net_mode = Full, domains = None, unix_sockets = None, allow_local_binding = False,
      mitm = False, mitm_hooks = []\<rparr>"

definition allows_method :: "network_mode \<Rightarrow> rstr \<Rightarrow> bool" where
  "allows_method m method =
     (case m of
        Full \<Rightarrow> True
      | Limited \<Rightarrow> method \<in> set [lit ''GET'', lit ''HEAD'', lit ''OPTIONS''])"

section \<open>Domains\<close>

definition count_entry ::
  "rstr list \<times> (rstr \<Rightarrow> network_domain_permission option) \<Rightarrow> network_domain_permission_entry \<Rightarrow>
   rstr list \<times> (rstr \<Rightarrow> network_domain_permission option)" where
  "count_entry st e =
     (let (order, effective) = st;
          p = entry_pattern e;
          order' = (if effective p = None then order @ [p] else order);
          current = (case effective p of None \<Rightarrow> entry_permission e | Some q \<Rightarrow> q)
      in (order', effective(p := Some (if permission_rank (entry_permission e) > permission_rank current
                                       then entry_permission e else current))))"

fun take_effective ::
  "rstr list \<Rightarrow> (rstr \<Rightarrow> network_domain_permission option) \<Rightarrow> network_domain_permission_entry list" where
  "take_effective [] m = []"
| "take_effective (p # ps) m =
     (case m p of
        None \<Rightarrow> take_effective ps m
      | Some perm \<Rightarrow> \<lparr>entry_pattern = p, entry_permission = perm\<rparr> # take_effective ps (m(p := None)))"

definition effective_entries ::
  "network_domain_permission_entry list \<Rightarrow> network_domain_permission_entry list" where
  "effective_entries entries =
     (let (order, effective) = foldl count_entry ([], \<lambda>_. None) entries
      in take_effective order effective)"

definition domain_entries ::
  "network_proxy_settings \<Rightarrow> network_domain_permission \<Rightarrow> rstr list option" where
  "domain_entries cfg permission =
     (case domains cfg of
        None \<Rightarrow> None
      | Some es \<Rightarrow>
          (let ps = map entry_pattern (filter (\<lambda>e. entry_permission e = permission) (effective_entries es))
           in if ps = [] then None else Some ps))"

definition allowed_domains :: "network_proxy_settings \<Rightarrow> rstr list option" where
  "allowed_domains cfg = domain_entries cfg PermAllow"

definition denied_domains :: "network_proxy_settings \<Rightarrow> rstr list option" where
  "denied_domains cfg = domain_entries cfg PermDeny"

text \<open>\<open>unwrap_or_default\<close> on a list and the other way round, \<open>then_some\<close> on a list that is not empty.\<close>

definition or_empty :: "'a list option \<Rightarrow> 'a list" where
  "or_empty xs = (case xs of None \<Rightarrow> [] | Some ys \<Rightarrow> ys)"

definition nonempty_some :: "'a list \<Rightarrow> 'a list option" where
  "nonempty_some xs = (if xs = [] then None else Some xs)"

fun push_missing ::
  "network_domain_permission \<Rightarrow> rstr list \<Rightarrow> network_domain_permission_entry list \<Rightarrow>
   network_domain_permission_entry list" where
  "push_missing permission [] es = es"
| "push_missing permission (p # ps) es =
     (if list_ex (\<lambda>e. entry_pattern e = p \<and> entry_permission e = permission) es
      then push_missing permission ps es
      else push_missing permission ps (es @ [\<lparr>entry_pattern = p, entry_permission = permission\<rparr>]))"

definition set_domain_entries ::
  "rstr list \<Rightarrow> network_domain_permission \<Rightarrow> network_proxy_settings \<Rightarrow> network_proxy_settings" where
  "set_domain_entries ps permission cfg =
     cfg\<lparr>domains := nonempty_some (push_missing permission ps
            (filter (\<lambda>e. entry_permission e \<noteq> permission) (or_empty (domains cfg))))\<rparr>"

definition set_allowed_domains :: "rstr list \<Rightarrow> network_proxy_settings \<Rightarrow> network_proxy_settings" where
  "set_allowed_domains ps cfg = set_domain_entries ps PermAllow cfg"

definition set_denied_domains :: "rstr list \<Rightarrow> network_proxy_settings \<Rightarrow> network_proxy_settings" where
  "set_denied_domains ps cfg = set_domain_entries ps PermDeny cfg"

definition upsert_domain_permission ::
  "rstr \<Rightarrow> network_domain_permission \<Rightarrow> (rstr \<Rightarrow> rstr) \<Rightarrow> network_proxy_settings \<Rightarrow>
   network_proxy_settings" where
  "upsert_domain_permission host permission normal cfg =
     cfg\<lparr>domains := nonempty_some
           (filter (\<lambda>e. normal (entry_pattern e) \<noteq> normal host) (or_empty (domains cfg)) @
            [\<lparr>entry_pattern = host, entry_permission = permission\<rparr>])\<rparr>"

section \<open>Unix sockets\<close>

fun btree_insert :: "rstr \<Rightarrow> 'v \<Rightarrow> (rstr \<times> 'v) list \<Rightarrow> (rstr \<times> 'v) list" where
  "btree_insert k v [] = [(k, v)]"
| "btree_insert k v ((k', v') # m) =
     (if k = k' then (k, v) # m
      else if k < k' then (k, v) # (k', v') # m
      else (k', v') # btree_insert k v m)"

definition allow_unix_sockets :: "network_proxy_settings \<Rightarrow> rstr list" where
  "allow_unix_sockets cfg = map fst (filter (\<lambda>(_, p). p = SocketAllow) (or_empty (unix_sockets cfg)))"

definition set_unix_socket_entries ::
  "rstr list \<Rightarrow> network_unix_socket_permission \<Rightarrow> network_proxy_settings \<Rightarrow> network_proxy_settings" where
  "set_unix_socket_entries ps permission cfg =
     cfg\<lparr>unix_sockets := nonempty_some
           (foldl (\<lambda>m p. btree_insert p permission m)
              (filter (\<lambda>(_, existing). existing \<noteq> permission) (or_empty (unix_sockets cfg))) ps)\<rparr>"

definition set_allow_unix_sockets :: "rstr list \<Rightarrow> network_proxy_settings \<Rightarrow> network_proxy_settings" where
  "set_allow_unix_sockets ps cfg = set_unix_socket_entries ps SocketAllow cfg"

datatype validated_unix_socket_path = NativePath rstr | UnixStyleAbsolute rstr

datatype settings_error =
    RelativeSocketPath rstr
  | SocketPathNotNormalized rstr
  | InvalidAllowUnixSocket nat settings_error
  | MissingHost rstr
  | InvalidProxyUrl rstr settings_error
  | InvalidSocksUrl rstr settings_error

definition validated_unix_socket_parse ::
  "rstr option \<Rightarrow> rstr option \<Rightarrow> rstr \<Rightarrow> (settings_error, validated_unix_socket_path) rresult" where
  "validated_unix_socket_parse home_dir current_dir socket_path =
     (if is_absolute socket_path then
        (case from_absolute_path home_dir current_dir socket_path of
           None \<Rightarrow> Inl (SocketPathNotNormalized socket_path)
         | Some p \<Rightarrow> Inr (NativePath p))
      else if starts_with [SLASH] socket_path then Inr (UnixStyleAbsolute socket_path)
      else Inl (RelativeSocketPath socket_path))"

fun validate_socket_paths ::
  "rstr option \<Rightarrow> rstr option \<Rightarrow> nat \<Rightarrow> rstr list \<Rightarrow> (settings_error, unit) rresult" where
  "validate_socket_paths home_dir current_dir i [] = Inr ()"
| "validate_socket_paths home_dir current_dir i (p # ps) =
     (case validated_unix_socket_parse home_dir current_dir p of
        Inl e \<Rightarrow> Inl (InvalidAllowUnixSocket i e)
      | Inr _ \<Rightarrow> validate_socket_paths home_dir current_dir (Suc i) ps)"

definition validate_unix_socket_allowlist_paths ::
  "rstr option \<Rightarrow> rstr option \<Rightarrow> network_proxy_settings \<Rightarrow> (settings_error, unit) rresult" where
  "validate_unix_socket_allowlist_paths home_dir current_dir cfg =
     validate_socket_paths home_dir current_dir 0 (allow_unix_sockets cfg)"

section \<open>Addresses\<close>

type_synonym socket_addr = "ip_addr \<times> nat"

record socket_address_parts =
  sa_host :: rstr
  sa_port :: nat

text \<open>\<open>str::parse::<u16>\<close>: an optional plus sign and decimal digits.\<close>

definition parse_u16 :: "rstr \<Rightarrow> nat option" where
  "parse_u16 s =
     (let ds = (case strip_prefix [43] s of Some r \<Rightarrow> r | None \<Rightarrow> s) in
      if ds = [] \<or> \<not> list_all is_ascii_digit ds then None
      else (let n = from_digits 10 (map (\<lambda>c. c - 48) ds) in if n < 65536 then Some n else None))"

definition parse_host_port_fallback ::
  "rstr \<Rightarrow> nat \<Rightarrow> (settings_error, socket_address_parts) rresult" where
  "parse_host_port_fallback input default_port =
     (let without_scheme = (case split_once_str (lit ''://'') input of Some (_, r) \<Rightarrow> r | None \<Rightarrow> input);
          first = hd (split_on SLASH without_scheme);
          host_port = (case rsplit_once 64 first of Some (_, r) \<Rightarrow> r | None \<Rightarrow> first);
          port_or = (\<lambda>p. case parse_u16 p of Some n \<Rightarrow> n | None \<Rightarrow> default_port)
      in
      case (if starts_with [91] host_port then position (\<lambda>c. c = 93) host_port else None) of
        Some i \<Rightarrow>
          (let host = drop 1 (take i host_port);
               port = (case strip_prefix [58] (drop (Suc i) host_port) of
                         Some p \<Rightarrow> port_or p | None \<Rightarrow> default_port)
           in if host = [] then Inl (MissingHost input)
              else Inr \<lparr>sa_host = host, sa_port = port\<rparr>)
      | None \<Rightarrow>
          (case (if count_list host_port 58 = 1 then rsplit_once 58 host_port else None) of
             Some (host, port) \<Rightarrow>
               if host = [] then Inl (MissingHost input)
               else Inr \<lparr>sa_host = host, sa_port = port_or port\<rparr>
           | None \<Rightarrow>
               if host_port = [] then Inl (MissingHost input)
               else Inr \<lparr>sa_host = host_port, sa_port = default_port\<rparr>))"

text \<open>\<open>url_parts\<close> is \<open>Url::parse\<close> with the host and the explicit port of the result, when it has a host.\<close>

definition trim_brackets :: "rstr \<Rightarrow> rstr" where
  "trim_brackets s =
     rev (dropWhile (\<lambda>c. c = 91 \<or> c = 93) (rev (dropWhile (\<lambda>c. c = 91 \<or> c = 93) s)))"

definition parse_host_port ::
  "(rstr \<Rightarrow> (rstr \<times> nat option) option) \<Rightarrow> rstr \<Rightarrow> nat \<Rightarrow>
   (settings_error, socket_address_parts) rresult" where
  "parse_host_port url_parts url default_port =
     (let trimmed = trim url in
      if trimmed = [] then Inl (MissingHost url)
      else if (case parse_ip trimmed of Some (V6 _) \<Rightarrow> True | _ \<Rightarrow> False) \<and> \<not> starts_with [91] trimmed
      then Inr \<lparr>sa_host = trimmed, sa_port = default_port\<rparr>
      else
        (let candidate = (if contains_str (lit ''://'') trimmed then trimmed else lit ''http://'' @ trimmed)
         in case url_parts candidate of
              Some (host, port) \<Rightarrow>
                (let h = trim_brackets host in
                 if h = [] then Inl (MissingHost url)
                 else Inr \<lparr>sa_host = h, sa_port = (case port of Some p \<Rightarrow> p | None \<Rightarrow> default_port)\<rparr>)
            | None \<Rightarrow> parse_host_port_fallback trimmed default_port))"

definition loopback_v4 :: ip_addr where
  "loopback_v4 = V4 (ipv4 127 0 0 1)"

definition resolve_addr ::
  "(rstr \<Rightarrow> (rstr \<times> nat option) option) \<Rightarrow> rstr \<Rightarrow> nat \<Rightarrow> (settings_error, socket_addr) rresult" where
  "resolve_addr url_parts url default_port =
     (case parse_host_port url_parts url default_port of
        Inl e \<Rightarrow> Inl e
      | Inr parts \<Rightarrow>
          (let host = (if to_ascii_lowercase (sa_host parts) = lit ''localhost'' then lit ''127.0.0.1''
                       else sa_host parts)
           in case parse_ip host of
                Some ip \<Rightarrow> Inr (ip, sa_port parts)
              | None \<Rightarrow> Inr (loopback_v4, sa_port parts)))"

definition format_host_and_port :: "rstr \<Rightarrow> nat \<Rightarrow> rstr" where
  "format_host_and_port host port =
     (if 58 \<in> set host then 91 # host @ lit '']:'' @ show_nat port else host @ 58 # show_nat port)"

definition host_and_port_from_network_addr ::
  "(rstr \<Rightarrow> (rstr \<times> nat option) option) \<Rightarrow> rstr \<Rightarrow> nat \<Rightarrow> rstr" where
  "host_and_port_from_network_addr url_parts value default_port =
     (let trimmed = trim value in
      if trimmed = [] then lit ''<missing>''
      else case parse_host_port url_parts trimmed default_port of
        Inl _ \<Rightarrow> format_host_and_port trimmed default_port
      | Inr parts \<Rightarrow> format_host_and_port (sa_host parts) (sa_port parts))"

definition clamp_non_loopback :: "socket_addr \<Rightarrow> bool \<Rightarrow> socket_addr" where
  "clamp_non_loopback addr allow_non_loopback =
     (if ip_is_loopback (fst addr) then addr
      else if allow_non_loopback then addr
      else (loopback_v4, snd addr))"

definition clamp_bind_addrs ::
  "socket_addr \<Rightarrow> socket_addr \<Rightarrow> network_proxy_settings \<Rightarrow> socket_addr \<times> socket_addr" where
  "clamp_bind_addrs http_addr socks_addr cfg =
     (let http = clamp_non_loopback http_addr (dangerously_allow_non_loopback_proxy cfg);
          socks = clamp_non_loopback socks_addr (dangerously_allow_non_loopback_proxy cfg)
      in if allow_unix_sockets cfg = [] \<and> \<not> dangerously_allow_all_unix_sockets cfg then (http, socks)
         else ((loopback_v4, snd http), (loopback_v4, snd socks)))"

record runtime_config =
  http_addr :: socket_addr
  socks_addr :: socket_addr

definition resolve_runtime ::
  "(rstr \<Rightarrow> (rstr \<times> nat option) option) \<Rightarrow> rstr option \<Rightarrow> rstr option \<Rightarrow> network_proxy_settings \<Rightarrow>
   (settings_error, runtime_config) rresult" where
  "resolve_runtime url_parts home_dir current_dir cfg =
     (case validate_unix_socket_allowlist_paths home_dir current_dir cfg of
        Inl e \<Rightarrow> Inl e
      | Inr _ \<Rightarrow>
          (case resolve_addr url_parts (proxy_url cfg) 3128 of
             Inl e \<Rightarrow> Inl (InvalidProxyUrl (proxy_url cfg) e)
           | Inr http \<Rightarrow>
               (case resolve_addr url_parts (socks_url cfg) 8081 of
                  Inl e \<Rightarrow> Inl (InvalidSocksUrl (socks_url cfg) e)
                | Inr socks \<Rightarrow>
                    (let (h, s) = clamp_bind_addrs http socks cfg
                     in Inr \<lparr>http_addr = h, socks_addr = s\<rparr>))))"

section \<open>Lemmas on domains\<close>

definition has_entry :: "network_domain_permission_entry list \<Rightarrow> rstr \<Rightarrow> network_domain_permission \<Rightarrow> bool" where
  "has_entry es p permission \<longleftrightarrow>
     list_ex (\<lambda>e. entry_pattern e = p \<and> entry_permission e = permission) es"

lemma has_entry_simps [simp]:
  "\<not> has_entry [] p perm"
  "has_entry (e # es) p perm \<longleftrightarrow> entry_pattern e = p \<and> entry_permission e = perm \<or> has_entry es p perm"
  "has_entry (es @ es') p perm \<longleftrightarrow> has_entry es p perm \<or> has_entry es' p perm"
  by (simp_all add: has_entry_def)

definition strongest :: "network_domain_permission_entry list \<Rightarrow> rstr \<Rightarrow> network_domain_permission option" where
  "strongest es p =
     (if has_entry es p PermDeny then Some PermDeny
      else if has_entry es p PermAllow then Some PermAllow
      else if has_entry es p PermNone then Some PermNone else None)"

lemma count_entries:
  "\<exists>order. foldl count_entry ([], \<lambda>_. None) es = (order, strongest es) \<and>
     distinct order \<and> (\<forall>p. p \<in> set order \<longleftrightarrow> strongest es p \<noteq> None)"
proof (induction es rule: rev_induct)
  case Nil
  then show ?case by (auto simp: strongest_def)
next
  case (snoc e es)
  then obtain order where IH: "foldl count_entry ([], \<lambda>_. None) es = (order, strongest es)" "distinct order"
      "\<forall>p. p \<in> set order \<longleftrightarrow> strongest es p \<noteq> None"
    by blast
  let ?p = "entry_pattern e"
  have other: "strongest (es @ [e]) q = strongest es q" if "q \<noteq> ?p" for q
    using that by (simp add: strongest_def)
  have same: "strongest (es @ [e]) ?p = Some (case strongest es ?p of None \<Rightarrow> entry_permission e
      | Some c \<Rightarrow> if permission_rank (entry_permission e) > permission_rank c then entry_permission e else c)"
    by (cases "entry_permission e") (simp_all add: strongest_def)
  have "(strongest es)(?p := Some (case strongest es ?p of None \<Rightarrow> entry_permission e
      | Some c \<Rightarrow> if permission_rank (entry_permission e) > permission_rank c then entry_permission e else c)) =
      strongest (es @ [e])"
    using other same by (intro ext) auto
  then have "foldl count_entry ([], \<lambda>_. None) (es @ [e]) =
      (if strongest es ?p = None then order @ [?p] else order, strongest (es @ [e]))"
    by (auto simp: IH(1) count_entry_def Let_def split: option.splits if_splits)
  moreover have "(q \<in> set (if strongest es ?p = None then order @ [?p] else order)) \<longleftrightarrow>
      strongest (es @ [e]) q \<noteq> None" for q
    using IH(3) other[of q] same by (cases "q = ?p") auto
  moreover have "distinct (if strongest es ?p = None then order @ [?p] else order)"
    using IH(2,3) by auto
  ultimately show ?case by blast
qed

lemma take_effective_map:
  "distinct ps \<Longrightarrow> (\<And>p. p \<in> set ps \<Longrightarrow> m p \<noteq> None) \<Longrightarrow>
   take_effective ps m = map (\<lambda>p. \<lparr>entry_pattern = p, entry_permission = the (m p)\<rparr>) ps"
proof (induction ps arbitrary: m)
  case (Cons p ps)
  then have "take_effective ps (m(p := None)) =
      map (\<lambda>q. \<lparr>entry_pattern = q, entry_permission = the (m q)\<rparr>) ps"
    by (subst Cons.IH) auto
  moreover obtain q where "m p = Some q" using Cons.prems(2)[of p] by auto
  ultimately show ?case by simp
qed simp

lemma effective_entries_spec:
  "distinct (map entry_pattern (effective_entries es))"
  "e \<in> set (effective_entries es) \<longleftrightarrow> strongest es (entry_pattern e) = Some (entry_permission e)"
proof -
  obtain order where o: "foldl count_entry ([], \<lambda>_. None) es = (order, strongest es)" "distinct order"
      "\<forall>p. p \<in> set order \<longleftrightarrow> strongest es p \<noteq> None"
    using count_entries by blast
  then have eff: "effective_entries es =
      map (\<lambda>p. \<lparr>entry_pattern = p, entry_permission = the (strongest es p)\<rparr>) order"
    using take_effective_map[of order "strongest es"] by (simp add: effective_entries_def)
  show "distinct (map entry_pattern (effective_entries es))"
    using o(2) by (simp add: eff o_def)
  show "e \<in> set (effective_entries es) \<longleftrightarrow> strongest es (entry_pattern e) = Some (entry_permission e)"
    using o(3) by (cases e) (auto simp: eff image_iff)
qed

lemma domain_entries_iff:
  "p \<in> set (or_empty (domain_entries cfg perm)) \<longleftrightarrow> strongest (or_empty (domains cfg)) p = Some perm"
proof (cases "domains cfg")
  case None
  then show ?thesis by (simp add: domain_entries_def or_empty_def strongest_def)
next
  case (Some es)
  have "p \<in> set (map entry_pattern (filter (\<lambda>e. entry_permission e = perm) (effective_entries es))) \<longleftrightarrow>
      strongest es p = Some perm"
  proof -
    have "strongest es p = Some perm \<Longrightarrow>
        \<lparr>entry_pattern = p, entry_permission = perm\<rparr> \<in> set (effective_entries es)"
      by (simp add: effective_entries_spec)
    moreover have "p \<in> entry_pattern ` {e \<in> set (effective_entries es). entry_permission e = perm} \<Longrightarrow>
        strongest es p = Some perm"
      by (auto simp: effective_entries_spec)
    ultimately show ?thesis by (auto simp: image_iff)
  qed
  with Some show ?thesis by (auto simp: domain_entries_def or_empty_def Let_def filter_empty_conv)
qed

lemma denied_iff: "p \<in> set (or_empty (denied_domains cfg)) \<longleftrightarrow> has_entry (or_empty (domains cfg)) p PermDeny"
  by (simp add: denied_domains_def domain_entries_iff strongest_def)

lemma allowed_iff:
  "p \<in> set (or_empty (allowed_domains cfg)) \<longleftrightarrow>
   has_entry (or_empty (domains cfg)) p PermAllow \<and> \<not> has_entry (or_empty (domains cfg)) p PermDeny"
  by (simp add: allowed_domains_def domain_entries_iff strongest_def)

lemma or_empty_nonempty_some [simp]: "or_empty (nonempty_some xs) = xs"
  by (simp add: or_empty_def nonempty_some_def)

lemma has_entry_upsert:
  "has_entry (or_empty (domains (upsert_domain_permission host q normal cfg))) p r \<longleftrightarrow>
     (p = host \<and> r = q) \<or> normal p \<noteq> normal host \<and> has_entry (or_empty (domains cfg)) p r"
proof -
  let ?es = "filter (\<lambda>e. normal (entry_pattern e) \<noteq> normal host) (or_empty (domains cfg)) @
     [\<lparr>entry_pattern = host, entry_permission = q\<rparr>]"
  have "or_empty (domains (upsert_domain_permission host q normal cfg)) = ?es"
    unfolding upsert_domain_permission_def by simp
  then show ?thesis by (auto simp: has_entry_def list_ex_iff)
qed

lemma has_entry_push_missing:
  "has_entry (push_missing perm ps es) p q \<longleftrightarrow> has_entry es p q \<or> (q = perm \<and> p \<in> set ps)"
  by (induction perm ps es rule: push_missing.induct) (auto simp: has_entry_def)

lemma has_entry_filter:
  "has_entry (filter (\<lambda>e. entry_permission e \<noteq> perm) es) p q \<longleftrightarrow> q \<noteq> perm \<and> has_entry es p q"
  by (induction es) auto

lemma set_domain_entries_has:
  "has_entry (or_empty (domains (set_domain_entries ps perm cfg))) p q \<longleftrightarrow>
   (if q = perm then p \<in> set ps else has_entry (or_empty (domains cfg)) p q)"
  by (simp add: set_domain_entries_def has_entry_push_missing has_entry_filter)

text \<open>
  Deny wins over allow: whatever the order and the repetitions of the entries, a domain is
  on the denied list exactly when an entry denies it, and on the allowed list exactly when
  an entry allows it and none denies it; setting one of the lists replaces it, keeps the
  entries of the other and lets the denials win.
\<close>

theorem deny_entries_win:
  "(p \<in> set (or_empty (denied_domains cfg)) \<longleftrightarrow> has_entry (or_empty (domains cfg)) p PermDeny) \<and>
   (p \<in> set (or_empty (allowed_domains cfg)) \<longleftrightarrow>
      has_entry (or_empty (domains cfg)) p PermAllow \<and> \<not> has_entry (or_empty (domains cfg)) p PermDeny) \<and>
   set (or_empty (denied_domains (set_denied_domains ps cfg))) = set ps \<and>
   set (or_empty (denied_domains (set_allowed_domains ps cfg))) = set (or_empty (denied_domains cfg)) \<and>
   set (or_empty (allowed_domains (set_allowed_domains ps cfg))) =
     set ps - set (or_empty (denied_domains cfg))"
  by (auto simp: denied_iff allowed_iff set_denied_domains_def set_allowed_domains_def set_domain_entries_has)

section \<open>Lemmas on addresses\<close>

lemma loopback_v4: "ip_is_loopback loopback_v4"
  by code_simp

lemma clamped:
  "snd (clamp_non_loopback a b) = snd a"
  "ip_is_loopback (fst (clamp_non_loopback a b)) \<or> b \<and> clamp_non_loopback a b = a"
  by (auto simp: clamp_non_loopback_def loopback_v4)

text \<open>
  The addresses the proxy binds are loopback addresses with the configured ports, unless
  binding elsewhere was allowed and no Unix socket can be reached through the proxy.
\<close>

theorem bound_addresses_local:
  "(let (h, s) = clamp_bind_addrs http socks cfg in
    snd h = snd http \<and> snd s = snd socks \<and>
    (if dangerously_allow_non_loopback_proxy cfg \<and> allow_unix_sockets cfg = [] \<and>
        \<not> dangerously_allow_all_unix_sockets cfg
     then h = http \<and> s = socks
     else ip_is_loopback (fst h) \<and> ip_is_loopback (fst s)))"
  by (auto simp: clamp_bind_addrs_def Let_def clamp_non_loopback_def loopback_v4)
end
