(* ===== verification/Mitm_Hooks.thy ===== *)
theory Mitm_Hooks
  imports Network_Settings
begin

text \<open>
  \<open>network-proxy/src/mitm_hook.rs\<close>: hooks on intercepted requests, their validation, their
  compilation by host and their evaluation. What the code asks of the crates \<open>http\<close>,
  \<open>globset\<close> and \<open>url\<close>, of the environment and of the file system is the record \<open>hook_env\<close>.
\<close>

section \<open>Vocabulary\<close>

record hook_env =
  he_header_name :: "rstr \<Rightarrow> rstr option"
  he_header_value :: "rstr \<Rightarrow> rstr option"
  he_glob_valid :: "bool \<Rightarrow> rstr \<Rightarrow> bool"
  he_glob_match :: "bool \<Rightarrow> rstr \<Rightarrow> rstr \<Rightarrow> bool"
  he_form_parse :: "rstr \<Rightarrow> (rstr \<times> rstr) list"
  he_env_var :: "rstr \<Rightarrow> rstr option"
  he_read_file :: "rstr \<Rightarrow> rstr option"
  he_home :: "rstr option"
  he_cwd :: "rstr option"

datatype hook_error =
    HooksRequireMitm
  | InvalidHookField nat rstr hook_error
  | HookFieldEmpty nat rstr
  | HookBodyReserved nat
  | EmptyHookHost
  | WildcardHookHost
  | EmptyMethod
  | EmptyPathPrefix
  | EmptyGlobPattern
  | InvalidHookGlob rstr
  | EmptyQueryKey
  | QueryKeyWithoutValues rstr
  | InvalidQueryMatcher rstr hook_error
  | InvalidHeaderMatcher rstr hook_error
  | InvalidHeaderName rstr
  | EmptySecretEnvVar
  | EmptySecretFile
  | SecretFileNotAbsolute rstr
  | NotExactlyOneSecret
  | MissingEnvVar rstr
  | UnreadableSecretFile rstr
  | InvalidHeaderValue rstr
  | InjectedHeaderFailed rstr hook_error

text \<open>A compiled glob is its pattern with the flag for separators.\<close>

datatype path_matcher = PathPrefix rstr | PathGlob bool rstr

datatype value_matcher = ExactValue rstr | ValueGlob bool rstr

datatype matcher_pattern = LiteralPattern rstr | GlobPattern rstr

datatype secret_source = FromEnvVar rstr | FromFile rstr

record query_constraint =
  qc_name :: rstr
  qc_allowed_values :: "value_matcher list"

record header_constraint =
  hc_name :: rstr
  hc_allowed_values :: "value_matcher list"

record resolved_injected_header =
  ri_name :: rstr
  ri_value :: rstr
  ri_source :: secret_source

record mitm_hook_matcher =
  mm_methods :: "rstr list"
  mm_path_prefixes :: "path_matcher list"
  mm_query :: "query_constraint list"
  mm_headers :: "header_constraint list"

record mitm_hook_actions =
  ma_strip_request_headers :: "rstr list"
  ma_inject_request_headers :: "resolved_injected_header list"

record mitm_hook =
  mh_host :: rstr
  mh_matcher :: mitm_hook_matcher
  mh_actions :: mitm_hook_actions

type_synonym mitm_hooks_by_host = "(rstr \<times> mitm_hook list) list"

datatype hook_evaluation = NoHooksForHost | Matched mitm_hook_actions | HookedHostNoMatch

text \<open>A header value that is not visible ASCII has no text.\<close>

record http_request =
  rq_method :: rstr
  rq_path :: rstr
  rq_query :: "rstr option"
  rq_headers :: "(rstr \<times> rstr option) list"

definition to_ascii_uppercase :: "rstr \<Rightarrow> rstr" where
  "to_ascii_uppercase s = map (\<lambda>c. if 97 \<le> c \<and> c \<le> 122 then c - 32 else c) s"

text \<open>\<open>collect::<Result<Vec<_>>>\<close>: the results in order, or the first error.\<close>

fun try_map :: "('a \<Rightarrow> ('e, 'b) rresult) \<Rightarrow> 'a list \<Rightarrow> ('e, 'b list) rresult" where
  "try_map f [] = Inr []"
| "try_map f (x # xs) =
     (case f x of
        Inl e \<Rightarrow> Inl e
      | Inr y \<Rightarrow> (case try_map f xs of Inl e \<Rightarrow> Inl e | Inr ys \<Rightarrow> Inr (y # ys)))"

definition with_ctx :: "('e \<Rightarrow> 'f) \<Rightarrow> ('e, 'a) rresult \<Rightarrow> ('f, 'a) rresult" where
  "with_ctx ctx r = (case r of Inl e \<Rightarrow> Inl (ctx e) | Inr x \<Rightarrow> Inr x)"

definition and_then :: "('e, 'a) rresult \<Rightarrow> ('a \<Rightarrow> ('e, 'b) rresult) \<Rightarrow> ('e, 'b) rresult" where
  "and_then r k = (case r of Inl e \<Rightarrow> Inl e | Inr x \<Rightarrow> k x)"

section \<open>Fields\<close>

definition LITERAL_PREFIX :: rstr where "LITERAL_PREFIX = lit ''literal:''"
definition PATTERN_PREFIX :: rstr where "PATTERN_PREFIX = lit ''pattern:''"

definition parse_matcher_pattern :: "rstr \<Rightarrow> (hook_error, matcher_pattern) rresult" where
  "parse_matcher_pattern pattern =
     (case strip_prefix LITERAL_PREFIX pattern of
        Some literal \<Rightarrow> Inr (LiteralPattern literal)
      | None \<Rightarrow>
          (case strip_prefix PATTERN_PREFIX pattern of
             None \<Rightarrow> Inr (LiteralPattern pattern)
           | Some glob \<Rightarrow> if glob = [] then Inl EmptyGlobPattern else Inr (GlobPattern glob)))"

definition compile_glob_matcher :: "hook_env \<Rightarrow> rstr \<Rightarrow> bool \<Rightarrow> (hook_error, bool \<times> rstr) rresult" where
  "compile_glob_matcher env pattern literal_separator =
     (if he_glob_valid env literal_separator pattern then Inr (literal_separator, pattern)
      else Inl (InvalidHookGlob pattern))"

definition compile_path_matcher :: "hook_env \<Rightarrow> rstr \<Rightarrow> (hook_error, path_matcher) rresult" where
  "compile_path_matcher env p =
     and_then (parse_matcher_pattern p)
       (\<lambda>m. case m of
          LiteralPattern l \<Rightarrow> if l = [] then Inl EmptyPathPrefix else Inr (PathPrefix l)
        | GlobPattern g \<Rightarrow>
            and_then (compile_glob_matcher env g True) (\<lambda>(sep, g'). Inr (PathGlob sep g')))"

definition compile_path_matchers :: "hook_env \<Rightarrow> rstr list \<Rightarrow> (hook_error, path_matcher list) rresult" where
  "compile_path_matchers env ps = try_map (compile_path_matcher env) ps"

definition compile_value_matcher :: "hook_env \<Rightarrow> rstr \<Rightarrow> (hook_error, value_matcher) rresult" where
  "compile_value_matcher env v =
     and_then (parse_matcher_pattern v)
       (\<lambda>m. case m of
          LiteralPattern l \<Rightarrow> Inr (ExactValue l)
        | GlobPattern g \<Rightarrow>
            and_then (compile_glob_matcher env g False) (\<lambda>(sep, g'). Inr (ValueGlob sep g')))"

definition compile_value_matchers :: "hook_env \<Rightarrow> rstr list \<Rightarrow> (hook_error, value_matcher list) rresult" where
  "compile_value_matchers env vs = try_map (compile_value_matcher env) vs"

definition normalize_hook_host :: "rstr \<Rightarrow> (hook_error, rstr) rresult" where
  "normalize_hook_host host =
     (let normalized = normalize_host host in
      if normalized = [] then Inl EmptyHookHost
      else if 42 \<in> set normalized then Inl WildcardHookHost
      else Inr normalized)"

definition normalize_method :: "rstr \<Rightarrow> (hook_error, rstr) rresult" where
  "normalize_method method =
     (let normalized = to_ascii_uppercase (trim method)
      in if normalized = [] then Inl EmptyMethod else Inr normalized)"

definition normalize_methods :: "rstr list \<Rightarrow> (hook_error, rstr list) rresult" where
  "normalize_methods ms = try_map normalize_method ms"

definition normalize_query_name :: "rstr \<Rightarrow> (hook_error, rstr) rresult" where
  "normalize_query_name name = (if name = [] then Inl EmptyQueryKey else Inr name)"

fun validate_query_constraints ::
  "hook_env \<Rightarrow> (rstr \<times> rstr list) list \<Rightarrow> (hook_error, unit) rresult" where
  "validate_query_constraints env [] = Inr ()"
| "validate_query_constraints env ((name, vs) # q) =
     and_then (normalize_query_name name)
       (\<lambda>normalized.
          if normalized = [] then Inl EmptyQueryKey
          else if vs = [] then Inl (QueryKeyWithoutValues name)
          else and_then (with_ctx (InvalidQueryMatcher name) (compile_value_matchers env vs))
            (\<lambda>_. validate_query_constraints env q))"

definition parse_header_name :: "hook_env \<Rightarrow> rstr \<Rightarrow> (hook_error, rstr) rresult" where
  "parse_header_name env name =
     (case he_header_name env name of None \<Rightarrow> Inl (InvalidHeaderName name) | Some n \<Rightarrow> Inr n)"

fun validate_header_constraints ::
  "hook_env \<Rightarrow> (rstr \<times> rstr list) list \<Rightarrow> (hook_error, unit) rresult" where
  "validate_header_constraints env [] = Inr ()"
| "validate_header_constraints env ((name, vs) # hs) =
     and_then (parse_header_name env name)
       (\<lambda>_. and_then (with_ctx (InvalidHeaderMatcher name) (compile_value_matchers env vs))
          (\<lambda>_. validate_header_constraints env hs))"

fun validate_strip_request_headers :: "hook_env \<Rightarrow> rstr list \<Rightarrow> (hook_error, unit) rresult" where
  "validate_strip_request_headers env [] = Inr ()"
| "validate_strip_request_headers env (n # ns) =
     and_then (parse_header_name env n) (\<lambda>_. validate_strip_request_headers env ns)"

definition parse_secret_file :: "hook_env \<Rightarrow> rstr \<Rightarrow> (hook_error, rstr) rresult" where
  "parse_secret_file env path =
     (if trim path = [] then Inl EmptySecretFile
      else if \<not> is_absolute path then Inl (SecretFileNotAbsolute path)
      else case from_absolute_path (he_home env) (he_cwd env) path of
        None \<Rightarrow> Inl (SecretFileNotAbsolute path)
      | Some p \<Rightarrow> Inr p)"

definition validate_injected_header :: "hook_env \<Rightarrow> injected_header_config \<Rightarrow> (hook_error, unit) rresult" where
  "validate_injected_header env header =
     and_then (parse_header_name env (ih_name header))
       (\<lambda>_. case (ih_secret_env_var header, ih_secret_file header) of
          (Some v, None) \<Rightarrow> if trim v = [] then Inl EmptySecretEnvVar else Inr ()
        | (None, Some f) \<Rightarrow> and_then (parse_secret_file env f) (\<lambda>_. Inr ())
        | _ \<Rightarrow> Inl NotExactlyOneSecret)"

fun validate_injected_headers ::
  "hook_env \<Rightarrow> injected_header_config list \<Rightarrow> (hook_error, unit) rresult" where
  "validate_injected_headers env [] = Inr ()"
| "validate_injected_headers env (h # hs) =
     and_then (validate_injected_header env h) (\<lambda>_. validate_injected_headers env hs)"

section \<open>Validation\<close>

definition validate_hook :: "hook_env \<Rightarrow> nat \<Rightarrow> mitm_hook_config \<Rightarrow> (hook_error, unit) rresult" where
  "validate_hook env i hook =
     (let matcher = hook_matcher hook; acts = hook_actions hook; ctx = InvalidHookField i in
      and_then (with_ctx (ctx (lit ''host'')) (normalize_hook_host (hook_host hook))) (\<lambda>host.
      and_then (with_ctx (ctx (lit ''match.methods'')) (normalize_methods (hm_methods matcher))) (\<lambda>methods.
      if methods = [] then Inl (HookFieldEmpty i (lit ''match.methods''))
      else and_then (with_ctx (ctx (lit ''match.path_prefixes''))
             (compile_path_matchers env (hm_path_prefixes matcher))) (\<lambda>path_prefixes.
      if path_prefixes = [] then Inl (HookFieldEmpty i (lit ''match.path_prefixes''))
      else if hm_body matcher \<noteq> None then Inl (HookBodyReserved i)
      else and_then (with_ctx (ctx (lit ''match.query''))
             (validate_query_constraints env (hm_query matcher))) (\<lambda>_.
      and_then (with_ctx (ctx (lit ''match.headers''))
             (validate_header_constraints env (hm_headers matcher))) (\<lambda>_.
      and_then (with_ctx (ctx (lit ''actions.strip_request_headers''))
             (validate_strip_request_headers env (ha_strip_request_headers acts))) (\<lambda>_.
      and_then (with_ctx (ctx (lit ''actions.inject_request_headers''))
             (validate_injected_headers env (ha_inject_request_headers acts))) (\<lambda>_.
      if host = [] then Inl (HookFieldEmpty i (lit ''host'')) else Inr ()))))))))"

fun validate_hooks :: "hook_env \<Rightarrow> nat \<Rightarrow> mitm_hook_config list \<Rightarrow> (hook_error, unit) rresult" where
  "validate_hooks env i [] = Inr ()"
| "validate_hooks env i (h # hs) = and_then (validate_hook env i h) (\<lambda>_. validate_hooks env (Suc i) hs)"

definition validate_mitm_hook_config ::
  "hook_env \<Rightarrow> network_proxy_settings \<Rightarrow> (hook_error, unit) rresult" where
  "validate_mitm_hook_config env cfg =
     (if mitm_hooks cfg = [] then Inr ()
      else if \<not> mitm cfg then Inl HooksRequireMitm
      else validate_hooks env 0 (mitm_hooks cfg))"

section \<open>Compilation\<close>

definition compile_injected_header ::
  "hook_env \<Rightarrow> injected_header_config \<Rightarrow> (hook_error, resolved_injected_header) rresult" where
  "compile_injected_header env header =
     and_then (parse_header_name env (ih_name header)) (\<lambda>name.
     and_then
       (case (ih_secret_env_var header, ih_secret_file header) of
          (Some v, None) \<Rightarrow>
            (case he_env_var env v of
               None \<Rightarrow> Inl (MissingEnvVar v)
             | Some secret \<Rightarrow> Inr (secret, FromEnvVar v))
        | (None, Some f) \<Rightarrow>
            and_then (parse_secret_file env f) (\<lambda>path.
              case he_read_file env path of
                None \<Rightarrow> Inl (UnreadableSecretFile path)
              | Some content \<Rightarrow> Inr (trim content, FromFile path))
        | _ \<Rightarrow> Inl NotExactlyOneSecret) (\<lambda>(secret, source).
     case he_header_value env ((case ih_prefix header of Some p \<Rightarrow> p | None \<Rightarrow> []) @ secret) of
       None \<Rightarrow> Inl (InvalidHeaderValue (ih_name header))
     | Some v \<Rightarrow> Inr \<lparr>ri_name = name, ri_value = v, ri_source = source\<rparr>))"

definition compile_query :: "hook_env \<Rightarrow> rstr \<times> rstr list \<Rightarrow> (hook_error, query_constraint) rresult" where
  "compile_query env q =
     and_then (normalize_query_name (fst q)) (\<lambda>name.
     and_then (compile_value_matchers env (snd q)) (\<lambda>vs.
     Inr \<lparr>qc_name = name, qc_allowed_values = vs\<rparr>))"

definition compile_header :: "hook_env \<Rightarrow> rstr \<times> rstr list \<Rightarrow> (hook_error, header_constraint) rresult" where
  "compile_header env h =
     and_then (parse_header_name env (fst h)) (\<lambda>name.
     and_then (compile_value_matchers env (snd h)) (\<lambda>vs.
     Inr \<lparr>hc_name = name, hc_allowed_values = vs\<rparr>))"

definition compile_hook :: "hook_env \<Rightarrow> mitm_hook_config \<Rightarrow> (hook_error, mitm_hook) rresult" where
  "compile_hook env hook =
     (let matcher = hook_matcher hook; acts = hook_actions hook in
      and_then (normalize_hook_host (hook_host hook)) (\<lambda>host.
      and_then (normalize_methods (hm_methods matcher)) (\<lambda>methods.
      and_then (compile_path_matchers env (hm_path_prefixes matcher)) (\<lambda>path_prefixes.
      and_then (try_map (compile_query env) (hm_query matcher)) (\<lambda>query.
      and_then (try_map (compile_header env) (hm_headers matcher)) (\<lambda>headers.
      and_then (try_map (parse_header_name env) (ha_strip_request_headers acts)) (\<lambda>strip.
      and_then
        (try_map (\<lambda>h. with_ctx (InjectedHeaderFailed (ih_name h)) (compile_injected_header env h))
           (ha_inject_request_headers acts)) (\<lambda>inject.
      Inr \<lparr>mh_host = host,
           mh_matcher = \<lparr>mm_methods = methods, mm_path_prefixes = path_prefixes, mm_query = query,
                         mm_headers = headers\<rparr>,
           mh_actions = \<lparr>ma_strip_request_headers = strip, ma_inject_request_headers = inject\<rparr>\<rparr>))))))))"

text \<open>\<open>entry(host).or_default().push(hook)\<close> on the ordered map.\<close>

definition push_hook :: "mitm_hook \<Rightarrow> mitm_hooks_by_host \<Rightarrow> mitm_hooks_by_host" where
  "push_hook hook m =
     btree_insert (mh_host hook)
       ((case map_of m (mh_host hook) of Some hs \<Rightarrow> hs | None \<Rightarrow> []) @ [hook]) m"

fun compile_hooks ::
  "hook_env \<Rightarrow> mitm_hook_config list \<Rightarrow> mitm_hooks_by_host \<Rightarrow> (hook_error, mitm_hooks_by_host) rresult" where
  "compile_hooks env [] m = Inr m"
| "compile_hooks env (h # hs) m =
     and_then (compile_hook env h) (\<lambda>hook. compile_hooks env hs (push_hook hook m))"

definition compile_mitm_hooks ::
  "hook_env \<Rightarrow> network_proxy_settings \<Rightarrow> (hook_error, mitm_hooks_by_host) rresult" where
  "compile_mitm_hooks env cfg =
     and_then (validate_mitm_hook_config env cfg) (\<lambda>_. compile_hooks env (mitm_hooks cfg) [])"

section \<open>Evaluation\<close>

fun path_matcher_matches :: "hook_env \<Rightarrow> rstr \<Rightarrow> path_matcher \<Rightarrow> bool" where
  "path_matcher_matches env candidate (PathPrefix p) = starts_with p candidate"
| "path_matcher_matches env candidate (PathGlob sep g) = he_glob_match env sep g candidate"

fun value_matcher_matches :: "hook_env \<Rightarrow> rstr \<Rightarrow> value_matcher \<Rightarrow> bool" where
  "value_matcher_matches env candidate (ExactValue v) = (v = candidate)"
| "value_matcher_matches env candidate (ValueGlob sep g) = he_glob_match env sep g candidate"

definition path_matches :: "hook_env \<Rightarrow> path_matcher list \<Rightarrow> rstr \<Rightarrow> bool" where
  "path_matches env path_prefixes path = list_ex (path_matcher_matches env path) path_prefixes"

text \<open>The values of a query parameter, in order; \<open>None\<close> when the parameter is absent.\<close>

definition actual_values :: "(rstr \<times> rstr) list \<Rightarrow> rstr \<Rightarrow> rstr list option" where
  "actual_values q name = nonempty_some (map snd (filter (\<lambda>(n, _). n = name) q))"

definition query_matches :: "hook_env \<Rightarrow> query_constraint list \<Rightarrow> http_request \<Rightarrow> bool" where
  "query_matches env constraints req =
     (if constraints = [] then True
      else
        (let q = he_form_parse env (case rq_query req of Some s \<Rightarrow> s | None \<Rightarrow> [])
         in list_all (\<lambda>c. case actual_values q (qc_name c) of
              None \<Rightarrow> False
            | Some vs \<Rightarrow>
                list_ex (\<lambda>v. list_ex (value_matcher_matches env v) (qc_allowed_values c)) vs) constraints))"

definition headers_match :: "hook_env \<Rightarrow> header_constraint list \<Rightarrow> http_request \<Rightarrow> bool" where
  "headers_match env constraints req =
     list_all (\<lambda>c.
       (let actual = map snd (filter (\<lambda>(n, _). n = hc_name c) (rq_headers req)) in
        if actual = [] then False
        else if hc_allowed_values c = [] then True
        else list_ex (\<lambda>v. case v of
               None \<Rightarrow> False
             | Some s \<Rightarrow> list_ex (value_matcher_matches env s) (hc_allowed_values c)) actual)) constraints"

definition hook_matches :: "hook_env \<Rightarrow> mitm_hook \<Rightarrow> http_request \<Rightarrow> bool" where
  "hook_matches env hook req =
     (let m = mh_matcher hook in
      if to_ascii_uppercase (rq_method req) \<notin> set (mm_methods m) then False
      else if \<not> path_matches env (mm_path_prefixes m) (rq_path req) then False
      else if \<not> query_matches env (mm_query m) req then False
      else headers_match env (mm_headers m) req)"

fun first_match :: "hook_env \<Rightarrow> mitm_hook list \<Rightarrow> http_request \<Rightarrow> hook_evaluation" where
  "first_match env [] req = HookedHostNoMatch"
| "first_match env (h # hs) req =
     (if hook_matches env h req then Matched (mh_actions h) else first_match env hs req)"

definition evaluate_mitm_hooks ::
  "hook_env \<Rightarrow> mitm_hooks_by_host \<Rightarrow> rstr \<Rightarrow> http_request \<Rightarrow> hook_evaluation" where
  "evaluate_mitm_hooks env hooks_by_host host req =
     (case map_of hooks_by_host (normalize_host host) of
        None \<Rightarrow> NoHooksForHost
      | Some hooks \<Rightarrow> first_match env hooks req)"

section \<open>Results\<close>

lemma and_then_Inr [simp]: "and_then r k = Inr y \<longleftrightarrow> (\<exists>x. r = Inr x \<and> k x = Inr y)"
  by (auto simp: and_then_def split: sum.splits)

lemma and_then_simps [simp]: "and_then (Inr x) k = k x" "and_then (Inl e) k = Inl e"
  by (simp_all add: and_then_def)

lemma with_ctx_Inr [simp]: "with_ctx ctx r = Inr y \<longleftrightarrow> r = Inr y"
  by (auto simp: with_ctx_def split: sum.splits)

lemma try_map_Inr: "try_map f xs = Inr ys \<longleftrightarrow> list_all2 (\<lambda>x y. f x = Inr y) xs ys"
proof (induction xs arbitrary: ys)
  case (Cons x xs)
  then show ?case
    by (simp add: list_all2_Cons1 Cons.IH[symmetric] split: sum.splits) blast
qed auto

lemma try_map_ok: "(\<exists>ys. try_map f xs = Inr ys) \<longleftrightarrow> (\<forall>x \<in> set xs. \<exists>y. f x = Inr y)"
  by (induction xs) (auto split: sum.splits)

lemma try_map_Inl: "try_map f xs = Inl e \<Longrightarrow> \<exists>x \<in> set xs. f x = Inl e"
  by (induction xs) (auto split: sum.splits)

section \<open>Compiled hooks\<close>

lemma map_of_btree_insert: "map_of (btree_insert k v m) = (map_of m)(k \<mapsto> v)"
  by (induction k v m rule: btree_insert.induct) (auto simp: fun_eq_iff)

definition hooks_for :: "rstr \<Rightarrow> mitm_hook list \<Rightarrow> mitm_hook list option" where
  "hooks_for host hs = nonempty_some (filter (\<lambda>h. mh_host h = host) hs)"

lemma push_hook_for:
  "map_of m = (\<lambda>host. hooks_for host hs) \<Longrightarrow> map_of (push_hook hook m) = (\<lambda>host. hooks_for host (hs @ [hook]))"
  by (auto simp: push_hook_def map_of_btree_insert fun_eq_iff hooks_for_def nonempty_some_def)

lemma compile_hooks_for:
  assumes "compile_hooks env cs m = Inr m'" "map_of m = (\<lambda>host. hooks_for host hs)"
  shows "\<exists>hs'. try_map (compile_hook env) cs = Inr hs' \<and> map_of m' = (\<lambda>host. hooks_for host (hs @ hs'))"
  using assms
proof (induction env cs m arbitrary: hs rule: compile_hooks.induct)
  case (1 env m)
  then show ?case by simp
next
  case (2 env c cs m)
  then obtain hook where h: "compile_hook env c = Inr hook" "compile_hooks env cs (push_hook hook m) = Inr m'"
    by auto
  from "2.IH"[OF h(2) push_hook_for[OF "2.prems"(2)]] h(1) show ?case by auto
qed

lemma compile_hook_host: "compile_hook env c = Inr h \<Longrightarrow> mh_host h = normalize_host (hook_host c)"
  by (auto simp: compile_hook_def normalize_hook_host_def Let_def split: if_splits)

text \<open>
  C28. Intercepted requests meet the hooks of their host in the order of the configuration: a
  compiled configuration evaluates a request to the actions of the first hook whose host,
  normalised, is the host of the request and whose conditions hold; without such a hook
  it tells hosts that have hooks from hosts that have none.
\<close>

theorem hooks_in_configured_order:
  assumes "compile_mitm_hooks env cfg = Inr m"
  shows "\<exists>hs. list_all2 (\<lambda>c h. compile_hook env c = Inr h \<and> mh_host h = normalize_host (hook_host c))
      (mitm_hooks cfg) hs \<and>
    evaluate_mitm_hooks env m host req =
      (case filter (\<lambda>h. mh_host h = normalize_host host) hs of
         [] \<Rightarrow> NoHooksForHost
       | here \<Rightarrow> (case filter (\<lambda>h. hook_matches env h req) here of
                    [] \<Rightarrow> HookedHostNoMatch
                  | h # _ \<Rightarrow> Matched (mh_actions h)))"
proof -
  have first: "first_match env hs req = (case filter (\<lambda>h. hook_matches env h req) hs of
      [] \<Rightarrow> HookedHostNoMatch | h # _ \<Rightarrow> Matched (mh_actions h))" for hs
    by (induction hs) auto
  obtain hs where hs: "try_map (compile_hook env) (mitm_hooks cfg) = Inr hs" "map_of m = (\<lambda>host. hooks_for host hs)"
    using assms compile_hooks_for[of env "mitm_hooks cfg" "[]" m "[]"]
    by (auto simp: compile_mitm_hooks_def hooks_for_def nonempty_some_def)
  have "list_all2 (\<lambda>c h. compile_hook env c = Inr h \<and> mh_host h = normalize_host (hook_host c)) (mitm_hooks cfg) hs"
    using hs(1) by (auto simp: try_map_Inr compile_hook_host elim!: list.rel_mono_strong)
  moreover have "evaluate_mitm_hooks env m host req =
      (case filter (\<lambda>h. mh_host h = normalize_host host) hs of
         [] \<Rightarrow> NoHooksForHost
       | here \<Rightarrow> (case filter (\<lambda>h. hook_matches env h req) here of
                    [] \<Rightarrow> HookedHostNoMatch
                  | h # _ \<Rightarrow> Matched (mh_actions h)))"
    using hs(2)
    by (cases "filter (\<lambda>h. mh_host h = normalize_host host) hs")
       (simp_all add: evaluate_mitm_hooks_def hooks_for_def nonempty_some_def first)
  ultimately show ?thesis by blast
qed

text \<open>Two hooks for one host, in two spellings, and a request that only the second accepts.\<close>

definition sample_hook_env :: hook_env where
  "sample_hook_env =
     \<lparr>he_header_name = (\<lambda>n. if n = [] then None else Some (to_ascii_lowercase n)), he_header_value = Some,
      he_glob_valid = (\<lambda>_ _. False), he_glob_match = (\<lambda>_ _ _. False), he_form_parse = (\<lambda>_. []),
      he_env_var = (\<lambda>_. Some (lit ''s3cret'')), he_read_file = (\<lambda>_. None), he_home = None,
      he_cwd = Some (lit ''/'')\<rparr>"

definition sample_hook :: "rstr \<Rightarrow> rstr \<Rightarrow> rstr \<Rightarrow> mitm_hook_config" where
  "sample_hook host method header =
     \<lparr>hook_host = host,
      hook_matcher = \<lparr>hm_methods = [method], hm_path_prefixes = [lit ''/v1''], hm_query = [], hm_headers = [],
        hm_body = None\<rparr>,
      hook_actions = \<lparr>ha_strip_request_headers = [header],
        ha_inject_request_headers = [\<lparr>ih_name = header, ih_secret_env_var = Some (lit ''TOKEN''),
          ih_secret_file = None, ih_prefix = Some (lit ''Bearer '')\<rparr>]\<rparr>\<rparr>"

definition sample_hook_settings :: network_proxy_settings where
  "sample_hook_settings = default_settings\<lparr>mitm := True,
     mitm_hooks := [sample_hook (lit ''api.example.com'') (lit ''post'') (lit ''X-A''),
                    sample_hook (lit ''API.Example.com.'') (lit ''get'') (lit ''X-B'')]\<rparr>"

definition sample_request :: http_request where
  "sample_request = \<lparr>rq_method = lit ''GET'', rq_path = lit ''/v1/models'', rq_query = None, rq_headers = []\<rparr>"

theorem hooks_in_configured_order_witness:
  "\<exists>m hs. compile_mitm_hooks sample_hook_env sample_hook_settings = Inr m \<and>
     list_all2 (\<lambda>c h. compile_hook sample_hook_env c = Inr h \<and> mh_host h = normalize_host (hook_host c))
       (mitm_hooks sample_hook_settings) hs \<and>
     evaluate_mitm_hooks sample_hook_env m (lit ''api.example.com:443'') sample_request =
       (case filter (\<lambda>h. mh_host h = normalize_host (lit ''api.example.com:443'')) hs of
          [] \<Rightarrow> NoHooksForHost
        | here \<Rightarrow> (case filter (\<lambda>h. hook_matches sample_hook_env h sample_request) here of
                     [] \<Rightarrow> HookedHostNoMatch
                   | h # _ \<Rightarrow> Matched (mh_actions h)))"
proof -
  have "\<not> isl (compile_mitm_hooks sample_hook_env sample_hook_settings)" by code_simp
  then obtain m where m: "compile_mitm_hooks sample_hook_env sample_hook_settings = Inr m"
    by (cases "compile_mitm_hooks sample_hook_env sample_hook_settings") auto
  from hooks_in_configured_order[OF m, of "lit ''api.example.com:443''" sample_request] m
  show ?thesis by blast
qed

section \<open>Validated hooks\<close>

definition secret_error :: "hook_error \<Rightarrow> bool" where
  "secret_error e = (case e of MissingEnvVar _ \<Rightarrow> True | UnreadableSecretFile _ \<Rightarrow> True
     | InvalidHeaderValue _ \<Rightarrow> True | _ \<Rightarrow> False)"

lemma validated_query:
  "validate_query_constraints env q = Inr () \<Longrightarrow> \<exists>cs. try_map (compile_query env) q = Inr cs"
  unfolding try_map_ok
  by (induction q) (fastforce simp: compile_query_def split: if_splits)+

lemma validated_headers:
  "validate_header_constraints env hs = Inr () \<Longrightarrow> \<exists>cs. try_map (compile_header env) hs = Inr cs"
  unfolding try_map_ok
  by (induction hs) (fastforce simp: compile_header_def)+

lemma validated_strip:
  "validate_strip_request_headers env ns = Inr () \<Longrightarrow> \<exists>ys. try_map (parse_header_name env) ns = Inr ys"
  unfolding try_map_ok
  by (induction ns) auto

lemma validated_injected:
  "validate_injected_headers env hs = Inr () \<Longrightarrow> h \<in> set hs \<Longrightarrow>
   compile_injected_header env h = Inl e \<Longrightarrow> secret_error e"
  by (induction env hs rule: validate_injected_headers.induct)
     (auto simp: validate_injected_header_def compile_injected_header_def secret_error_def and_then_def
        split: option.splits sum.splits if_splits prod.splits)

lemma validated_hook:
  assumes "validate_hook env i c = Inr ()" "compile_hook env c = Inl e"
  shows "\<exists>n e'. e = InjectedHeaderFailed n e' \<and> secret_error e'"
proof -
  let ?m = "hook_matcher c" and ?a = "hook_actions c"
  obtain host methods prefixes where v:
    "normalize_hook_host (hook_host c) = Inr host" "normalize_methods (hm_methods ?m) = Inr methods"
    "compile_path_matchers env (hm_path_prefixes ?m) = Inr prefixes"
    "validate_query_constraints env (hm_query ?m) = Inr ()"
    "validate_header_constraints env (hm_headers ?m) = Inr ()"
    "validate_strip_request_headers env (ha_strip_request_headers ?a) = Inr ()"
    "validate_injected_headers env (ha_inject_request_headers ?a) = Inr ()"
    using assms(1) by (auto simp: validate_hook_def Let_def split: if_splits)
  obtain q hs strip where ok: "try_map (compile_query env) (hm_query ?m) = Inr q"
    "try_map (compile_header env) (hm_headers ?m) = Inr hs"
    "try_map (parse_header_name env) (ha_strip_request_headers ?a) = Inr strip"
    using validated_query[OF v(4)] validated_headers[OF v(5)] validated_strip[OF v(6)] by blast
  have "try_map (\<lambda>h. with_ctx (InjectedHeaderFailed (ih_name h)) (compile_injected_header env h))
      (ha_inject_request_headers ?a) = Inl e"
    using assms(2) v ok by (simp add: compile_hook_def Let_def and_then_def split: sum.splits)
  from try_map_Inl[OF this] obtain h where h: "h \<in> set (ha_inject_request_headers ?a)"
      "with_ctx (InjectedHeaderFailed (ih_name h)) (compile_injected_header env h) = Inl e"
    by blast
  then show ?thesis
    using validated_injected[OF v(7) h(1)]
    by (cases "compile_injected_header env h") (auto simp: with_ctx_def)
qed

lemma validated_hooks:
  "validate_hooks env i cs = Inr () \<Longrightarrow> compile_hooks env cs m = Inl e \<Longrightarrow>
   \<exists>n e'. e = InjectedHeaderFailed n e' \<and> secret_error e'"
proof (induction env i cs arbitrary: m rule: validate_hooks.induct)
  case (2 env i c cs)
  then show ?case
    by (cases "compile_hook env c") (auto dest: validated_hook)
qed simp

text \<open>
  What validation accepts can be compiled, but for the secrets: when a validated
  configuration does not compile, the failure is that of one injected header whose secret
  is missing, unreadable or no header value.
\<close>

theorem validated_hooks_compile:
  "(case (validate_mitm_hook_config env cfg, compile_mitm_hooks env cfg) of
      (Inl e, r) \<Rightarrow> r = Inl e
    | (Inr _, Inr _) \<Rightarrow> True
    | (Inr _, Inl e) \<Rightarrow> (\<exists>n e'. e = InjectedHeaderFailed n e' \<and> secret_error e'))"
proof (cases "validate_mitm_hook_config env cfg")
  case (Inl e)
  then show ?thesis by (simp add: compile_mitm_hooks_def)
next
  case (Inr u)
  then have "mitm_hooks cfg = [] \<or> validate_hooks env 0 (mitm_hooks cfg) = Inr ()"
    by (auto simp: validate_mitm_hook_config_def split: if_splits)
  then show ?thesis
    using Inr validated_hooks[of env 0 "mitm_hooks cfg" "[]"]
    by (auto simp: compile_mitm_hooks_def split: sum.splits)
qed
end
