(* ===== verification/Network_Constraints.thy ===== *)
theory Network_Constraints
  imports Mitm_Hooks
begin

text \<open>
  \<open>network-proxy/src/state.rs\<close>: a configuration against the constraints of managed
  configuration, and the state built from it. The hash sets of the code are sets; where an
  error prints one, the order of its entries is that of the list it came from. The state of
  the interception (certificates and keys on disk) is a parameter.
\<close>

section \<open>Constraints\<close>

record network_proxy_constraints =
  c_enabled :: "bool option"
  c_mode :: "network_mode option"
  c_allow_upstream_proxy :: "bool option"
  c_dangerously_allow_non_loopback_proxy :: "bool option"
  c_dangerously_allow_all_unix_sockets :: "bool option"
  c_allowed_domains :: "rstr list option"
  c_allowlist_expansion_enabled :: "bool option"
  c_denied_domains :: "rstr list option"
  c_denylist_expansion_enabled :: "bool option"
  c_allow_unix_sockets :: "rstr list option"
  c_allow_local_binding :: "bool option"

text \<open>The texts of an error, before they are formatted.\<close>

datatype constraint_text =
    Plain rstr
  | ShownList "rstr list"
  | ShownMode network_mode
  | ModeOrMoreRestrictive network_mode
  | ShownHookError hook_error

datatype network_proxy_constraint_error = InvalidValue rstr constraint_text constraint_text

definition network_mode_rank :: "network_mode \<Rightarrow> nat" where
  "network_mode_rank m = (case m of Limited \<Rightarrow> 0 | Full \<Rightarrow> 1)"

definition invalid_mitm_hook_configuration :: "hook_error \<Rightarrow> network_proxy_constraint_error" where
  "invalid_mitm_hook_configuration e =
     InvalidValue (lit ''network.mitm_hooks'') (ShownHookError e) (Plain (lit ''valid MITM hook configuration''))"

definition validate_non_global_wildcard_domain_patterns ::
  "rstr \<Rightarrow> rstr list \<Rightarrow> (network_proxy_constraint_error, unit) rresult" where
  "validate_non_global_wildcard_domain_patterns field_name patterns =
     (case find is_global_wildcard_domain_pattern patterns of
        Some p \<Rightarrow>
          Inl (InvalidValue field_name (Plain (trim p))
            (Plain (lit ''exact hosts or scoped wildcards like *.example.com or **.example.com'')))
      | None \<Rightarrow> Inr ())"

text \<open>A switch that the constraints turned off, and a mode above the managed one.\<close>

definition forbid_switch :: "rstr \<Rightarrow> bool \<Rightarrow> bool \<Rightarrow> (network_proxy_constraint_error, unit) rresult" where
  "forbid_switch field_name candidate permitted =
     (if candidate \<and> \<not> permitted
      then Inl (InvalidValue field_name (Plain (lit ''true'')) (Plain (lit ''false (disabled by managed config)'')))
      else Inr ())"

definition validate_mode ::
  "network_mode \<Rightarrow> network_mode option \<Rightarrow> (network_proxy_constraint_error, unit) rresult" where
  "validate_mode candidate max_mode =
     (case max_mode of
        None \<Rightarrow> Inr ()
      | Some m \<Rightarrow>
          if network_mode_rank candidate > network_mode_rank m
          then Inl (InvalidValue (lit ''network.mode'') (ShownMode candidate) (ModeOrMoreRestrictive m))
          else Inr ())"

definition lower_set :: "rstr list \<Rightarrow> rstr set" where
  "lower_set xs = set (map to_ascii_lowercase xs)"

definition missing_entries :: "rstr list \<Rightarrow> rstr set \<Rightarrow> rstr list" where
  "missing_entries required present = filter (\<lambda>e. e \<notin> present) (remdups (map to_ascii_lowercase required))"

definition validate_allowed_domains ::
  "(rstr \<Rightarrow> rstr option) \<Rightarrow> rstr list \<Rightarrow> rstr list \<Rightarrow> bool option \<Rightarrow> rstr list \<Rightarrow>
   (network_proxy_constraint_error, unit) rresult" where
  "validate_allowed_domains url_host candidate denied expansion managed =
     (let field_name = lit ''network.allowed_domains'' in
      and_then (validate_non_global_wildcard_domain_patterns field_name managed) (\<lambda>_.
      case expansion of
        Some True \<Rightarrow>
          (let missing = missing_entries managed (lower_set candidate \<union> lower_set denied)
           in if missing = [] then Inr ()
              else Inl (InvalidValue field_name (Plain (lit ''missing managed allowed_domains entries''))
                     (ShownList missing)))
      | Some False \<Rightarrow>
          (if lower_set candidate = lower_set managed - lower_set denied then Inr ()
           else Inl (InvalidValue field_name (ShownList candidate)
                  (Plain (lit ''must match managed allowed_domains''))))
      | None \<Rightarrow>
          (let invalid = filter (\<lambda>e. \<not> within url_host managed e) candidate
           in if invalid = [] then Inr ()
              else Inl (InvalidValue field_name (ShownList invalid)
                     (Plain (lit ''subset of managed allowed_domains''))))))"

definition validate_denied_domains ::
  "rstr list \<Rightarrow> bool option \<Rightarrow> rstr list \<Rightarrow> (network_proxy_constraint_error, unit) rresult" where
  "validate_denied_domains candidate expansion managed =
     (let field_name = lit ''network.denied_domains'' in
      and_then (validate_non_global_wildcard_domain_patterns field_name managed) (\<lambda>_.
      if expansion = Some False then
        (if lower_set candidate = lower_set managed then Inr ()
         else Inl (InvalidValue field_name (ShownList candidate)
                (Plain (lit ''must match managed denied_domains''))))
      else
        (let missing = missing_entries managed (lower_set candidate)
         in if missing = [] then Inr ()
            else Inl (InvalidValue field_name (Plain (lit ''missing managed denied_domains entries''))
                   (ShownList missing)))))"

definition validate_unix_sockets ::
  "rstr list \<Rightarrow> rstr list \<Rightarrow> (network_proxy_constraint_error, unit) rresult" where
  "validate_unix_sockets candidate managed =
     (let invalid = filter (\<lambda>e. to_ascii_lowercase e \<notin> lower_set managed) candidate
      in if invalid = [] then Inr ()
         else Inl (InvalidValue (lit ''network.allow_unix_sockets'') (ShownList invalid)
                (Plain (lit ''subset of managed allow_unix_sockets''))))"

definition unwrap_or :: "'a option \<Rightarrow> 'a \<Rightarrow> 'a" where
  "unwrap_or x d = (case x of Some y \<Rightarrow> y | None \<Rightarrow> d)"

definition validate_policy_against_constraints ::
  "hook_env \<Rightarrow> (rstr \<Rightarrow> rstr option) \<Rightarrow> network_proxy_settings \<Rightarrow> network_proxy_constraints \<Rightarrow>
   (network_proxy_constraint_error, unit) rresult" where
  "validate_policy_against_constraints henv url_host cfg cons =
     (let allowed = or_empty (allowed_domains cfg);
          denied = or_empty (denied_domains cfg);
          all_sockets = unwrap_or (c_dangerously_allow_all_unix_sockets cons) (c_allow_unix_sockets cons = None)
      in
      and_then (with_ctx invalid_mitm_hook_configuration (validate_mitm_hook_config henv cfg)) (\<lambda>_.
      and_then (validate_non_global_wildcard_domain_patterns (lit ''network.denied_domains'') denied) (\<lambda>_.
      and_then (forbid_switch (lit ''network.enabled'') (enabled cfg) (unwrap_or (c_enabled cons) True)) (\<lambda>_.
      and_then (validate_mode (net_mode cfg) (c_mode cons)) (\<lambda>_.
      and_then (forbid_switch (lit ''network.allow_upstream_proxy'') (allow_upstream_proxy cfg)
                  (unwrap_or (c_allow_upstream_proxy cons) True)) (\<lambda>_.
      and_then (forbid_switch (lit ''network.dangerously_allow_non_loopback_proxy'')
                  (dangerously_allow_non_loopback_proxy cfg)
                  (unwrap_or (c_dangerously_allow_non_loopback_proxy cons) True)) (\<lambda>_.
      and_then (forbid_switch (lit ''network.dangerously_allow_all_unix_sockets'')
                  (dangerously_allow_all_unix_sockets cfg) all_sockets) (\<lambda>_.
      and_then (forbid_switch (lit ''network.allow_local_binding'') (allow_local_binding cfg)
                  (unwrap_or (c_allow_local_binding cons) True)) (\<lambda>_.
      and_then (case c_allowed_domains cons of
                  None \<Rightarrow> Inr ()
                | Some ms \<Rightarrow>
                    validate_allowed_domains url_host allowed denied (c_allowlist_expansion_enabled cons) ms) (\<lambda>_.
      and_then (case c_denied_domains cons of
                  None \<Rightarrow> Inr ()
                | Some ms \<Rightarrow> validate_denied_domains denied (c_denylist_expansion_enabled cons) ms) (\<lambda>_.
      case c_allow_unix_sockets cons of
        None \<Rightarrow> Inr ()
      | Some ms \<Rightarrow> validate_unix_sockets (allow_unix_sockets cfg) ms)))))))))))"

section \<open>The state of the proxy\<close>

record blocked_request =
  br_host :: rstr
  br_reason :: rstr
  br_client :: "rstr option"
  br_method :: "rstr option"
  br_mode :: "network_mode option"
  br_protocol :: rstr
  br_decision :: "rstr option"
  br_source :: "rstr option"
  br_port :: "nat option"
  br_timestamp :: int

record ('s, 'm) config_state =
  config :: network_proxy_settings
  allow_set :: 's
  deny_set :: 's
  mitm_state :: "'m option"
  hooks_by_host :: mitm_hooks_by_host
  constraints :: network_proxy_constraints
  blocked :: "blocked_request list"
  blocked_total :: nat

text \<open>Everything outside the crate that building and using a state relies on.\<close>

record ('e, 'g, 's, 'm) proxy_env =
  pe_glob :: "rstr \<Rightarrow> ('e, 'g) rresult"
  pe_build :: "'g list \<Rightarrow> ('e, 's) rresult"
  pe_match :: "'s \<Rightarrow> rstr \<Rightarrow> bool"
  pe_url_host :: "rstr \<Rightarrow> rstr option"
  pe_mitm_new :: "bool \<Rightarrow> bool \<Rightarrow> ('e, 'm) rresult"
  pe_hooks :: hook_env

datatype 'e state_error =
    SocketPathsError settings_error
  | ConstraintError network_proxy_constraint_error
  | GlobSetError "'e globset_error"
  | HookError hook_error
  | MitmStateError 'e

definition build_config_state ::
  "('e, 'g, 's, 'm) proxy_env \<Rightarrow> network_proxy_settings \<Rightarrow> network_proxy_constraints \<Rightarrow>
   ('e state_error, ('s, 'm) config_state) rresult" where
  "build_config_state env cfg cons =
     and_then (with_ctx SocketPathsError
       (validate_unix_socket_allowlist_paths (he_home (pe_hooks env)) (he_cwd (pe_hooks env)) cfg)) (\<lambda>_.
     let allowed = or_empty (allowed_domains cfg); denied = or_empty (denied_domains cfg) in
     and_then (with_ctx ConstraintError
       (validate_non_global_wildcard_domain_patterns (lit ''network.denied_domains'') denied)) (\<lambda>_.
     and_then (with_ctx GlobSetError (compile_denylist_globset (pe_glob env) (pe_build env) denied)) (\<lambda>dset.
     and_then (with_ctx GlobSetError (compile_allowlist_globset (pe_glob env) (pe_build env) allowed)) (\<lambda>aset.
     and_then (with_ctx HookError (compile_mitm_hooks (pe_hooks env) cfg)) (\<lambda>hooks.
     and_then
       (if mitm cfg
        then and_then (with_ctx MitmStateError
               (pe_mitm_new env (allow_upstream_proxy cfg) (allow_local_binding cfg))) (\<lambda>m. Inr (Some m))
        else Inr None) (\<lambda>mstate.
     Inr \<lparr>config = cfg, allow_set = aset, deny_set = dset, mitm_state = mstate, hooks_by_host = hooks,
          constraints = cons, blocked = [], blocked_total = 0\<rparr>))))))"

section \<open>Case does not matter\<close>

abbreviation lower :: "rstr \<Rightarrow> rstr" where "lower \<equiv> to_ascii_lowercase"

definition caseless :: "rchar \<Rightarrow> bool" where
  "caseless c \<longleftrightarrow> \<not> (65 \<le> c \<and> c \<le> 90) \<and> \<not> (97 \<le> c \<and> c \<le> 122)"

lemma lower_char_caseless:
  "caseless k \<Longrightarrow> to_ascii_lower_char c = k \<longleftrightarrow> c = k"
  "caseless k \<Longrightarrow> k = to_ascii_lower_char c \<longleftrightarrow> k = c"
  by (auto simp: caseless_def to_ascii_lower_char_def)

lemma whitespace_lower [simp]: "is_whitespace (to_ascii_lower_char c) = is_whitespace c"
  by (auto simp: is_whitespace_def to_ascii_lower_char_def)

lemma trim_lower [simp]: "trim (lower s) = lower (trim s)"
  by (simp add: trim_def trim_start_def trim_end_def to_ascii_lowercase_def dropWhile_map o_def rev_map)

lemma strip_prefix_lower:
  "list_all caseless p \<Longrightarrow> strip_prefix p (lower s) = map_option lower (strip_prefix p s)"
  by (induction p s rule: strip_prefix.induct)
     (auto simp: to_ascii_lowercase_def lower_char_caseless)

lemma starts_with_lower: "list_all caseless p \<Longrightarrow> starts_with p (lower s) = starts_with p s"
  by (simp add: starts_with_def strip_prefix_lower)

lemma position_lower: "caseless k \<Longrightarrow> position (\<lambda>c. c = k) (lower s) = position (\<lambda>c. c = k) s"
  by (induction s) (auto simp: to_ascii_lowercase_def lower_char_caseless)

lemma count_list_lower: "caseless k \<Longrightarrow> count_list (lower s) k = count_list s k"
  by (induction s) (auto simp: to_ascii_lowercase_def lower_char_caseless)

lemma split_on_lower: "caseless k \<Longrightarrow> split_on k (lower s) = map lower (split_on k s)"
proof (induction s)
  case (Cons c s)
  obtain p ps where "split_on k s = p # ps" by (metis split_on_nonempty list.exhaust)
  with Cons show ?case by (auto simp: to_ascii_lowercase_def lower_char_caseless)
qed (simp add: to_ascii_lowercase_def)

lemma take_drop_lower: "take i (lower s) = lower (take i s)" "drop i (lower s) = lower (drop i s)"
  by (simp_all add: to_ascii_lowercase_def take_map drop_map)

lemma normalize_dns_lower [simp]:
  "normalize_dns_host_or_ip_literal (lower s) = normalize_dns_host_or_ip_literal s"
  by (simp add: normalize_dns_host_or_ip_literal_def)

lemma caseless_marks [simp]: "caseless 91" "caseless 93" "caseless 58" "caseless 42" "caseless 46"
  by (simp_all add: caseless_def)

lemma normalize_host_lower [simp]: "normalize_host (lower s) = normalize_host s"
proof -
  have "hd (split_on 58 (lower t)) = lower (hd (split_on 58 t))" for t
    by (simp add: split_on_lower hd_map)
  then show ?thesis
    by (auto simp: normalize_host_def Let_def starts_with_lower position_lower count_list_lower
        take_drop_lower split: option.splits)
qed

lemma normalize_pattern_lower [simp]: "normalize_pattern (lower s) = normalize_pattern s"
proof -
  have star: "lower t = lit ''*'' \<longleftrightarrow> t = lit ''*''" for t
    by (auto simp: lit_def to_ascii_lowercase_def lower_char_caseless map_eq_Cons_conv)
  have "list_all caseless (lit ''**.'')" "list_all caseless (lit ''*.'')"
    by (simp_all add: lit_def)
  then show ?thesis
    by (auto simp: normalize_pattern_def Let_def star strip_prefix_lower split: option.splits)
qed

lemma candidates_lower:
  "lower_set ps \<subseteq> lower_set qs \<Longrightarrow> set (candidates ps) \<subseteq> set (candidates qs)"
proof
  fix c
  assume sub: "lower_set ps \<subseteq> lower_set qs" and c: "c \<in> set (candidates ps)"
  obtain p where p: "p \<in> set ps" "c \<in> set (expand_domain_pattern (normalize_pattern p))"
    using c by (auto simp: candidates_def)
  then have "lower p \<in> lower_set qs"
    using sub by (auto simp: lower_set_def)
  then obtain q where "q \<in> set qs" "lower q = lower p"
    by (auto simp: lower_set_def)
  then show "c \<in> set (candidates qs)"
    using p(2) normalize_pattern_lower[of p] normalize_pattern_lower[of q]
    by (auto simp: candidates_def)
qed

section \<open>What validation accepts\<close>

definition switch_ok :: "bool \<Rightarrow> bool option \<Rightarrow> bool" where
  "switch_ok on limit \<longleftrightarrow> \<not> (on \<and> limit = Some False)"

definition within_constraints ::
  "hook_env \<Rightarrow> (rstr \<Rightarrow> rstr option) \<Rightarrow> network_proxy_settings \<Rightarrow> network_proxy_constraints \<Rightarrow> bool" where
  "within_constraints henv url_host cfg cons \<longleftrightarrow>
     validate_mitm_hook_config henv cfg = Inr () \<and>
     list_all (\<lambda>p. \<not> is_global_wildcard_domain_pattern p) (or_empty (denied_domains cfg)) \<and>
     switch_ok (enabled cfg) (c_enabled cons) \<and>
     (case c_mode cons of None \<Rightarrow> True | Some m \<Rightarrow> network_mode_rank (net_mode cfg) \<le> network_mode_rank m) \<and>
     switch_ok (allow_upstream_proxy cfg) (c_allow_upstream_proxy cons) \<and>
     switch_ok (dangerously_allow_non_loopback_proxy cfg) (c_dangerously_allow_non_loopback_proxy cons) \<and>
     (dangerously_allow_all_unix_sockets cfg \<longrightarrow>
        unwrap_or (c_dangerously_allow_all_unix_sockets cons) (c_allow_unix_sockets cons = None)) \<and>
     switch_ok (allow_local_binding cfg) (c_allow_local_binding cons) \<and>
     (case c_allowed_domains cons of
        None \<Rightarrow> True
      | Some ms \<Rightarrow>
          list_all (\<lambda>p. \<not> is_global_wildcard_domain_pattern p) ms \<and>
          (case c_allowlist_expansion_enabled cons of
             Some True \<Rightarrow>
               lower_set ms \<subseteq> lower_set (or_empty (allowed_domains cfg)) \<union> lower_set (or_empty (denied_domains cfg))
           | Some False \<Rightarrow>
               lower_set (or_empty (allowed_domains cfg)) = lower_set ms - lower_set (or_empty (denied_domains cfg))
           | None \<Rightarrow> list_all (within url_host ms) (or_empty (allowed_domains cfg)))) \<and>
     (case c_denied_domains cons of
        None \<Rightarrow> True
      | Some ms \<Rightarrow>
          list_all (\<lambda>p. \<not> is_global_wildcard_domain_pattern p) ms \<and>
          (if c_denylist_expansion_enabled cons = Some False
           then lower_set (or_empty (denied_domains cfg)) = lower_set ms
           else lower_set ms \<subseteq> lower_set (or_empty (denied_domains cfg)))) \<and>
     (case c_allow_unix_sockets cons of
        None \<Rightarrow> True
      | Some ms \<Rightarrow> lower_set (allow_unix_sockets cfg) \<subseteq> lower_set ms)"

lemma no_wildcards_iff:
  "validate_non_global_wildcard_domain_patterns f ps = Inr () \<longleftrightarrow>
   list_all (\<lambda>p. \<not> is_global_wildcard_domain_pattern p) ps"
  by (auto simp: validate_non_global_wildcard_domain_patterns_def find_None_iff list_all_iff find_Some_iff
      split: option.splits)

lemma forbid_switch_iff: "forbid_switch f on permitted = Inr () \<longleftrightarrow> (on \<longrightarrow> permitted)"
  by (simp add: forbid_switch_def)

lemma switch_ok_iff: "(on \<longrightarrow> unwrap_or limit True) \<longleftrightarrow> switch_ok on limit"
  by (cases limit) (auto simp: switch_ok_def unwrap_or_def)

lemma validate_mode_iff:
  "validate_mode m limit = Inr () \<longleftrightarrow>
   (case limit of None \<Rightarrow> True | Some l \<Rightarrow> network_mode_rank m \<le> network_mode_rank l)"
  by (auto simp: validate_mode_def split: option.splits)

lemma missing_entries_iff: "missing_entries ms present = [] \<longleftrightarrow> lower_set ms \<subseteq> present"
  by (auto simp: missing_entries_def lower_set_def filter_empty_conv)

lemma validate_allowed_iff:
  "validate_allowed_domains url_host allowed denied ex ms = Inr () \<longleftrightarrow>
   list_all (\<lambda>p. \<not> is_global_wildcard_domain_pattern p) ms \<and>
   (case ex of
      Some True \<Rightarrow> lower_set ms \<subseteq> lower_set allowed \<union> lower_set denied
    | Some False \<Rightarrow> lower_set allowed = lower_set ms - lower_set denied
    | None \<Rightarrow> list_all (within url_host ms) allowed)"
  by (auto simp: validate_allowed_domains_def Let_def no_wildcards_iff missing_entries_iff
      filter_empty_conv list_all_iff[of "within url_host ms"] split: option.splits bool.splits)

lemma validate_denied_iff:
  "validate_denied_domains denied ex ms = Inr () \<longleftrightarrow>
   list_all (\<lambda>p. \<not> is_global_wildcard_domain_pattern p) ms \<and>
   (if ex = Some False then lower_set denied = lower_set ms else lower_set ms \<subseteq> lower_set denied)"
  by (auto simp: validate_denied_domains_def Let_def no_wildcards_iff missing_entries_iff)

lemma validate_sockets_iff: "validate_unix_sockets ps ms = Inr () \<longleftrightarrow> lower_set ps \<subseteq> lower_set ms"
  by (auto simp: validate_unix_sockets_def Let_def filter_empty_conv lower_set_def)

lemma and_then_unit: "and_then r (\<lambda>_. k) = Inr y \<longleftrightarrow> r = Inr () \<and> k = Inr y"
  by (cases r) auto

lemma case_unit: "(case c of None \<Rightarrow> Inr () | Some ms \<Rightarrow> f ms) = Inr () \<longleftrightarrow>
    (case c of None \<Rightarrow> True | Some ms \<Rightarrow> f ms = Inr ())"
  by (cases c) auto

lemma validate_iff:
  "validate_policy_against_constraints henv url_host cfg cons = Inr () \<longleftrightarrow>
   within_constraints henv url_host cfg cons"
  unfolding validate_policy_against_constraints_def within_constraints_def Let_def and_then_unit with_ctx_Inr
    no_wildcards_iff forbid_switch_iff switch_ok_iff validate_mode_iff case_unit validate_allowed_iff
    validate_denied_iff validate_sockets_iff
  by (rule refl)

section \<open>Managed lists\<close>

lemma built_sets:
  assumes "build_config_state env cfg cons = Inr st"
  shows "compile_globset_with_policy (pe_glob env) (pe_build env) (or_empty (denied_domains cfg)) RejectGlobalWildcard =
      Inr (deny_set st)"
    "compile_globset_with_policy (pe_glob env) (pe_build env) (or_empty (allowed_domains cfg)) AllowGlobalWildcard =
      Inr (allow_set st)"
    "config st = cfg" "constraints st = cons" "blocked st = []" "blocked_total st = 0"
  using assms
  by (auto simp: build_config_state_def Let_def compile_denylist_globset_def compile_allowlist_globset_def)

lemma more_candidates_match:
  assumes "set_law build set_match glob_match"
    and "compile_globset_with_policy glob build ps gw = Inr s"
    and "compile_globset_with_policy glob build qs gw' = Inr s'"
    and "lower_set ps \<subseteq> lower_set qs" "set_match s h"
  shows "set_match s' h"
proof -
  have "globs_of glob (candidates ps) \<subseteq> globs_of glob (candidates qs)"
    using candidates_lower[OF assms(4)] by (auto simp: globs_of_def)
  then show ?thesis
    using assms(5) compiled_match[OF assms(1,2)] compiled_match[OF assms(1,3)] by blast
qed

definition managed_match ::
  "('e, 'g, 's, 'm) proxy_env \<Rightarrow> rstr list \<Rightarrow> rstr \<Rightarrow> bool" where
  "managed_match env ms h =
     (case compile_allowlist_globset (pe_glob env) (pe_build env) ms of
        Inl _ \<Rightarrow> False
      | Inr s \<Rightarrow> pe_match env s h)"

lemma managed_denials:
  assumes "set_law (pe_build env) (pe_match env) glob_match"
    and "build_config_state env cfg cons = Inr st"
    and "within_constraints henv url_host cfg cons" "c_denied_domains cons = Some ms"
    and "managed_match env ms h"
  shows "pe_match env (deny_set st) h"
proof -
  have "lower_set ms \<subseteq> lower_set (or_empty (denied_domains cfg))"
    using assms(3,4) by (auto simp: within_constraints_def split: if_splits)
  then show ?thesis
    using assms(5) more_candidates_match[OF assms(1) _ built_sets(1)[OF assms(2)]]
    by (auto simp: managed_match_def compile_allowlist_globset_def split: sum.splits)
qed


definition bypass_settings :: network_proxy_settings where
  "bypass_settings = set_allowed_domains [lit ''evil.com:*.example.com''] default_settings"

definition bypass_constraints :: network_proxy_constraints where
  "bypass_constraints =
     \<lparr>c_enabled = None, c_mode = None, c_allow_upstream_proxy = None,
      c_dangerously_allow_non_loopback_proxy = None, c_dangerously_allow_all_unix_sockets = None,
      c_allowed_domains = Some [lit ''*.example.com''], c_allowlist_expansion_enabled = None,
      c_denied_domains = None, c_denylist_expansion_enabled = None, c_allow_unix_sockets = None,
      c_allow_local_binding = None\<rparr>"

text \<open>
  C38. Entries that are not plain escape the managed allowlist. The constraint check reads
  \<open>evil.com:*.example.com\<close> as a host below \<open>example.com\<close>, because the wildcard keeps it from
  being parsed as a host; compiling the list strips what follows the colon as a port. So a
  configuration with this entry is accepted under the managed list \<open>*.example.com\<close>, and its
  compiled allowlist is the single host \<open>evil.com\<close>.
\<close>

theorem managed_allowlist_bypassed:
  assumes "url_host (lit ''example.com'') = Some (lit ''example.com'')"
  shows "validate_policy_against_constraints henv url_host bypass_settings bypass_constraints = Inr () \<and>
    candidates (or_empty (allowed_domains bypass_settings)) = [lit ''evil.com''] \<and>
    candidates [lit ''*.example.com''] = [lit ''?*.example.com'']"
proof (intro conjI)
  have allowed: "or_empty (allowed_domains bypass_settings) = [lit ''evil.com:*.example.com'']"
    "or_empty (denied_domains bypass_settings) = []"
    by code_simp+
  show "candidates (or_empty (allowed_domains bypass_settings)) = [lit ''evil.com'']"
    "candidates [lit ''*.example.com''] = [lit ''?*.example.com'']"
    by code_simp+
  have entry: "parse_for_constraints url_host (lit ''evil.com:*.example.com'') = ExactDomain (lit ''evil.com:*.example.com'')"
    by code_simp
  have managed: "parse_for_constraints url_host (lit ''*.example.com'') =
      SubdomainsOnly (parse_domain_for_constraints url_host (lit ''example.com''))"
    by code_simp
  have "dns_name (lit ''example.com'')" "to_ascii_lowercase (lit ''example.com'') = lit ''example.com''"
    by code_simp+
  then have dom: "parse_domain_for_constraints url_host (lit ''example.com'') = lit ''example.com''"
    using constraint_domain_dns[of "lit ''example.com''" url_host] assms by simp
  have "pattern_allows (SubdomainsOnly (lit ''example.com'')) (ExactDomain (lit ''evil.com:*.example.com''))"
    by code_simp
  then have "list_all (within url_host [lit ''*.example.com'']) [lit ''evil.com:*.example.com'']"
    by (simp add: within_def entry managed dom)
  moreover have "\<not> is_global_wildcard_domain_pattern (lit ''*.example.com'')" by code_simp
  moreover have "validate_mitm_hook_config henv bypass_settings = Inr ()"
    "\<not> enabled bypass_settings" "allow_upstream_proxy bypass_settings"
    "\<not> dangerously_allow_non_loopback_proxy bypass_settings"
    "\<not> dangerously_allow_all_unix_sockets bypass_settings" "\<not> allow_local_binding bypass_settings"
    by (simp_all add: validate_mitm_hook_config_def bypass_settings_def default_settings_def
        set_allowed_domains_def set_domain_entries_def)
  ultimately show "validate_policy_against_constraints henv url_host bypass_settings bypass_constraints = Inr ()"
    unfolding validate_iff within_constraints_def allowed
    by (simp add: bypass_constraints_def switch_ok_def)
qed

text \<open>Globs as the documentation describes them, and an entry below the managed one.\<close>

definition sample_glob_match :: "rstr \<Rightarrow> rstr \<Rightarrow> bool" where
  "sample_glob_match g h =
     (case strip_prefix (lit ''?*.'') g of
        Some d \<Rightarrow> ends_with (46 # lower d) (lower h) \<and> length h > Suc (length d)
      | None \<Rightarrow> lower h = lower g)"

definition sample_proxy_env :: "(unit, rstr, rstr list, unit) proxy_env" where
  "sample_proxy_env =
     \<lparr>pe_glob = Inr, pe_build = Inr, pe_match = (\<lambda>gs h. list_ex (\<lambda>g. sample_glob_match g h) gs),
      pe_url_host = (\<lambda>d. Some (lower d)), pe_mitm_new = (\<lambda>_ _. Inr ()), pe_hooks = sample_hook_env\<rparr>"

definition sample_settings :: network_proxy_settings where
  "sample_settings = set_allowed_domains [lit ''api.example.com''] default_settings"

lemma sample_laws:
  "set_law (pe_build sample_proxy_env) (pe_match sample_proxy_env) sample_glob_match"
  "glob_law (pe_glob sample_proxy_env) sample_glob_match"
proof -
  show "set_law (pe_build sample_proxy_env) (pe_match sample_proxy_env) sample_glob_match"
    by (simp add: set_law_def sample_proxy_env_def)
  have plain: "strip_prefix (lit ''?*.'') d = None" if "dns_name d" for d
    using dns_name_facts(3)[OF that] that by (cases d) (auto simp: lit_def dns_name_def)
  have len: "length (lower h) = length h" for h by (simp add: to_ascii_lowercase_def)
  have "ends_with (46 # lower d) (lower h) \<and> length h > Suc (length d) \<longleftrightarrow>
      (\<exists>x. x \<noteq> [] \<and> lower h = x @ 46 # lower d)" for d h
  proof
    assume "\<exists>x. x \<noteq> [] \<and> lower h = x @ 46 # lower d"
    then obtain y x where "lower h = (y # x) @ 46 # lower d" by (auto simp: neq_Nil_conv)
    then show "ends_with (46 # lower d) (lower h) \<and> length h > Suc (length d)"
      using len[of h] len[of d] by (auto simp: ends_with_iff)
  qed (use len[of h] len[of d] in \<open>auto simp: ends_with_iff\<close>)
  then show "glob_law (pe_glob sample_proxy_env) sample_glob_match"
    by (simp add: glob_law_def sample_proxy_env_def sample_glob_match_def plain)
qed

lemma sample_plain:
  "dns_name d \<Longrightarrow> trim e \<in> {d, lit ''*.'' @ d, lit ''**.'' @ d} \<Longrightarrow> plain_entry (pe_url_host sample_proxy_env) e"
  by (auto simp: plain_entry_def sample_proxy_env_def)


theorem managed_allowlist_bypassed_witness:
  "validate_policy_against_constraints sample_hook_env (pe_url_host sample_proxy_env) bypass_settings bypass_constraints =
     Inr () \<and>
   candidates (or_empty (allowed_domains bypass_settings)) = [lit ''evil.com''] \<and>
   candidates [lit ''*.example.com''] = [lit ''?*.example.com'']"
proof -
  have "pe_url_host sample_proxy_env (lit ''example.com'') = Some (lit ''example.com'')" by code_simp
  then show ?thesis by (rule managed_allowlist_bypassed)
qed
end
