(* ===== verification/Network_Proxy.thy ===== *)
theory Network_Proxy
  imports Network_Constraints
begin

text \<open>
  \<open>network-proxy/src/runtime.rs\<close> and the decision of \<open>network-proxy/src/network_policy.rs\<close>:
  the shared state of the proxy, the decision on a host, the record of blocked requests and
  the updates of the policy. What the reloader answers, what a name resolves to and what the
  approval callback decides are arguments of the operations that ask for them. The log lines
  are not modelled; the audit event of a decision is.
\<close>

section \<open>Hosts\<close>

datatype host_block_reason = Denied | NotAllowed | NotAllowedLocal

datatype host_block_decision = Allowed | Blocked host_block_reason

definition REASON_DENIED :: rstr where "REASON_DENIED = lit ''denied''"
definition REASON_NOT_ALLOWED :: rstr where "REASON_NOT_ALLOWED = lit ''not_allowed''"
definition REASON_NOT_ALLOWED_LOCAL :: rstr where "REASON_NOT_ALLOWED_LOCAL = lit ''not_allowed_local''"
definition REASON_POLICY_DENIED :: rstr where "REASON_POLICY_DENIED = lit ''policy_denied''"

fun reason_str :: "host_block_reason \<Rightarrow> rstr" where
  "reason_str Denied = REASON_DENIED"
| "reason_str NotAllowed = REASON_NOT_ALLOWED"
| "reason_str NotAllowedLocal = REASON_NOT_ALLOWED_LOCAL"

datatype dns_answer = DnsAddrs "socket_addr list" | DnsFailed | DnsTimedOut

definition globset_matches_host_or_unscoped :: "('s \<Rightarrow> rstr \<Rightarrow> bool) \<Rightarrow> 's \<Rightarrow> rstr \<Rightarrow> bool" where
  "globset_matches_host_or_unscoped set_match s host \<longleftrightarrow>
     set_match s host \<or> (case unscoped_ip_literal host of Some ip \<Rightarrow> set_match s ip | None \<Rightarrow> False)"

definition is_explicit_local_allowlisted :: "rstr list \<Rightarrow> rstr \<Rightarrow> bool" where
  "is_explicit_local_allowlisted allowed host =
     list_ex (\<lambda>entry.
       (let pattern = trim entry in
        if pattern = lit ''*'' \<or> starts_with (lit ''*.'') pattern \<or> starts_with (lit ''**.'') pattern then False
        else if 42 \<in> set pattern \<or> 63 \<in> set pattern then False
        else normalize_host pattern = host \<or> unscoped_ip_literal host = Some (normalize_host pattern))) allowed"

definition host_resolves_to_non_public_ip :: "(rstr \<Rightarrow> nat \<Rightarrow> dns_answer) \<Rightarrow> rstr \<Rightarrow> nat \<Rightarrow> bool" where
  "host_resolves_to_non_public_ip lookup host port =
     (case parse_ip host of
        Some ip \<Rightarrow> is_non_public_ip ip
      | None \<Rightarrow>
          (case lookup host port of
             DnsAddrs addrs \<Rightarrow> list_ex (\<lambda>a. is_non_public_ip (fst a)) addrs
           | DnsFailed \<Rightarrow> True
           | DnsTimedOut \<Rightarrow> True))"

definition local_literal :: "rstr \<Rightarrow> bool" where
  "local_literal host =
     (if is_loopback_host host then True
      else case parse_ip (host_no_scope host) of Some ip \<Rightarrow> is_non_public_ip ip | None \<Rightarrow> False)"

text \<open>\<open>host_blocked\<close> once the state is current.\<close>

definition host_decision ::
  "('s \<Rightarrow> rstr \<Rightarrow> bool) \<Rightarrow> (rstr \<Rightarrow> nat \<Rightarrow> dns_answer) \<Rightarrow> ('s, 'm) config_state \<Rightarrow> rstr \<Rightarrow> nat \<Rightarrow>
   host_block_decision" where
  "host_decision set_match lookup st h port =
     (case host_parse h of
        None \<Rightarrow> Blocked NotAllowed
      | Some host \<Rightarrow>
          (let allowed = or_empty (allowed_domains (config st));
               is_allowlisted = globset_matches_host_or_unscoped set_match (allow_set st) host
           in
           if globset_matches_host_or_unscoped set_match (deny_set st) host then Blocked Denied
           else if \<not> allow_local_binding (config st) \<and>
             (if local_literal host then \<not> is_explicit_local_allowlisted allowed host
              else host_resolves_to_non_public_ip lookup host port)
           then Blocked NotAllowedLocal
           else if allowed_domains (config st) = None \<or> \<not> is_allowlisted then Blocked NotAllowed
           else Allowed))"

section \<open>The shared state\<close>

definition MAX_BLOCKED_EVENTS :: nat where "MAX_BLOCKED_EVENTS = 200"

definition U64_MAX :: nat where "U64_MAX = 2 ^ 64 - 1"

text \<open>A reload keeps the blocked requests and their count; a forced one keeps only the requests.\<close>

definition carry_over :: "('s, 'm) config_state \<Rightarrow> ('s, 'm) config_state \<Rightarrow> ('s, 'm) config_state" where
  "carry_over old new = new\<lparr>blocked := blocked old, blocked_total := blocked_total old\<rparr>"

definition reload_if_needed ::
  "('e, ('s, 'm) config_state option) rresult \<Rightarrow> ('s, 'm) config_state \<Rightarrow> ('e, ('s, 'm) config_state) rresult" where
  "reload_if_needed answer st =
     (case answer of
        Inl e \<Rightarrow> Inl e
      | Inr None \<Rightarrow> Inr st
      | Inr (Some new) \<Rightarrow> Inr (carry_over st new))"

definition force_reload ::
  "('e, ('s, 'm) config_state) rresult \<Rightarrow> ('s, 'm) config_state \<Rightarrow> ('s, 'm) config_state \<times> ('e, unit) rresult" where
  "force_reload answer st =
     (case answer of
        Inl e \<Rightarrow> (st, Inl e)
      | Inr new \<Rightarrow> (new\<lparr>blocked := blocked st\<rparr>, Inr ()))"

definition replace_config_state ::
  "('e, ('s, 'm) config_state option) rresult \<Rightarrow> ('s, 'm) config_state \<Rightarrow> ('s, 'm) config_state \<Rightarrow>
   ('e, ('s, 'm) config_state) rresult" where
  "replace_config_state answer new st =
     and_then (reload_if_needed answer st) (\<lambda>st'. Inr (carry_over st' new))"

definition host_blocked ::
  "('s \<Rightarrow> rstr \<Rightarrow> bool) \<Rightarrow> (rstr \<Rightarrow> nat \<Rightarrow> dns_answer) \<Rightarrow> ('e, ('s, 'm) config_state option) rresult \<Rightarrow>
   ('s, 'm) config_state \<Rightarrow> rstr \<Rightarrow> nat \<Rightarrow> ('e, ('s, 'm) config_state \<times> host_block_decision) rresult" where
  "host_blocked set_match lookup answer st h port =
     and_then (reload_if_needed answer st) (\<lambda>st'. Inr (st', host_decision set_match lookup st' h port))"

definition push_blocked :: "blocked_request \<Rightarrow> ('s, 'm) config_state \<Rightarrow> ('s, 'm) config_state" where
  "push_blocked entry st =
     st\<lparr>blocked := evict_front MAX_BLOCKED_EVENTS (blocked st @ [entry]),
        blocked_total := min (blocked_total st + 1) U64_MAX\<rparr>"

definition record_blocked ::
  "('e, ('s, 'm) config_state option) rresult \<Rightarrow> blocked_request \<Rightarrow> ('s, 'm) config_state \<Rightarrow>
   ('e, ('s, 'm) config_state) rresult" where
  "record_blocked answer entry st =
     and_then (reload_if_needed answer st) (\<lambda>st'. Inr (push_blocked entry st'))"

definition blocked_snapshot ::
  "('e, ('s, 'm) config_state option) rresult \<Rightarrow> ('s, 'm) config_state \<Rightarrow>
   ('e, ('s, 'm) config_state \<times> blocked_request list) rresult" where
  "blocked_snapshot answer st =
     and_then (reload_if_needed answer st) (\<lambda>st'. Inr (st', blocked st'))"

definition drain_blocked ::
  "('e, ('s, 'm) config_state option) rresult \<Rightarrow> ('s, 'm) config_state \<Rightarrow>
   ('e, ('s, 'm) config_state \<times> blocked_request list) rresult" where
  "drain_blocked answer st =
     and_then (reload_if_needed answer st) (\<lambda>st'. Inr (st'\<lparr>blocked := []\<rparr>, blocked st'))"

definition method_allowed ::
  "('e, ('s, 'm) config_state option) rresult \<Rightarrow> rstr \<Rightarrow> ('s, 'm) config_state \<Rightarrow>
   ('e, ('s, 'm) config_state \<times> bool) rresult" where
  "method_allowed answer method st =
     and_then (reload_if_needed answer st) (\<lambda>st'. Inr (st', allows_method (net_mode (config st')) method))"

text \<open>
  \<open>is_unix_socket_allowed\<close>; \<open>supported\<close> is true on macOS only and \<open>canonicalize\<close> is that of the
  file system.
\<close>

definition socket_entry_allows ::
  "rstr option \<Rightarrow> rstr option \<Rightarrow> (rstr \<Rightarrow> rstr option) \<Rightarrow> rstr \<Rightarrow> rstr \<Rightarrow> bool" where
  "socket_entry_allows home_dir current_dir canonicalize requested entry =
     (case validated_unix_socket_parse home_dir current_dir entry of
        Inr (NativePath p) \<Rightarrow>
          p = requested \<or> (canonicalize requested \<noteq> None \<and> canonicalize p = canonicalize requested)
      | _ \<Rightarrow> False)"

definition socket_allowed ::
  "bool \<Rightarrow> rstr option \<Rightarrow> rstr option \<Rightarrow> (rstr \<Rightarrow> rstr option) \<Rightarrow> rstr \<Rightarrow> ('s, 'm) config_state \<Rightarrow> bool" where
  "socket_allowed supported home_dir current_dir canonicalize path st =
     (if \<not> supported then False
      else if \<not> is_absolute path then False
      else if dangerously_allow_all_unix_sockets (config st) then True
      else case from_absolute_path home_dir current_dir path of
        None \<Rightarrow> False
      | Some requested \<Rightarrow>
          list_ex (socket_entry_allows home_dir current_dir canonicalize requested)
            (allow_unix_sockets (config st)))"

definition is_unix_socket_allowed ::
  "bool \<Rightarrow> rstr option \<Rightarrow> rstr option \<Rightarrow> (rstr \<Rightarrow> rstr option) \<Rightarrow> ('e, ('s, 'm) config_state option) rresult \<Rightarrow>
   rstr \<Rightarrow> ('s, 'm) config_state \<Rightarrow> ('e, ('s, 'm) config_state \<times> bool) rresult" where
  "is_unix_socket_allowed supported home_dir current_dir canonicalize answer path st =
     and_then (reload_if_needed answer st) (\<lambda>st'.
       Inr (st', socket_allowed supported home_dir current_dir canonicalize path st'))"

definition enabled_now ::
  "('e, ('s, 'm) config_state option) rresult \<Rightarrow> ('s, 'm) config_state \<Rightarrow>
   ('e, ('s, 'm) config_state \<times> bool) rresult" where
  "enabled_now answer st =
     and_then (reload_if_needed answer st) (\<lambda>st'. Inr (st', enabled (config st')))"

definition current_patterns ::
  "('e, ('s, 'm) config_state option) rresult \<Rightarrow> ('s, 'm) config_state \<Rightarrow>
   ('e, ('s, 'm) config_state \<times> rstr list \<times> rstr list) rresult" where
  "current_patterns answer st =
     and_then (reload_if_needed answer st) (\<lambda>st'.
       Inr (st', or_empty (allowed_domains (config st')), or_empty (denied_domains (config st'))))"

definition evaluate_mitm_hook_request ::
  "hook_env \<Rightarrow> ('e, ('s, 'm) config_state option) rresult \<Rightarrow> rstr \<Rightarrow> http_request \<Rightarrow> ('s, 'm) config_state \<Rightarrow>
   ('e, ('s, 'm) config_state \<times> hook_evaluation) rresult" where
  "evaluate_mitm_hook_request henv answer host req st =
     and_then (reload_if_needed answer st) (\<lambda>st'. Inr (st', evaluate_mitm_hooks henv (hooks_by_host st') host req))"

definition host_has_mitm_hooks ::
  "('e, ('s, 'm) config_state option) rresult \<Rightarrow> rstr \<Rightarrow> ('s, 'm) config_state \<Rightarrow>
   ('e, ('s, 'm) config_state \<times> bool) rresult" where
  "host_has_mitm_hooks answer host st =
     and_then (reload_if_needed answer st) (\<lambda>st'.
       Inr (st', map_of (hooks_by_host st') (normalize_host host) \<noteq> None))"

section \<open>Updates of the policy\<close>

datatype domain_list_kind = AllowList | DenyList

fun kind_permission :: "domain_list_kind \<Rightarrow> network_domain_permission" where
  "kind_permission AllowList = PermAllow"
| "kind_permission DenyList = PermDeny"

fun kind_entries :: "domain_list_kind \<Rightarrow> network_proxy_settings \<Rightarrow> rstr list" where
  "kind_entries AllowList cfg = or_empty (allowed_domains cfg)"
| "kind_entries DenyList cfg = or_empty (denied_domains cfg)"

fun opposite_entries :: "domain_list_kind \<Rightarrow> network_proxy_settings \<Rightarrow> rstr list" where
  "opposite_entries AllowList cfg = or_empty (denied_domains cfg)"
| "opposite_entries DenyList cfg = or_empty (allowed_domains cfg)"

datatype 'e update_error =
    InvalidNetworkHost
  | ReloadFailed 'e
  | Constrained network_proxy_constraint_error
  | RebuildFailed "'e state_error"

text \<open>
  One round of \<open>update_domain_list\<close> up to the write: nothing to do, or the new state, built
  from a snapshot of the shared one, with the snapshot's blocked requests.
\<close>

definition prepare_update ::
  "('e, 'g, 's, 'm) proxy_env \<Rightarrow> domain_list_kind \<Rightarrow> rstr \<Rightarrow> ('s, 'm) config_state \<Rightarrow>
   ('e update_error, ('s, 'm) config_state option) rresult" where
  "prepare_update env target host snap =
     (let cfg = config snap;
          here = list_ex (\<lambda>e. normalize_host e = host) (kind_entries target cfg);
          there = list_ex (\<lambda>e. normalize_host e = host) (opposite_entries target cfg)
      in
      if here \<and> \<not> there then Inr None
      else
        (let candidate = upsert_domain_permission host (kind_permission target) normalize_host cfg in
         and_then (with_ctx Constrained
           (validate_policy_against_constraints (pe_hooks env) (pe_url_host env) candidate (constraints snap))) (\<lambda>_.
         and_then (with_ctx RebuildFailed (build_config_state env candidate (constraints snap))) (\<lambda>new.
         Inr (Some (carry_over snap new))))))"

text \<open>The write, which happens only when the policy is still the one of the snapshot.\<close>

definition commit_update ::
  "('s, 'm) config_state \<Rightarrow> ('s, 'm) config_state \<Rightarrow> ('s, 'm) config_state \<Rightarrow> ('s, 'm) config_state option" where
  "commit_update snap new st =
     (if constraints st \<noteq> constraints snap \<or> config st \<noteq> config snap then None else Some new)"

definition prepare_mode ::
  "hook_env \<Rightarrow> (rstr \<Rightarrow> rstr option) \<Rightarrow> network_mode \<Rightarrow> ('s, 'm) config_state \<Rightarrow>
   (network_proxy_constraint_error, unit) rresult" where
  "prepare_mode henv url_host m snap =
     validate_policy_against_constraints henv url_host ((config snap)\<lparr>net_mode := m\<rparr>) (constraints snap)"

definition commit_mode ::
  "network_mode \<Rightarrow> ('s, 'm) config_state \<Rightarrow> ('s, 'm) config_state \<Rightarrow> ('s, 'm) config_state option" where
  "commit_mode m snap st =
     (if constraints st \<noteq> constraints snap then None
      else Some (st\<lparr>config := (config st)\<lparr>net_mode := m\<rparr>\<rparr>))"

text \<open>
  Both operations repeat their round until a write goes through. A round names what the other
  tasks do to the shared state before it and between its read and its write, and what the
  reloader answers; the value None stands for an operation that is still repeating after the
  rounds given.
\<close>

type_synonym ('e, 's, 'm) round =
  "(('s, 'm) config_state \<Rightarrow> ('s, 'm) config_state) \<times> ('e, ('s, 'm) config_state option) rresult \<times>
   (('s, 'm) config_state \<Rightarrow> ('s, 'm) config_state)"

fun update_rounds ::
  "('e, 'g, 's, 'm) proxy_env \<Rightarrow> domain_list_kind \<Rightarrow> rstr \<Rightarrow> ('e, 's, 'm) round list \<Rightarrow> ('s, 'm) config_state \<Rightarrow>
   (('s, 'm) config_state \<times> ('e update_error, unit) rresult) option" where
  "update_rounds env target host [] st = None"
| "update_rounds env target host ((before, answer, meanwhile) # rounds) st =
     (case reload_if_needed answer (before st) of
        Inl e \<Rightarrow> Some (before st, Inl (ReloadFailed e))
      | Inr snap \<Rightarrow>
          (case prepare_update env target host snap of
             Inl e \<Rightarrow> Some (snap, Inl e)
           | Inr None \<Rightarrow> Some (snap, Inr ())
           | Inr (Some new) \<Rightarrow>
               (case commit_update snap new (meanwhile snap) of
                  Some st' \<Rightarrow> Some (st', Inr ())
                | None \<Rightarrow> update_rounds env target host rounds (meanwhile snap))))"

definition update_domain_list ::
  "('e, 'g, 's, 'm) proxy_env \<Rightarrow> ('e, 's, 'm) round list \<Rightarrow> domain_list_kind \<Rightarrow> rstr \<Rightarrow> ('s, 'm) config_state \<Rightarrow>
   (('s, 'm) config_state \<times> ('e update_error, unit) rresult) option" where
  "update_domain_list env rounds target h st =
     (case host_parse h of
        None \<Rightarrow> Some (st, Inl InvalidNetworkHost)
      | Some host \<Rightarrow> update_rounds env target host rounds st)"

definition add_allowed_domain ::
  "('e, 'g, 's, 'm) proxy_env \<Rightarrow> ('e, 's, 'm) round list \<Rightarrow> rstr \<Rightarrow> ('s, 'm) config_state \<Rightarrow>
   (('s, 'm) config_state \<times> ('e update_error, unit) rresult) option" where
  "add_allowed_domain env rounds host st = update_domain_list env rounds AllowList host st"

definition add_denied_domain ::
  "('e, 'g, 's, 'm) proxy_env \<Rightarrow> ('e, 's, 'm) round list \<Rightarrow> rstr \<Rightarrow> ('s, 'm) config_state \<Rightarrow>
   (('s, 'm) config_state \<times> ('e update_error, unit) rresult) option" where
  "add_denied_domain env rounds host st = update_domain_list env rounds DenyList host st"

fun set_network_mode ::
  "('e, 'g, 's, 'm) proxy_env \<Rightarrow> network_mode \<Rightarrow> ('e, 's, 'm) round list \<Rightarrow> ('s, 'm) config_state \<Rightarrow>
   (('s, 'm) config_state \<times> ('e update_error, unit) rresult) option" where
  "set_network_mode env m [] st = None"
| "set_network_mode env m ((before, answer, meanwhile) # rounds) st =
     (case reload_if_needed answer (before st) of
        Inl e \<Rightarrow> Some (before st, Inl (ReloadFailed e))
      | Inr snap \<Rightarrow>
          (case prepare_mode (pe_hooks env) (pe_url_host env) m snap of
             Inl e \<Rightarrow> Some (snap, Inl (Constrained e))
           | Inr _ \<Rightarrow>
               (case commit_mode m snap (meanwhile snap) of
                  Some st' \<Rightarrow> Some (st', Inr ())
                | None \<Rightarrow> set_network_mode env m rounds (meanwhile snap))))"

section \<open>Requests\<close>

datatype network_protocol = Http | HttpsConnect | Socks5Tcp | Socks5Udp

datatype network_policy_decision = DenyDecision | AskDecision

datatype network_decision_source = BaselinePolicy | ModeGuard | ProxyState | Decider

record network_policy_request =
  nr_protocol :: network_protocol
  nr_host :: rstr
  nr_port :: nat
  nr_client_addr :: "rstr option"
  nr_method :: "rstr option"
  nr_command :: "rstr option"
  nr_exec_policy_hint :: "rstr option"

datatype network_decision = NetAllow | NetDeny rstr network_decision_source network_policy_decision

definition deny_with_source :: "rstr \<Rightarrow> network_decision_source \<Rightarrow> network_decision" where
  "deny_with_source reason source =
     NetDeny (if reason = [] then REASON_POLICY_DENIED else reason) source DenyDecision"

definition ask_with_source :: "rstr \<Rightarrow> network_decision_source \<Rightarrow> network_decision" where
  "ask_with_source reason source =
     NetDeny (if reason = [] then REASON_POLICY_DENIED else reason) source AskDecision"

fun map_decider_decision :: "network_decision \<Rightarrow> network_decision" where
  "map_decider_decision NetAllow = NetAllow"
| "map_decider_decision (NetDeny reason source decision) = NetDeny reason Decider decision"

record policy_audit_event =
  ae_decision :: rstr
  ae_source :: network_decision_source
  ae_reason :: rstr
  ae_request :: network_policy_request
  ae_policy_override :: bool

fun policy_decision_str :: "network_policy_decision \<Rightarrow> rstr" where
  "policy_decision_str DenyDecision = lit ''deny''"
| "policy_decision_str AskDecision = lit ''ask''"

definition decide_request ::
  "(network_policy_request \<Rightarrow> network_decision) option \<Rightarrow> network_policy_request \<Rightarrow> host_block_decision \<Rightarrow>
   network_decision \<times> bool" where
  "decide_request decider request host_dec =
     (case host_dec of
        Allowed \<Rightarrow> (NetAllow, False)
      | Blocked NotAllowed \<Rightarrow>
          (case decider of
             Some decide \<Rightarrow>
               (let d = map_decider_decision (decide request) in (d, d = NetAllow))
           | None \<Rightarrow> (deny_with_source (reason_str NotAllowed) BaselinePolicy, False))
      | Blocked reason \<Rightarrow> (deny_with_source (reason_str reason) BaselinePolicy, False))"

definition audit_event :: "network_policy_request \<Rightarrow> network_decision \<times> bool \<Rightarrow> policy_audit_event" where
  "audit_event request dec =
     (let (decision, policy_override) = dec in
      case decision of
        NetAllow \<Rightarrow>
          \<lparr>ae_decision = lit ''allow'', ae_source = (if policy_override then Decider else BaselinePolicy),
           ae_reason = (if policy_override then reason_str NotAllowed else lit ''allow''),
           ae_request = request, ae_policy_override = policy_override\<rparr>
      | NetDeny reason source d \<Rightarrow>
          \<lparr>ae_decision = policy_decision_str d, ae_source = source, ae_reason = reason,
           ae_request = request, ae_policy_override = policy_override\<rparr>)"

definition evaluate_host_policy ::
  "('s \<Rightarrow> rstr \<Rightarrow> bool) \<Rightarrow> (rstr \<Rightarrow> nat \<Rightarrow> dns_answer) \<Rightarrow> ('e, ('s, 'm) config_state option) rresult \<Rightarrow>
   (network_policy_request \<Rightarrow> network_decision) option \<Rightarrow> ('s, 'm) config_state \<Rightarrow> network_policy_request \<Rightarrow>
   ('e, ('s, 'm) config_state \<times> network_decision \<times> policy_audit_event) rresult" where
  "evaluate_host_policy set_match lookup answer decider st request =
     and_then (host_blocked set_match lookup answer st (nr_host request) (nr_port request)) (\<lambda>(st', host_dec).
       (let dec = decide_request decider request host_dec
        in Inr (st', fst dec, audit_event request dec)))"

section \<open>Interleaved operations\<close>

text \<open>
  An operation that updates the policy reads a snapshot under the read lock, works on it
  without a lock and writes under the write lock. A task is an operation between its read
  and its write; the system is the shared state with the pending tasks, and a step is one
  critical section. \<open>trusted\<close> is what is assumed of the states the reloader and the callers of
  \<open>replace_config_state\<close> hand over.
\<close>

datatype ('s, 'm) proxy_task =
    ReloadTask "('s, 'm) config_state"
  | UpdateTask "('s, 'm) config_state" "('s, 'm) config_state"
  | ModeTask network_mode "('s, 'm) config_state"

type_synonym ('s, 'm) proxy_system = "('s, 'm) config_state \<times> ('s, 'm) proxy_task list"

definition policy_ok :: "('e, 'g, 's, 'm) proxy_env \<Rightarrow> ('s, 'm) config_state \<Rightarrow> bool" where
  "policy_ok env st \<longleftrightarrow>
     validate_policy_against_constraints (pe_hooks env) (pe_url_host env) (config st) (constraints st) = Inr () \<and>
     compile_denylist_globset (pe_glob env) (pe_build env) (or_empty (denied_domains (config st))) =
       Inr (deny_set st) \<and>
     compile_allowlist_globset (pe_glob env) (pe_build env) (or_empty (allowed_domains (config st))) =
       Inr (allow_set st)"

inductive proxy_step ::
  "('e, 'g, 's, 'm) proxy_env \<Rightarrow> ('s, 'm) proxy_system \<Rightarrow> ('s, 'm) proxy_system \<Rightarrow> bool" for env where
  reload_read: "policy_ok env new \<Longrightarrow> proxy_step env (st, ts) (st, ReloadTask (carry_over st new) # ts)"
| reload_write: "ReloadTask new \<in> set ts \<Longrightarrow> proxy_step env (st, ts) (new, remove1 (ReloadTask new) ts)"
| force: "policy_ok env new \<Longrightarrow> 
     proxy_step env (st, ts) (fst (force_reload (Inr new :: ('e, ('s, 'm) config_state) rresult) st), ts)"
| replace: "policy_ok env new \<Longrightarrow> proxy_step env (st, ts) (carry_over st new, ts)"
| update_read:
    "host_parse h = Some host \<Longrightarrow> prepare_update env k host st = Inr (Some new) \<Longrightarrow>
     proxy_step env (st, ts) (st, UpdateTask st new # ts)"
| update_write:
    "UpdateTask snap new \<in> set ts \<Longrightarrow> commit_update snap new st = Some st' \<Longrightarrow>
     proxy_step env (st, ts) (st', remove1 (UpdateTask snap new) ts)"
| update_again:
    "UpdateTask snap new \<in> set ts \<Longrightarrow> commit_update snap new st = None \<Longrightarrow>
     proxy_step env (st, ts) (st, remove1 (UpdateTask snap new) ts)"
| mode_read:
    "prepare_mode (pe_hooks env) (pe_url_host env) m st = Inr () \<Longrightarrow>
     proxy_step env (st, ts) (st, ModeTask m st # ts)"
| mode_write:
    "ModeTask m snap \<in> set ts \<Longrightarrow> commit_mode m snap st = Some st' \<Longrightarrow>
     proxy_step env (st, ts) (st', remove1 (ModeTask m snap) ts)"
| mode_again:
    "ModeTask m snap \<in> set ts \<Longrightarrow> commit_mode m snap st = None \<Longrightarrow>
     proxy_step env (st, ts) (st, remove1 (ModeTask m snap) ts)"
| record_one: "proxy_step env (st, ts) (push_blocked entry st, ts)"
| drain: "proxy_step env (st, ts) (st\<lparr>blocked := []\<rparr>, ts)"

inductive reachable_proxy ::
  "('e, 'g, 's, 'm) proxy_env \<Rightarrow> ('s, 'm) config_state \<Rightarrow> ('s, 'm) proxy_system \<Rightarrow> bool" for env st0 where
  start: "reachable_proxy env st0 (st0, [])"
| step: "reachable_proxy env st0 sys \<Longrightarrow> proxy_step env sys sys' \<Longrightarrow> reachable_proxy env st0 sys'"

section \<open>The policy stays within the constraints\<close>

definition state_ok :: "('e, 'g, 's, 'm) proxy_env \<Rightarrow> ('s, 'm) config_state \<Rightarrow> bool" where
  "state_ok env st \<longleftrightarrow> policy_ok env st \<and> length (blocked st) \<le> MAX_BLOCKED_EVENTS"

fun task_ok :: "('e, 'g, 's, 'm) proxy_env \<Rightarrow> ('s, 'm) proxy_task \<Rightarrow> bool" where
  "task_ok env (ReloadTask new) = state_ok env new"
| "task_ok env (UpdateTask snap new) = state_ok env new"
| "task_ok env (ModeTask m snap) = (prepare_mode (pe_hooks env) (pe_url_host env) m snap = Inr ())"

definition system_ok :: "('e, 'g, 's, 'm) proxy_env \<Rightarrow> ('s, 'm) proxy_system \<Rightarrow> bool" where
  "system_ok env sys \<longleftrightarrow> state_ok env (fst sys) \<and> list_all (task_ok env) (snd sys)"

lemma carry_over_simps [simp]:
  "config (carry_over old new) = config new" "constraints (carry_over old new) = constraints new"
  "allow_set (carry_over old new) = allow_set new" "deny_set (carry_over old new) = deny_set new"
  "blocked (carry_over old new) = blocked old" "blocked_total (carry_over old new) = blocked_total old"
  by (simp_all add: carry_over_def)

lemma policy_ok_cong:
  "config st' = config st \<Longrightarrow> constraints st' = constraints st \<Longrightarrow> allow_set st' = allow_set st \<Longrightarrow>
   deny_set st' = deny_set st \<Longrightarrow> policy_ok env st' = policy_ok env st"
  by (simp add: policy_ok_def)

text \<open>
  The states handed to a reload or a replacement come from the loader,
  \<open>core/src/network_proxy_loader.rs\<close>: the configuration is validated against the constraints of the
  trusted layers before the state is built, so the assumption of these steps is met.
\<close>

definition enforce_trusted_constraints ::
  "('e, 'g, 's, 'm) proxy_env \<Rightarrow> network_proxy_settings \<Rightarrow> network_proxy_constraints \<Rightarrow>
   ('e state_error, network_proxy_constraints) rresult" where
  "enforce_trusted_constraints env cfg cons =
     and_then (with_ctx ConstraintError
       (validate_policy_against_constraints (pe_hooks env) (pe_url_host env) cfg cons)) (\<lambda>_. Inr cons)"

definition load_config_state ::
  "('e, 'g, 's, 'm) proxy_env \<Rightarrow> network_proxy_settings \<Rightarrow> network_proxy_constraints \<Rightarrow>
   ('e state_error, ('s, 'm) config_state) rresult" where
  "load_config_state env cfg cons =
     and_then (enforce_trusted_constraints env cfg cons) (\<lambda>cons. build_config_state env cfg cons)"

lemma loaded_policy_ok: "load_config_state env cfg cons = Inr st \<Longrightarrow> policy_ok env st \<and> blocked st = []"
  by (auto simp: load_config_state_def enforce_trusted_constraints_def build_config_state_def policy_ok_def
      Let_def and_then_def with_ctx_def split: sum.splits if_splits)

lemma state_ok_carry_over: "state_ok env st \<Longrightarrow> policy_ok env new \<Longrightarrow> state_ok env (carry_over st new)"
  by (simp add: state_ok_def policy_ok_def)

lemma policy_ok_carry_over [simp]: "policy_ok env (carry_over st new) = policy_ok env new"
  by (simp add: policy_ok_def)

lemma prepare_update_policy:
  assumes "prepare_update env k host st = Inr (Some new)"
  shows "policy_ok env new \<and> config new = upsert_domain_permission host (kind_permission k) normalize_host (config st)"
proof -
  let ?c = "upsert_domain_permission host (kind_permission k) normalize_host (config st)"
  obtain b where b: "build_config_state env ?c (constraints st) = Inr b" "new = carry_over st b"
    and v: "validate_policy_against_constraints (pe_hooks env) (pe_url_host env) ?c (constraints st) = Inr ()"
    using assms by (auto simp: prepare_update_def Let_def with_ctx_def split: if_splits sum.splits)
  with built_sets[OF b(1)] show ?thesis
    by (simp add: policy_ok_def compile_denylist_globset_def compile_allowlist_globset_def)
qed

lemma prepare_update_ok:
  assumes "prepare_update env k host st = Inr (Some new)" "state_ok env st"
  shows "state_ok env new"
proof -
  have "blocked new = blocked st"
    using assms(1) by (auto simp: prepare_update_def Let_def with_ctx_def split: if_splits sum.splits)
  with prepare_update_policy[OF assms(1)] assms(2) show ?thesis by (simp add: state_ok_def)
qed

lemma mode_change_ok:
  assumes "within_constraints henv url_host cfg cons" "within_constraints henv url_host (cfg0\<lparr>net_mode := m\<rparr>) cons"
  shows "within_constraints henv url_host (cfg\<lparr>net_mode := m\<rparr>) cons"
proof -
  have same: "validate_mitm_hook_config henv (c\<lparr>net_mode := m\<rparr>) = validate_mitm_hook_config henv c"
    "allowed_domains (c\<lparr>net_mode := m\<rparr>) = allowed_domains c" "denied_domains (c\<lparr>net_mode := m\<rparr>) = denied_domains c"
    "allow_unix_sockets (c\<lparr>net_mode := m\<rparr>) = allow_unix_sockets c"
    "net_mode (c\<lparr>net_mode := m\<rparr>) = m" "enabled (c\<lparr>net_mode := m\<rparr>) = enabled c"
    "allow_upstream_proxy (c\<lparr>net_mode := m\<rparr>) = allow_upstream_proxy c"
    "dangerously_allow_non_loopback_proxy (c\<lparr>net_mode := m\<rparr>) = dangerously_allow_non_loopback_proxy c"
    "dangerously_allow_all_unix_sockets (c\<lparr>net_mode := m\<rparr>) = dangerously_allow_all_unix_sockets c"
    "allow_local_binding (c\<lparr>net_mode := m\<rparr>) = allow_local_binding c" for c :: network_proxy_settings
    by (simp_all add: validate_mitm_hook_config_def allowed_domains_def denied_domains_def domain_entries_def
        allow_unix_sockets_def)
  show ?thesis
    using assms unfolding within_constraints_def same by blast
qed

lemma commit_mode_ok:
  assumes "prepare_mode (pe_hooks env) (pe_url_host env) m snap = Inr ()" "commit_mode m snap st = Some st'"
    and "state_ok env st"
  shows "state_ok env st'"
proof -
  have st': "constraints st = constraints snap" "st' = st\<lparr>config := (config st)\<lparr>net_mode := m\<rparr>\<rparr>"
    using assms(2) by (auto simp: commit_mode_def split: if_splits)
  have "within_constraints (pe_hooks env) (pe_url_host env) ((config st)\<lparr>net_mode := m\<rparr>) (constraints st)"
    using assms(1,3) mode_change_ok[where cfg = "config st" and cons = "constraints st" and ?cfg0.0 = "config snap" and m = m] st'(1)
    by (simp add: prepare_mode_def state_ok_def policy_ok_def validate_iff)
  moreover have "allowed_domains ((config st)\<lparr>net_mode := m\<rparr>) = allowed_domains (config st)"
    "denied_domains ((config st)\<lparr>net_mode := m\<rparr>) = denied_domains (config st)"
    by (simp_all add: allowed_domains_def denied_domains_def domain_entries_def)
  ultimately show ?thesis
    using assms(3) by (simp add: state_ok_def policy_ok_def validate_iff st'(2))
qed

lemma list_all_remove1: "list_all P xs \<Longrightarrow> list_all P (remove1 x xs)"
  by (auto simp: list_all_iff dest: notin_set_remove1[rotated])

lemma proxy_step_ok:
  assumes "proxy_step env sys sys'" "system_ok env sys"
  shows "system_ok env sys'"
  using assms
proof (induction rule: proxy_step.induct)
  case (reload_read new st ts)
  then show ?case by (simp add: system_ok_def state_ok_carry_over)
next
  case (reload_write new ts st)
  then show ?case by (auto simp: system_ok_def list_all_remove1 list_all_iff)
next
  case (force new st ts)
  then show ?case by (simp add: system_ok_def state_ok_def policy_ok_def force_reload_def)
next
  case (replace new st ts)
  then show ?case by (simp add: system_ok_def state_ok_carry_over)
next
  case (update_read h host k st new ts)
  then show ?case by (auto simp: system_ok_def intro: prepare_update_ok)
next
  case (update_write snap new ts st st')
  then show ?case
    by (auto simp: system_ok_def list_all_remove1 list_all_iff commit_update_def split: if_splits)
next
  case (mode_write m snap ts st st')
  then have "task_ok env (ModeTask m snap)" by (auto simp: system_ok_def list_all_iff)
  with mode_write show ?case
    by (auto simp: system_ok_def list_all_remove1 intro: commit_mode_ok)
next
  case (record_one st ts entry)
  then show ?case by (simp add: system_ok_def state_ok_def policy_ok_def push_blocked_def)
next
  case (drain st ts)
  then show ?case by (simp add: system_ok_def state_ok_def policy_ok_def)
qed (simp_all add: system_ok_def list_all_remove1)

lemma reachable_proxy_ok: "reachable_proxy env st0 sys \<Longrightarrow> state_ok env st0 \<Longrightarrow> system_ok env sys"
proof (induction rule: reachable_proxy.induct)
  case start
  then show ?case by (simp add: system_ok_def)
next
  case (step sys sys')
  then show ?case by (blast intro: proxy_step_ok)
qed

text \<open>
  C8. Under every interleaving of reloads, replacements, domain updates, mode changes and
  recorded requests, the policy in force is valid against the constraints it is stored with,
  the compiled lists are those of the configuration, and at most 200 blocked requests are
  kept, provided the states handed in from outside are valid.
\<close>

theorem policy_stays_within_constraints:
  assumes "reachable_proxy env st0 (st, ts)" "policy_ok env st0" "length (blocked st0) \<le> MAX_BLOCKED_EVENTS"
  shows "validate_policy_against_constraints (pe_hooks env) (pe_url_host env) (config st) (constraints st) = Inr () \<and>
    compile_denylist_globset (pe_glob env) (pe_build env) (or_empty (denied_domains (config st))) =
      Inr (deny_set st) \<and>
    compile_allowlist_globset (pe_glob env) (pe_build env) (or_empty (allowed_domains (config st))) =
      Inr (allow_set st) \<and>
    length (blocked st) \<le> 200"
  using reachable_proxy_ok[OF assms(1)] assms(2,3)
  by (simp add: state_ok_def system_ok_def policy_ok_def MAX_BLOCKED_EVENTS_def)

definition sample_state :: "(rstr list, unit) config_state" where
  "sample_state = projr (build_config_state sample_proxy_env sample_settings bypass_constraints)"

lemma sample_state_ok: "policy_ok sample_proxy_env sample_state" "blocked sample_state = []"
  "prepare_mode (pe_hooks sample_proxy_env) (pe_url_host sample_proxy_env) Limited sample_state = Inr ()"
proof -
  have "\<not> isl (build_config_state sample_proxy_env sample_settings bypass_constraints)" by code_simp
  then have st: "build_config_state sample_proxy_env sample_settings bypass_constraints = Inr sample_state"
    by (cases "build_config_state sample_proxy_env sample_settings bypass_constraints") (auto simp: sample_state_def)
  have "validate_policy_against_constraints (pe_hooks sample_proxy_env) (pe_url_host sample_proxy_env)
      sample_settings bypass_constraints = Inr ()"
    by code_simp
  with built_sets[OF st] show "policy_ok sample_proxy_env sample_state" "blocked sample_state = []"
    by (simp_all add: policy_ok_def compile_denylist_globset_def compile_allowlist_globset_def)
  have "validate_policy_against_constraints (pe_hooks sample_proxy_env) (pe_url_host sample_proxy_env)
      (sample_settings\<lparr>net_mode := Limited\<rparr>) bypass_constraints = Inr ()"
    by code_simp
  with built_sets[OF st]
  show "prepare_mode (pe_hooks sample_proxy_env) (pe_url_host sample_proxy_env) Limited sample_state = Inr ()"
    by (simp add: prepare_mode_def)
qed

definition sample_blocked :: blocked_request where
  "sample_blocked = \<lparr>br_host = lit ''evil.com'', br_reason = REASON_NOT_ALLOWED, br_client = None, br_method = None,
     br_mode = None, br_protocol = lit ''http'', br_decision = None, br_source = None, br_port = Some 80,
     br_timestamp = 0\<rparr>"

theorem policy_stays_within_constraints_witness:
  "\<exists>st. reachable_proxy sample_proxy_env sample_state (st, []) \<and> net_mode (config st) = Limited \<and>
     blocked st = [sample_blocked] \<and>
     validate_policy_against_constraints (pe_hooks sample_proxy_env) (pe_url_host sample_proxy_env)
       (config st) (constraints st) = Inr ()"
proof -
  let ?env = sample_proxy_env and ?t = "ModeTask Limited sample_state"
  let ?s1 = "push_blocked sample_blocked sample_state"
  let ?s2 = "?s1\<lparr>config := (config ?s1)\<lparr>net_mode := Limited\<rparr>\<rparr>"
  have "reachable_proxy ?env sample_state (sample_state, [?t])"
    by (rule reachable_proxy.step[OF reachable_proxy.start]) (rule proxy_step.mode_read[OF sample_state_ok(3)])
  then have "reachable_proxy ?env sample_state (?s1, [?t])"
    by (rule reachable_proxy.step) (rule proxy_step.record_one)
  then have "reachable_proxy ?env sample_state (?s2, remove1 ?t [?t])"
  proof (rule reachable_proxy.step)
    show "proxy_step ?env (?s1, [?t]) (?s2, remove1 ?t [?t])"
      by (rule proxy_step.mode_write) (simp_all add: commit_mode_def push_blocked_def)
  qed
  then have r: "reachable_proxy ?env sample_state (?s2, [])" by simp
  have "length (blocked sample_state) \<le> MAX_BLOCKED_EVENTS" by (simp add: sample_state_ok)
  from policy_stays_within_constraints[OF r sample_state_ok(1) this] r show ?thesis
    by (intro exI[of _ ?s2])
       (simp add: push_blocked_def sample_state_ok MAX_BLOCKED_EVENTS_def)
qed

text \<open>
  C3. Managed denials hold at all times: in every state the interleavings can reach, a host
  that a managed denied pattern matches is blocked as denied, whatever the user's lists say,
  whatever the host resolves to and whatever the approval callback would answer.
\<close>

theorem managed_denials_enforced:
  assumes "set_law (pe_build env) (pe_match env) glob_match"
    and "reachable_proxy env st0 (st, ts)" "policy_ok env st0" "length (blocked st0) \<le> MAX_BLOCKED_EVENTS"
    and "c_denied_domains (constraints st) = Some ms" "host_parse h = Some host" "managed_match env ms host"
  shows "host_decision (pe_match env) lookup st h port = Blocked Denied \<and>
    fst (decide_request decider req (host_decision (pe_match env) lookup st h port)) =
      NetDeny REASON_DENIED BaselinePolicy DenyDecision"
proof -
  have "policy_ok env st"
    using reachable_proxy_ok[OF assms(2)] assms(3,4) by (simp add: state_ok_def system_ok_def)
  then have ok: "within_constraints (pe_hooks env) (pe_url_host env) (config st) (constraints st)"
    "compile_globset_with_policy (pe_glob env) (pe_build env) (or_empty (denied_domains (config st)))
       RejectGlobalWildcard = Inr (deny_set st)"
    by (simp_all add: policy_ok_def validate_iff compile_denylist_globset_def)
  have "lower_set ms \<subseteq> lower_set (or_empty (denied_domains (config st)))"
    using ok(1) assms(5) by (auto simp: within_constraints_def split: if_splits)
  then have "pe_match env (deny_set st) host"
    using assms(7) more_candidates_match[OF assms(1) _ ok(2)]
    by (auto simp: managed_match_def compile_allowlist_globset_def split: sum.splits)
  then have "host_decision (pe_match env) lookup st h port = Blocked Denied"
    using assms(6) by (simp add: host_decision_def globset_matches_host_or_unscoped_def Let_def)
  moreover have "REASON_DENIED \<noteq> []" by (simp add: REASON_DENIED_def lit_def)
  ultimately show ?thesis by (simp add: decide_request_def deny_with_source_def)
qed

definition denied_constraints :: network_proxy_constraints where
  "denied_constraints = bypass_constraints\<lparr>c_allowed_domains := None, c_denied_domains := Some [lit ''**.Evil.com'']\<rparr>"

definition denied_settings :: network_proxy_settings where
  "denied_settings = set_denied_domains [lit ''**.evil.com''] (set_allowed_domains [lit ''*''] default_settings)"

theorem managed_denials_enforced_witness:
  "\<exists>st. reachable_proxy sample_proxy_env st (st, []) \<and>
     host_decision (pe_match sample_proxy_env) (\<lambda>_ _. DnsFailed) st (lit ''www.EVIL.com:443'') 443 = Blocked Denied"
proof -
  let ?env = sample_proxy_env
  have "\<not> isl (build_config_state ?env denied_settings denied_constraints)" by code_simp
  then obtain st where st: "build_config_state ?env denied_settings denied_constraints = Inr st"
    by (cases "build_config_state ?env denied_settings denied_constraints") auto
  have "validate_policy_against_constraints (pe_hooks ?env) (pe_url_host ?env) denied_settings denied_constraints = Inr ()"
    by code_simp
  then have ok: "policy_ok ?env st" "length (blocked st) \<le> MAX_BLOCKED_EVENTS"
      "c_denied_domains (constraints st) = Some [lit ''**.Evil.com'']"
    using built_sets[OF st]
    by (simp_all add: policy_ok_def compile_denylist_globset_def compile_allowlist_globset_def denied_constraints_def)
  have "host_parse (lit ''www.EVIL.com:443'') = Some (lit ''www.evil.com'')"
    "managed_match ?env [lit ''**.Evil.com''] (lit ''www.evil.com'')"
    by code_simp+
  with managed_denials_enforced[OF sample_laws(1) reachable_proxy.start ok] show ?thesis
    by (intro exI[of _ st] conjI reachable_proxy.start) blast
qed

section \<open>Local networks\<close>

lemma host_decision_Allowed:
  "host_decision set_match lookup st h port = Allowed \<longleftrightarrow>
   (\<exists>host. host_parse h = Some host \<and>
      \<not> globset_matches_host_or_unscoped set_match (deny_set st) host \<and>
      globset_matches_host_or_unscoped set_match (allow_set st) host \<and>
      allowed_domains (config st) \<noteq> None \<and>
      (allow_local_binding (config st) \<or>
       (if local_literal host then is_explicit_local_allowlisted (or_empty (allowed_domains (config st))) host
        else \<not> host_resolves_to_non_public_ip lookup host port)))"
  by (auto simp: host_decision_def Let_def split: option.splits if_splits)


definition wildcard_state :: "(rstr list, unit) config_state" where
  "wildcard_state = projr (build_config_state sample_proxy_env
     (set_allowed_domains [lit ''*.example.com''] default_settings) bypass_constraints)"


section \<open>Requests\<close>

text \<open>
  C26. The approval callback can only lift the lack of an allowing entry: a request is let
  through exactly when the host is allowed, or when the host is merely not on the list, the
  callback exists and allows it, and the audit event says so.
\<close>

theorem decider_lifts_only_missing_entries:
  assumes "evaluate_host_policy set_match lookup answer decider st req = Inr (st', dec, ev)"
  shows "(dec = NetAllow \<longleftrightarrow>
      host_decision set_match lookup st' (nr_host req) (nr_port req) = Allowed \<or>
      host_decision set_match lookup st' (nr_host req) (nr_port req) = Blocked NotAllowed \<and>
      map_option (\<lambda>d. d req) decider = Some NetAllow) \<and>
    (ae_policy_override ev \<longleftrightarrow>
      dec = NetAllow \<and> host_decision set_match lookup st' (nr_host req) (nr_port req) \<noteq> Allowed) \<and>
    ae_request ev = req"
proof -
  let ?d = "host_decision set_match lookup st' (nr_host req) (nr_port req)"
  have e: "dec = fst (decide_request decider req ?d)" "ev = audit_event req (decide_request decider req ?d)"
    using assms by (auto simp: evaluate_host_policy_def host_blocked_def Let_def)
  have m: "map_decider_decision x = NetAllow \<longleftrightarrow> x = NetAllow" for x by (cases x) auto
  show ?thesis
  proof (cases ?d)
    case Allowed
    then show ?thesis by (simp add: e decide_request_def audit_event_def)
  next
    case (Blocked r)
    then show ?thesis
      by (cases r; cases decider)
         (auto simp: e decide_request_def audit_event_def deny_with_source_def Let_def m
            split: network_decision.splits)
  qed
qed

definition sample_net_request :: network_policy_request where
  "sample_net_request = \<lparr>nr_protocol = Http, nr_host = lit ''other.org'', nr_port = 80, nr_client_addr = None,
     nr_method = Some (lit ''GET''), nr_command = None, nr_exec_policy_hint = None\<rparr>"

theorem decider_lifts_only_missing_entries_witness:
  "\<exists>ev. evaluate_host_policy (pe_match sample_proxy_env) (\<lambda>_ _. DnsAddrs [(V4 (ipv4 93 184 216 34), 80)])
      (Inr None :: (unit, _) rresult) (Some (\<lambda>_. NetAllow)) wildcard_state sample_net_request =
      Inr (wildcard_state, NetAllow, ev) \<and> ae_policy_override ev"
proof -
  let ?l = "\<lambda>_ _. DnsAddrs [(V4 (ipv4 93 184 216 34), 80)]"
  have d: "host_decision (pe_match sample_proxy_env) ?l wildcard_state (lit ''other.org'') 80 = Blocked NotAllowed"
    by code_simp
  then have "evaluate_host_policy (pe_match sample_proxy_env) ?l (Inr None :: (unit, _) rresult) (Some (\<lambda>_. NetAllow))
      wildcard_state sample_net_request =
    Inr (wildcard_state, NetAllow, audit_event sample_net_request (NetAllow, True))"
    by (simp add: evaluate_host_policy_def host_blocked_def reload_if_needed_def decide_request_def
        sample_net_request_def Let_def)
  from this decider_lifts_only_missing_entries[OF this] d show ?thesis
    by (simp add: sample_net_request_def)
qed

section \<open>Blocked requests\<close>

text \<open>
  C40. An update of a domain list forgets the requests blocked while it was being prepared. It
  writes back the blocked requests of its snapshot, and the check before the write looks
  only at the configuration and the constraints: after the read, one recorded request and
  the write, the request and its count are gone.
\<close>

theorem update_loses_blocked_requests:
  assumes "host_parse h = Some host" "prepare_update env k host st = Inr (Some new)"
  shows "proxy_step env (st, []) (st, [UpdateTask st new]) \<and>
    proxy_step env (st, [UpdateTask st new]) (push_blocked entry st, [UpdateTask st new]) \<and>
    proxy_step env (push_blocked entry st, [UpdateTask st new]) (new, []) \<and>
    blocked new = blocked st \<and> blocked_total new = blocked_total st"
proof (intro conjI)
  show "proxy_step env (st, []) (st, [UpdateTask st new])"
    by (rule proxy_step.update_read[OF assms])
  show "proxy_step env (st, [UpdateTask st new]) (push_blocked entry st, [UpdateTask st new])"
    by (rule proxy_step.record_one)
  have "proxy_step env (push_blocked entry st, [UpdateTask st new]) (new, remove1 (UpdateTask st new) [UpdateTask st new])"
    by (rule proxy_step.update_write) (simp_all add: commit_update_def push_blocked_def)
  then show "proxy_step env (push_blocked entry st, [UpdateTask st new]) (new, [])" by simp
  show "blocked new = blocked st" "blocked_total new = blocked_total st"
    using assms(2) by (auto simp: prepare_update_def Let_def split: if_splits)
qed

theorem update_loses_blocked_requests_witness:
  "\<exists>new. proxy_step sample_proxy_env
       (push_blocked sample_blocked wildcard_state, [UpdateTask wildcard_state new]) (new, []) \<and>
     blocked (push_blocked sample_blocked wildcard_state) = [sample_blocked] \<and> blocked new = []"
proof -
  let ?st = wildcard_state and ?env = sample_proxy_env
  have "(case prepare_update ?env DenyList (lit ''evil.com'') ?st of Inr (Some _) \<Rightarrow> True | _ \<Rightarrow> False)" by code_simp
  then obtain new where n: "prepare_update ?env DenyList (lit ''evil.com'') ?st = Inr (Some new)"
    by (auto split: sum.splits option.splits)
  have h: "host_parse (lit ''Evil.com'') = Some (lit ''evil.com'')" by code_simp
  have b: "blocked ?st = []" "blocked (push_blocked sample_blocked ?st) = [sample_blocked]" by code_simp+
  from update_loses_blocked_requests[OF h n, of sample_blocked] b show ?thesis by auto
qed

text \<open>A forced reload keeps the requests but takes the count of the new state, which is zero.\<close>

lemma force_reload_resets_total:
  assumes "build_config_state env cfg cons = Inr new"
  shows "blocked (fst (force_reload (Inr new) st)) = blocked st \<and>
    blocked_total (fst (force_reload (Inr new) st)) = 0"
  using built_sets[OF assms] by (simp add: force_reload_def)
section \<open>Updates end and take effect\<close>

definition quiet :: "('e, 's, 'm) round \<Rightarrow> bool" where
  "quiet r \<longleftrightarrow> (\<forall>st. config (snd (snd r) st) = config st \<and> constraints (snd (snd r) st) = constraints st)"

lemma update_rounds_end: "list_ex quiet rounds \<Longrightarrow> update_rounds env target host rounds st \<noteq> None"
proof (induction env target host rounds st rule: update_rounds.induct)
  case (2 env target host before answer meanwhile rounds st)
  then show ?case
    by (auto simp: quiet_def commit_update_def split: sum.splits option.splits)
qed simp

lemma set_network_mode_ends: "list_ex quiet rounds \<Longrightarrow> set_network_mode env m rounds st \<noteq> None"
proof (induction env m rounds st rule: set_network_mode.induct)
  case (2 env m before answer meanwhile rounds st)
  then show ?case
    by (auto simp: quiet_def commit_mode_def split: sum.splits option.splits)
qed simp

text \<open>
  C21. The updates end: the loops that repeat an update of a domain list or of the mode until
  no other task got in between return at the latest in the first round during which no other
  task changes the policy or its constraints, whatever the reloader answers and whatever
  happens to the blocked requests.
\<close>

theorem updates_end:
  assumes "list_ex quiet rounds"
  shows "update_domain_list env rounds target h st \<noteq> None \<and> set_network_mode env m rounds st \<noteq> None"
proof
  show "update_domain_list env rounds target h st \<noteq> None"
    unfolding update_domain_list_def by (cases "host_parse h") (simp_all add: update_rounds_end[OF assms])
  show "set_network_mode env m rounds st \<noteq> None" by (rule set_network_mode_ends[OF assms])
qed

definition busy_round :: "(unit, rstr list, unit) round" where
  "busy_round = (id, Inr None, \<lambda>st. st\<lparr>config := (config st)\<lparr>net_mode := Limited\<rparr>\<rparr>)"

definition quiet_round :: "(unit, rstr list, unit) round" where
  "quiet_round = (id, Inr None, push_blocked sample_blocked)"

theorem updates_end_witness:
  "update_domain_list sample_proxy_env [busy_round] DenyList (lit ''evil.com'') sample_state = None \<and>
   update_domain_list sample_proxy_env [busy_round, quiet_round] DenyList (lit ''evil.com'') sample_state \<noteq> None \<and>
   set_network_mode sample_proxy_env Limited [busy_round, quiet_round] sample_state \<noteq> None"
proof -
  have "list_ex quiet [busy_round, quiet_round]"
    by (simp add: quiet_def quiet_round_def push_blocked_def)
  moreover have "update_domain_list sample_proxy_env [busy_round] DenyList (lit ''evil.com'') sample_state = None"
    by code_simp
  ultimately show ?thesis using updates_end by blast
qed

text \<open>A round in which the other tasks leave only states that the crate could have built.\<close>

definition lawful :: "('e, 'g, 's, 'm) proxy_env \<Rightarrow> ('e, 's, 'm) round \<Rightarrow> bool" where
  "lawful env r \<longleftrightarrow>
     (case r of (before, answer, meanwhile) \<Rightarrow>
        (\<forall>st. policy_ok env st \<longrightarrow> policy_ok env (before st) \<and> policy_ok env (meanwhile st)) \<and>
        (case answer of Inr (Some new) \<Rightarrow> policy_ok env new | _ \<Rightarrow> True))"

definition names_host :: "domain_list_kind \<Rightarrow> rstr \<Rightarrow> network_proxy_settings \<Rightarrow> bool" where
  "names_host k host cfg \<longleftrightarrow> (\<exists>e\<in>set (kind_entries k cfg). normalize_host e = host)"

lemma upsert_names:
  assumes "normalize_host host = host"
  shows "names_host k host (upsert_domain_permission host (kind_permission k) normalize_host cfg)"
    "e \<in> set (opposite_entries k (upsert_domain_permission host (kind_permission k) normalize_host cfg)) \<Longrightarrow>
     normalize_host e \<noteq> host"
proof -
  let ?c = "upsert_domain_permission host (kind_permission k) normalize_host cfg"
  note h = has_entry_upsert[where host = host and q = "kind_permission k" and normal = normalize_host and cfg = cfg]
  have "host \<in> set (kind_entries k ?c)"
  proof (cases k)
    case AllowList
    with h[of host] assms show ?thesis by (simp only: kind_entries.simps allowed_iff) simp
  next
    case DenyList
    with h[of host] show ?thesis by (simp only: kind_entries.simps denied_iff) simp
  qed
  with assms show "names_host k host ?c" unfolding names_host_def by blast
  show "normalize_host e \<noteq> host" if "e \<in> set (opposite_entries k ?c)"
  proof (cases k)
    case AllowList
    with that h[of e PermDeny] assms show ?thesis by (simp only: opposite_entries.simps denied_iff) auto
  next
    case DenyList
    with that h[of e PermAllow] h[of e PermDeny] assms show ?thesis
      by (simp only: opposite_entries.simps allowed_iff) auto
  qed
qed

lemma lawful_reload:
  assumes "lawful env (before, answer, meanwhile)" "policy_ok env st"
    and "reload_if_needed answer (before st) = Inr snap"
  shows "policy_ok env snap"
proof (cases answer)
  case (Inr r)
  have "policy_ok env (before st)" using assms(1,2) by (simp add: lawful_def)
  moreover have "snap = (case r of None \<Rightarrow> before st | Some new \<Rightarrow> carry_over (before st) new)"
    using assms(3) Inr by (simp add: reload_if_needed_def split: option.splits)
  moreover have "case r of Some new \<Rightarrow> policy_ok env new | None \<Rightarrow> True"
    using assms(1) Inr by (simp add: lawful_def)
  ultimately show ?thesis by (simp split: option.splits)
qed (use assms in \<open>simp add: reload_if_needed_def\<close>)

lemma update_rounds_effect:
  "normalize_host host = host \<Longrightarrow> update_rounds env k host rounds st = Some (st', Inr ()) \<Longrightarrow> list_all (lawful env) rounds \<Longrightarrow>
    policy_ok env st \<Longrightarrow>
    policy_ok env st' \<and> names_host k host (config st') \<and>
    (\<forall>e\<in>set (opposite_entries k (config st')). normalize_host e \<noteq> host)"
proof (induction env k host rounds st rule: update_rounds.induct)
  case (2 env k host before answer meanwhile rounds st)
  note host = 2(2)
  let ?good = "\<lambda>st'. policy_ok env st' \<and> names_host k host (config st') \<and>
    (\<forall>e\<in>set (opposite_entries k (config st')). normalize_host e \<noteq> host)"
  obtain snap where snap: "reload_if_needed answer (before st) = Inr snap"
    using 2(3) by (auto split: sum.splits)
  have law: "lawful env (before, answer, meanwhile)" and rest: "list_all (lawful env) rounds"
    using 2(4) by simp_all
  have ok: "policy_ok env snap"
    by (rule lawful_reload[OF law 2(5) snap])
  then have ok': "policy_ok env (meanwhile snap)" using law by (simp add: lawful_def)
  consider (same) "prepare_update env k host snap = Inr None" "st' = snap"
    | (written) new where "prepare_update env k host snap = Inr (Some new)" "st' = new"
    | (again) new where "prepare_update env k host snap = Inr (Some new)"
        "update_rounds env k host rounds (meanwhile snap) = Some (st', Inr ())"
        "commit_update snap new (meanwhile snap) = None"
    using 2(3) snap by (auto simp: commit_update_def split: sum.splits option.splits if_splits)
  then show ?case
  proof cases
    case same
    then show ?thesis
      using ok by (auto simp: prepare_update_def Let_def names_host_def list_ex_iff with_ctx_def split: if_splits sum.splits)
  next
    case written
    then show ?thesis
      using prepare_update_policy[OF written(1)] upsert_names[OF host, where k = k and cfg = "config snap"] by auto
  next
    case again
    from 2(1)[OF snap again(1) refl again(3) host again(2) rest ok'] show ?thesis .
  qed
qed simp

lemma exact_entry_matches:
  assumes "set_law build set_match glob_match" "glob_law glob glob_match" "dns_name host"
    and "compile_globset_with_policy glob build ps gw = Inr s" "e \<in> set ps" "normalize_host e = host"
  shows "set_match s host"
proof -
  have "domain_pattern_parse host = ExactDomain host"
    using dns_name_facts(1,2)[OF assms(3)] assms(3)
    by (simp add: domain_pattern_parse_def Let_def star_prefixes dns_name_def)
  then obtain g where "g \<in> globs_of glob (expand_domain_pattern host)" "glob_match g host"
    using expand_matches[OF assms(2,3), of host host] by auto
  moreover have "normalize_pattern e = host" by (rule host_entry_pattern[OF assms(3,6)])
  ultimately have "\<exists>g \<in> globs_of glob (candidates ps). glob_match g host"
    using assms(5) by (auto simp: candidates_def globs_of_def)
  then show ?thesis using compiled_match[OF assms(1,4)] by blast
qed

lemma named_hosts_match:
  assumes "set_law (pe_build env) (pe_match env) glob_match" "glob_law (pe_glob env) glob_match"
    and "policy_ok env st" "dns_name host"
  shows "names_host DenyList host (config st) \<Longrightarrow> pe_match env (deny_set st) host"
    and "names_host AllowList host (config st) \<Longrightarrow> pe_match env (allow_set st) host"
  using assms(3) exact_entry_matches[OF assms(1,2,4)]
  by (auto simp: names_host_def policy_ok_def compile_denylist_globset_def compile_allowlist_globset_def)

text \<open>
  C19. A denial takes effect: when adding a domain to the denied list succeeds, whatever the
  other tasks did in between, the policy is consistent, no allowed entry names the host, and
  requests to the host are blocked as denied.
\<close>

theorem denied_domain_blocked:
  assumes "set_law (pe_build env) (pe_match env) glob_match" "glob_law (pe_glob env) glob_match"
    and "policy_ok env st" "list_all (lawful env) rounds"
    and "host_parse h = Some host" "dns_name host"
    and "add_denied_domain env rounds h st = Some (st', Inr ())"
  shows "policy_ok env st' \<and> \<not> names_host AllowList host (config st') \<and>
    host_decision (pe_match env) lookup st' h port = Blocked Denied"
proof -
  have "host = normalize_host h" using assms(5) by (simp add: host_parse_def Let_def split: if_splits)
  then have low: "to_ascii_lowercase host = host" by (simp add: normalize_host_lowered)
  then have n: "normalize_host host = host" using normalize_host_dns[OF assms(6)] by simp
  have ok: "policy_ok env st'" "names_host DenyList host (config st')"
      "\<forall>e\<in>set (opposite_entries DenyList (config st')). normalize_host e \<noteq> host"
    using update_rounds_effect[OF n _ assms(4,3)] assms(5,7)
    by (auto simp: add_denied_domain_def update_domain_list_def)
  have "pe_match env (deny_set st') host" by (rule named_hosts_match(1)[OF assms(1,2) ok(1) assms(6) ok(2)])
  with assms(5) ok show ?thesis
    by (auto simp: names_host_def host_decision_def Let_def globset_matches_host_or_unscoped_def)
qed

theorem denied_domain_blocked_witness:
  "\<exists>st'. add_denied_domain sample_proxy_env [quiet_round] (lit ''Evil.com:80'') sample_state = Some (st', Inr ()) \<and>
     host_decision (pe_match sample_proxy_env) (\<lambda>_ _. DnsFailed) st' (lit ''Evil.com:80'') 80 = Blocked Denied"
proof -
  let ?r = "add_denied_domain sample_proxy_env [quiet_round] (lit ''Evil.com:80'') sample_state"
  have "case ?r of Some (st', Inr ()) \<Rightarrow> True | _ \<Rightarrow> False" by code_simp
  then obtain st' where st': "?r = Some (st', Inr ())"
    by (cases "?r") (simp_all only: option.case, auto split: sum.splits)
  have hp: "host_parse (lit ''Evil.com:80'') = Some (lit ''evil.com'')" by code_simp
  have dn: "dns_name (lit ''evil.com'')" by code_simp
  have law: "list_all (lawful sample_proxy_env) [quiet_round]"
    by (simp add: lawful_def quiet_round_def push_blocked_def policy_ok_def)
  show ?thesis
    using denied_domain_blocked[OF sample_laws sample_state_ok(1) law hp dn st'] st' by blast
qed

end
