(* ===== verification/Network_Spec.thy ===== *)
theory Network_Spec
  imports Exec_Approval Network_Proxy
begin

text \<open>
  \<open>core/src/config/network_proxy_spec.rs\<close> and the network requirements of
  \<open>config/src/config_requirements.rs\<close>: how a session puts together the settings of the proxy
  from the user's configuration, the managed requirements and the network rules of the exec
  policy. Starting the listeners is not modelled.
\<close>

section \<open>Requirements\<close>

datatype network_domain_permission_toml = TomlAllow | TomlDeny

datatype network_unix_socket_permission_toml = TomlSocketAllow | TomlSocketNone

type_synonym network_domain_permissions_toml = "(rstr \<times> network_domain_permission_toml) list"

type_synonym network_unix_socket_permissions_toml = "(rstr \<times> network_unix_socket_permission_toml) list"

record network_constraints =
  nc_enabled :: "bool option"
  nc_http_port :: "nat option"
  nc_socks_port :: "nat option"
  nc_allow_upstream_proxy :: "bool option"
  nc_dangerously_allow_non_loopback_proxy :: "bool option"
  nc_dangerously_allow_all_unix_sockets :: "bool option"
  nc_domains :: "network_domain_permissions_toml option"
  nc_managed_allowed_domains_only :: "bool option"
  nc_unix_sockets :: "network_unix_socket_permissions_toml option"
  nc_allow_local_binding :: "bool option"

text \<open>The requirements as they are written, with the lists of earlier versions.\<close>

record raw_network_requirements_toml = network_constraints +
  raw_allowed_domains :: "rstr list option"
  raw_denied_domains :: "rstr list option"
  raw_allow_unix_sockets :: "rstr list option"

datatype requirements_error = DomainsWithLegacyLists | SocketsWithLegacyList

definition toml_allowed_domains :: "network_domain_permissions_toml \<Rightarrow> rstr list option" where
  "toml_allowed_domains es = nonempty_some (map fst (filter (\<lambda>(_, p). p = TomlAllow) es))"

definition toml_denied_domains :: "network_domain_permissions_toml \<Rightarrow> rstr list option" where
  "toml_denied_domains es = nonempty_some (map fst (filter (\<lambda>(_, p). p = TomlDeny) es))"

definition toml_allow_unix_sockets :: "network_unix_socket_permissions_toml \<Rightarrow> rstr list" where
  "toml_allow_unix_sockets es = map fst (filter (\<lambda>(_, p). p = TomlSocketAllow) es)"

definition legacy_domain_permissions_from_lists ::
  "rstr list option \<Rightarrow> rstr list option \<Rightarrow> network_domain_permissions_toml option" where
  "legacy_domain_permissions_from_lists allowed denied =
     (let entries = foldl (\<lambda>m p. btree_insert p TomlAllow m) [] (or_empty allowed);
          entries = foldl (\<lambda>m p. btree_insert p TomlDeny m) entries (or_empty denied)
      in nonempty_some entries)"

definition legacy_unix_socket_permissions_from_list ::
  "rstr list option \<Rightarrow> network_unix_socket_permissions_toml option" where
  "legacy_unix_socket_permissions_from_list sockets =
     nonempty_some (foldl (\<lambda>m p. btree_insert p TomlSocketAllow m) [] (or_empty sockets))"

definition or_else :: "'a option \<Rightarrow> 'a option \<Rightarrow> 'a option" where
  "or_else x y = (case x of None \<Rightarrow> y | Some _ \<Rightarrow> x)"

definition requirements_from_raw ::
  "raw_network_requirements_toml \<Rightarrow> (requirements_error, network_constraints) rresult" where
  "requirements_from_raw raw =
     (if nc_domains raw \<noteq> None \<and> (raw_allowed_domains raw \<noteq> None \<or> raw_denied_domains raw \<noteq> None)
      then Inl DomainsWithLegacyLists
      else if nc_unix_sockets raw \<noteq> None \<and> raw_allow_unix_sockets raw \<noteq> None
      then Inl SocketsWithLegacyList
      else Inr ((network_constraints.truncate raw)
        \<lparr>nc_domains := or_else (nc_domains raw)
           (legacy_domain_permissions_from_lists (raw_allowed_domains raw) (raw_denied_domains raw)),
         nc_unix_sockets := or_else (nc_unix_sockets raw)
           (legacy_unix_socket_permissions_from_list (raw_allow_unix_sockets raw))\<rparr>))"

section \<open>The settings of a session\<close>

record network_proxy_spec =
  base_config :: network_proxy_settings
  requirements :: "network_constraints option"
  spec_config :: network_proxy_settings
  spec_constraints :: network_proxy_constraints
  hard_deny_allowlist_misses :: bool

definition default_constraints :: network_proxy_constraints where
  "default_constraints =
     \<lparr>c_enabled = None, c_mode = None, c_allow_upstream_proxy = None,
      c_dangerously_allow_non_loopback_proxy = None, c_dangerously_allow_all_unix_sockets = None,
      c_allowed_domains = None, c_allowlist_expansion_enabled = None, c_denied_domains = None,
      c_denylist_expansion_enabled = None, c_allow_unix_sockets = None, c_allow_local_binding = None\<rparr>"

definition managed_sandbox_active :: "('fs, 'net) permission_profile \<Rightarrow> bool" where
  "managed_sandbox_active profile = (case profile of Managed _ _ \<Rightarrow> True | _ \<Rightarrow> False)"

definition managed_allowed_domains_only :: "network_constraints \<Rightarrow> bool" where
  "managed_allowed_domains_only req = (nc_managed_allowed_domains_only req = Some True)"

definition allowlist_expansion_enabled :: "('fs, 'net) permission_profile \<Rightarrow> bool \<Rightarrow> bool" where
  "allowlist_expansion_enabled profile hard = (managed_sandbox_active profile \<and> \<not> hard)"

definition denylist_expansion_enabled :: "('fs, 'net) permission_profile \<Rightarrow> bool" where
  "denylist_expansion_enabled profile = managed_sandbox_active profile"

fun merge_domain_lists :: "rstr list \<Rightarrow> rstr list \<Rightarrow> rstr list" where
  "merge_domain_lists managed [] = managed"
| "merge_domain_lists managed (e # es) =
     merge_domain_lists
       (if list_ex (\<lambda>m. to_ascii_lowercase m = to_ascii_lowercase e) managed then managed else managed @ [e]) es"

definition if_some :: "'a option \<Rightarrow> ('a \<Rightarrow> 's \<Rightarrow> 's) \<Rightarrow> 's \<Rightarrow> 's" where
  "if_some x f s = (case x of None \<Rightarrow> s | Some v \<Rightarrow> f v s)"

definition loopback_url :: "nat \<Rightarrow> rstr" where
  "loopback_url port = lit ''http://127.0.0.1:'' @ show_nat port"

type_synonym constrained_settings = "network_proxy_settings \<times> network_proxy_constraints"

definition apply_switches :: "network_constraints \<Rightarrow> constrained_settings \<Rightarrow> constrained_settings" where
  "apply_switches req s =
     if_some (nc_dangerously_allow_all_unix_sockets req)
       (\<lambda>v (cfg, cons). (cfg\<lparr>dangerously_allow_all_unix_sockets := v\<rparr>,
          cons\<lparr>c_dangerously_allow_all_unix_sockets := Some v\<rparr>))
     (if_some (nc_dangerously_allow_non_loopback_proxy req)
       (\<lambda>v (cfg, cons). (cfg\<lparr>dangerously_allow_non_loopback_proxy := v\<rparr>,
          cons\<lparr>c_dangerously_allow_non_loopback_proxy := Some v\<rparr>))
     (if_some (nc_allow_upstream_proxy req)
       (\<lambda>v (cfg, cons). (cfg\<lparr>allow_upstream_proxy := v\<rparr>, cons\<lparr>c_allow_upstream_proxy := Some v\<rparr>))
     (if_some (nc_socks_port req) (\<lambda>port (cfg, cons). (cfg\<lparr>socks_url := loopback_url port\<rparr>, cons))
     (if_some (nc_http_port req) (\<lambda>port (cfg, cons). (cfg\<lparr>proxy_url := loopback_url port\<rparr>, cons))
     (if_some (nc_enabled req)
       (\<lambda>v (cfg, cons). (cfg\<lparr>enabled := v\<rparr>, cons\<lparr>c_enabled := Some v\<rparr>)) s)))))"

definition apply_allowed :: "bool \<Rightarrow> rstr list \<Rightarrow> constrained_settings \<Rightarrow> constrained_settings" where
  "apply_allowed expansion managed s =
     (let (cfg, cons) = s;
          effective = (if expansion then merge_domain_lists managed (or_empty (allowed_domains cfg)) else managed)
      in (set_allowed_domains effective cfg,
          cons\<lparr>c_allowed_domains := Some managed, c_allowlist_expansion_enabled := Some expansion\<rparr>))"

definition apply_denied :: "bool \<Rightarrow> rstr list \<Rightarrow> constrained_settings \<Rightarrow> constrained_settings" where
  "apply_denied expansion managed s =
     (let (cfg, cons) = s;
          effective = (if expansion then merge_domain_lists managed (or_empty (denied_domains cfg)) else managed)
      in (set_denied_domains effective cfg,
          cons\<lparr>c_denied_domains := Some managed, c_denylist_expansion_enabled := Some expansion\<rparr>))"

definition apply_local :: "network_constraints \<Rightarrow> constrained_settings \<Rightarrow> constrained_settings" where
  "apply_local req s =
     if_some (nc_allow_local_binding req)
       (\<lambda>v (cfg, cons). (cfg\<lparr>allow_local_binding := v\<rparr>, cons\<lparr>c_allow_local_binding := Some v\<rparr>))
     (if_some (nc_unix_sockets req)
       (\<lambda>es (cfg, cons). (set_allow_unix_sockets (toml_allow_unix_sockets es) cfg,
          cons\<lparr>c_allow_unix_sockets := Some (toml_allow_unix_sockets es)\<rparr>)) s)"

definition managed_allowed :: "network_constraints \<Rightarrow> bool \<Rightarrow> rstr list option" where
  "managed_allowed req hard =
     (let listed = Option.bind (nc_domains req) toml_allowed_domains
      in if hard then Some (or_empty listed) else listed)"

definition apply_requirements ::
  "network_proxy_settings \<Rightarrow> network_constraints \<Rightarrow> ('fs, 'net) permission_profile \<Rightarrow> bool \<Rightarrow>
   constrained_settings" where
  "apply_requirements cfg req profile hard =
     apply_local req
     (if_some (Option.bind (nc_domains req) toml_denied_domains) (apply_denied (denylist_expansion_enabled profile))
     (if_some (managed_allowed req hard) (apply_allowed (allowlist_expansion_enabled profile hard))
     (apply_switches req (cfg, default_constraints))))"

definition from_config_and_constraints ::
  "hook_env \<Rightarrow> (rstr \<Rightarrow> rstr option) \<Rightarrow> network_proxy_settings \<Rightarrow> network_constraints option \<Rightarrow>
   ('fs, 'net) permission_profile \<Rightarrow> (network_proxy_constraint_error, network_proxy_spec) rresult" where
  "from_config_and_constraints henv url_host cfg reqs profile =
     (let hard = (case reqs of None \<Rightarrow> False | Some req \<Rightarrow> managed_allowed_domains_only req);
          (config', cons) = (case reqs of
             None \<Rightarrow> (cfg, default_constraints)
           | Some req \<Rightarrow> apply_requirements cfg req profile hard)
      in and_then (validate_policy_against_constraints henv url_host config' cons) (\<lambda>_.
         Inr \<lparr>base_config = cfg, requirements = reqs, spec_config = config', spec_constraints = cons,
              hard_deny_allowlist_misses = hard\<rparr>))"

definition recompute_for_permission_profile ::
  "hook_env \<Rightarrow> (rstr \<Rightarrow> rstr option) \<Rightarrow> network_proxy_spec \<Rightarrow> ('fs, 'net) permission_profile \<Rightarrow>
   (network_proxy_constraint_error, network_proxy_spec) rresult" where
  "recompute_for_permission_profile henv url_host spec profile =
     from_config_and_constraints henv url_host (base_config spec) (requirements spec) profile"

fun upsert_network_domains ::
  "rstr set \<Rightarrow> rstr list \<Rightarrow> network_domain_permission \<Rightarrow> network_proxy_settings \<Rightarrow> network_proxy_settings" where
  "upsert_network_domains incoming [] permission cfg = cfg"
| "upsert_network_domains incoming (h # hs) permission cfg =
     upsert_network_domains (insert h incoming) hs permission
       (if h \<in> incoming then cfg else upsert_domain_permission h permission normalize_host cfg)"

definition apply_exec_policy_network_rules :: "policy \<Rightarrow> network_proxy_settings \<Rightarrow> network_proxy_settings" where
  "apply_exec_policy_network_rules p cfg =
     (let (allowed, denied) = compiled_network_domains p
      in upsert_network_domains {} denied PermDeny (upsert_network_domains {} allowed PermAllow cfg))"

definition with_exec_policy_network_rules ::
  "hook_env \<Rightarrow> (rstr \<Rightarrow> rstr option) \<Rightarrow> policy \<Rightarrow> network_proxy_spec \<Rightarrow>
   (network_proxy_constraint_error, network_proxy_spec) rresult" where
  "with_exec_policy_network_rules henv url_host p spec =
     (let spec' = spec\<lparr>spec_config := apply_exec_policy_network_rules p (spec_config spec)\<rparr>
      in and_then (validate_policy_against_constraints henv url_host (spec_config spec') (spec_constraints spec'))
           (\<lambda>_. Inr spec'))"

definition build_config_state_for_spec ::
  "('e, 'g, 's, 'm) proxy_env \<Rightarrow> network_proxy_spec \<Rightarrow> ('e state_error, ('s, 'm) config_state) rresult" where
  "build_config_state_for_spec env spec = build_config_state env (spec_config spec) (spec_constraints spec)"

text \<open>The reloader of a session never has a new state by itself.\<close>

definition apply_to_started_proxy ::
  "('e, 'g, 's, 'm) proxy_env \<Rightarrow> network_proxy_spec \<Rightarrow> ('s, 'm) config_state \<Rightarrow>
   ('e state_error, ('s, 'm) config_state) rresult" where
  "apply_to_started_proxy env spec st =
     and_then (build_config_state_for_spec env spec) (\<lambda>new. replace_config_state (Inr None) new st)"

text \<open>The approval callback the proxy is started with.\<close>

definition started_decider ::
  "network_proxy_spec \<Rightarrow> ('fs, 'net) permission_profile \<Rightarrow> (network_policy_request \<Rightarrow> network_decision) option \<Rightarrow>
   bool \<Rightarrow> (network_policy_request \<Rightarrow> network_decision) option" where
  "started_decider spec profile policy_decider enable_network_approval_flow =
     (if enable_network_approval_flow \<and> \<not> hard_deny_allowlist_misses spec
      then (case policy_decider of
              Some decide \<Rightarrow> Some decide
            | None \<Rightarrow> if managed_sandbox_active profile
                      then Some (\<lambda>_. ask_with_source (lit ''not_allowed'') Decider) else None)
      else None)"

section \<open>Managed lists\<close>

lemma apply_local_constraints [simp]:
  "c_allowed_domains (snd (apply_local req s)) = c_allowed_domains (snd s)"
  "c_allowlist_expansion_enabled (snd (apply_local req s)) = c_allowlist_expansion_enabled (snd s)"
  by (auto simp: apply_local_def if_some_def split: option.splits prod.splits)

lemma apply_denied_constraints [simp]:
  "c_allowed_domains (snd (if_some x (apply_denied expansion) s)) = c_allowed_domains (snd s)"
  "c_allowlist_expansion_enabled (snd (if_some x (apply_denied expansion) s)) = c_allowlist_expansion_enabled (snd s)"
  by (auto simp: apply_denied_def if_some_def Let_def split: option.splits prod.splits)

lemma apply_allowed_constraints [simp]:
  "c_allowed_domains (snd (if_some (Some managed) (apply_allowed expansion) s)) = Some managed"
  "c_allowlist_expansion_enabled (snd (if_some (Some managed) (apply_allowed expansion) s)) = Some expansion"
  by (simp_all add: apply_allowed_def if_some_def Let_def split: prod.splits)

lemma apply_requirements_hard:
  "c_allowed_domains (snd (apply_requirements cfg req profile True)) =
     Some (or_empty (Option.bind (nc_domains req) toml_allowed_domains))"
  "c_allowlist_expansion_enabled (snd (apply_requirements cfg req profile True)) = Some False"
  by (simp_all add: apply_requirements_def managed_allowed_def allowlist_expansion_enabled_def)

lemma hard_spec:
  assumes "from_config_and_constraints henv url_host cfg (Some req) profile = Inr spec"
    and "nc_managed_allowed_domains_only req = Some True"
  shows "hard_deny_allowlist_misses spec"
    "c_allowed_domains (spec_constraints spec) = Some (or_empty (Option.bind (nc_domains req) toml_allowed_domains))"
    "c_allowlist_expansion_enabled (spec_constraints spec) = Some False"
proof -
  obtain c k where ck: "apply_requirements cfg req profile True = (c, k)" by fastforce
  have "spec = \<lparr>base_config = cfg, requirements = Some req, spec_config = c, spec_constraints = k,
      hard_deny_allowlist_misses = True\<rparr>"
    using assms ck by (simp add: from_config_and_constraints_def managed_allowed_domains_only_def)
  then show "hard_deny_allowlist_misses spec"
    "c_allowed_domains (spec_constraints spec) = Some (or_empty (Option.bind (nc_domains req) toml_allowed_domains))"
    "c_allowlist_expansion_enabled (spec_constraints spec) = Some False"
    using apply_requirements_hard[of cfg req profile] ck by simp_all
qed

lemma spec_valid:
  assumes "from_config_and_constraints henv url_host cfg reqs profile = Inr spec"
  shows "validate_policy_against_constraints henv url_host (spec_config spec) (spec_constraints spec) = Inr ()"
  using assms by (auto simp: from_config_and_constraints_def Let_def split: prod.splits)

lemma started_policy:
  assumes "with_exec_policy_network_rules (pe_hooks env) (pe_url_host env) p spec = Inr spec'"
    and "build_config_state_for_spec env spec' = Inr st"
  shows "policy_ok env st" "config st = apply_exec_policy_network_rules p (spec_config spec)"
    "constraints st = spec_constraints spec" "hard_deny_allowlist_misses spec' = hard_deny_allowlist_misses spec"
proof -
  let ?c = "apply_exec_policy_network_rules p (spec_config spec)"
  have v: "validate_policy_against_constraints (pe_hooks env) (pe_url_host env) ?c (spec_constraints spec) = Inr ()"
    and s: "spec' = spec\<lparr>spec_config := ?c\<rparr>"
    using assms(1) by (simp_all add: with_exec_policy_network_rules_def Let_def)
  have b: "build_config_state env ?c (spec_constraints spec) = Inr st"
    using assms(2) s by (simp add: build_config_state_for_spec_def)
  from built_sets[OF b] v show "policy_ok env st" "config st = ?c" "constraints st = spec_constraints spec"
    by (simp_all add: policy_ok_def compile_denylist_globset_def compile_allowlist_globset_def)
  show "hard_deny_allowlist_misses spec' = hard_deny_allowlist_misses spec" using s by simp
qed

text \<open>
  C9. When the requirements say that only managed domains are allowed, nothing else is: in
  every consistent state under the constraints of the session, so after any rules of the exec
  policy and any updates, a request to a host that the managed list does not match is refused,
  and the approval callback is not asked.
\<close>

theorem managed_domains_only:
  assumes "set_law (pe_build env) (pe_match env) glob_match"
    and "from_config_and_constraints henv url_host cfg (Some req) profile = Inr spec"
    and "nc_managed_allowed_domains_only req = Some True"
    and "policy_ok env st" "constraints st = spec_constraints spec"
    and "compile_allowlist_globset (pe_glob env) (pe_build env)
      (or_empty (Option.bind (nc_domains req) toml_allowed_domains)) = Inr managed"
    and "host_parse (nr_host request) = Some host"
    and "\<not> globset_matches_host_or_unscoped (pe_match env) managed host"
  shows "\<exists>reason. fst (decide_request (started_decider spec profile decider flow) request
      (host_decision (pe_match env) lookup st (nr_host request) (nr_port request))) =
    NetDeny reason BaselinePolicy DenyDecision"
proof -
  note spec = hard_spec[OF assms(2,3)]
  have ok: "within_constraints (pe_hooks env) (pe_url_host env) (config st) (constraints st)"
    and c: "compile_globset_with_policy (pe_glob env) (pe_build env) (or_empty (allowed_domains (config st)))
       AllowGlobalWildcard = Inr (allow_set st)"
    using assms(4) by (simp_all add: policy_ok_def validate_iff compile_allowlist_globset_def)
  have "lower_set (or_empty (allowed_domains (config st))) \<subseteq>
      lower_set (or_empty (Option.bind (nc_domains req) toml_allowed_domains))"
    using ok spec assms(5) by (auto simp: within_constraints_def)
  then have "pe_match env (allow_set st) h \<Longrightarrow> pe_match env managed h" for h
    using more_candidates_match[OF assms(1) c assms(6)[unfolded compile_allowlist_globset_def]] by blast
  then have "\<not> globset_matches_host_or_unscoped (pe_match env) (allow_set st) host"
    using assms(8) by (auto simp: globset_matches_host_or_unscoped_def split: option.splits)
  then have "host_decision (pe_match env) lookup st (nr_host request) (nr_port request) \<noteq> Allowed"
    using assms(7) by (simp add: host_decision_Allowed)
  moreover have "started_decider spec profile decider flow = None"
    using spec(1) by (simp add: started_decider_def)
  ultimately show ?thesis
    by (cases "host_decision (pe_match env) lookup st (nr_host request) (nr_port request)")
       (auto simp: decide_request_def deny_with_source_def split: host_block_reason.splits)
qed

definition sample_requirements :: network_constraints where
  "sample_requirements =
     \<lparr>nc_enabled = Some True, nc_http_port = None, nc_socks_port = None, nc_allow_upstream_proxy = None,
      nc_dangerously_allow_non_loopback_proxy = None, nc_dangerously_allow_all_unix_sockets = None,
      nc_domains = Some [(lit ''*.example.com'', TomlAllow), (lit ''evil.com'', TomlDeny)],
      nc_managed_allowed_domains_only = Some True, nc_unix_sockets = None, nc_allow_local_binding = None\<rparr>"

definition sample_spec :: "(network_proxy_constraint_error, network_proxy_spec) rresult" where
  "sample_spec = from_config_and_constraints (pe_hooks sample_proxy_env) (pe_url_host sample_proxy_env)
     sample_settings (Some sample_requirements) (Managed () ())"

theorem managed_domains_only_witness:
  "\<exists>spec st reason. sample_spec = Inr spec \<and> build_config_state_for_spec sample_proxy_env spec = Inr st \<and>
     fst (decide_request (started_decider spec (Managed () ()) (Some (\<lambda>_. NetAllow)) True) sample_net_request
       (host_decision (pe_match sample_proxy_env) (\<lambda>_ _. DnsFailed) st (nr_host sample_net_request)
         (nr_port sample_net_request))) = NetDeny reason BaselinePolicy DenyDecision"
proof -
  let ?env = sample_proxy_env and ?b = "build_config_state_for_spec sample_proxy_env (projr sample_spec)"
  have "\<not> isl sample_spec" by code_simp
  then obtain spec where s: "sample_spec = Inr spec" by (metis sum.collapse(2))
  have "\<not> isl ?b" by code_simp
  then obtain st where st: "build_config_state_for_spec ?env spec = Inr st"
    unfolding s sum.sel by (metis sum.collapse(2))
  have b: "build_config_state ?env (spec_config spec) (spec_constraints spec) = Inr st"
    using st by (simp add: build_config_state_for_spec_def)
  note from_s = s[unfolded sample_spec_def]
  have ok: "policy_ok ?env st" "constraints st = spec_constraints spec"
    using built_sets[OF b] spec_valid[OF from_s]
    by (simp_all add: policy_ok_def compile_denylist_globset_def compile_allowlist_globset_def)
  have only: "nc_managed_allowed_domains_only sample_requirements = Some True"
    by (simp add: sample_requirements_def)
  have m: "compile_allowlist_globset (pe_glob ?env) (pe_build ?env)
      (or_empty (Option.bind (nc_domains sample_requirements) toml_allowed_domains)) = Inr [lit ''?*.example.com'']"
    by code_simp
  have h: "host_parse (nr_host sample_net_request) = Some (lit ''other.org'')" by code_simp
  have u: "\<not> globset_matches_host_or_unscoped (pe_match ?env) [lit ''?*.example.com''] (lit ''other.org'')"
    by code_simp
  from managed_domains_only[OF sample_laws(1) from_s only ok m h u] s st show ?thesis by blast
qed

section \<open>Network rules\<close>

lemma upsert_network_domains_has:
  assumes "\<And>h. h \<in> set hs \<Longrightarrow> normalize_host h = h"
  shows "has_entry (or_empty (domains (upsert_network_domains incoming hs q cfg))) p r \<longleftrightarrow>
    (p \<in> set hs - incoming \<and> r = q) \<or>
    normalize_host p \<notin> set hs - incoming \<and> has_entry (or_empty (domains cfg)) p r"
  using assms
proof (induction incoming hs q cfg rule: upsert_network_domains.induct)
  case (2 incoming h hs q cfg)
  have h: "normalize_host h = h" using 2(2) by simp
  note step = has_entry_upsert[where host = h and q = q and normal = normalize_host and cfg = cfg, unfolded h]
  show ?case
  proof (cases "h \<in> incoming")
    case True
    with 2 show ?thesis by (auto simp: insert_absorb)
  next
    case False
    with 2 step h show ?thesis by auto
  qed
qed simp

lemma decisive_rule_decides: "decisive_rule p host = Some r \<Longrightarrow> net_decision r \<noteq> Prompt"
  using last_opt_mem[of "filter (\<lambda>r. net_host r = host \<and> net_decision r \<noteq> Prompt) (network_rules p)" r]
  by (auto simp: decisive_rule_def)

lemma rule_hosts_listed:
  assumes "compiled_network_domains p = (allowed, denied)" "h \<in> set (allowed @ denied)"
  shows "\<exists>r\<in>set (network_rules p). net_host r = h"
proof -
  have "decisive_rule p h \<noteq> None"
    using compiled_domains_decisive[of p h] assms by auto
  then obtain r where "last_opt (filter (\<lambda>r. net_host r = h \<and> net_decision r \<noteq> Prompt) (network_rules p)) = Some r"
    by (auto simp: decisive_rule_def)
  then have "r \<in> set (filter (\<lambda>r. net_host r = h \<and> net_decision r \<noteq> Prompt) (network_rules p))"
    by (rule last_opt_mem)
  then show ?thesis by auto
qed

lemma applied_rules:
  assumes "list_all (\<lambda>r. normalize_host (net_host r) = net_host r) (network_rules p)"
    and "compiled_network_domains p = (allowed, denied)"
  shows "has_entry (or_empty (domains (apply_exec_policy_network_rules p cfg))) e q \<longleftrightarrow>
    (e \<in> set denied \<and> q = PermDeny) \<or>
    normalize_host e \<notin> set denied \<and> (e \<in> set allowed \<and> q = PermAllow \<or>
      normalize_host e \<notin> set allowed \<and> has_entry (or_empty (domains cfg)) e q)"
proof -
  have n: "normalize_host h = h" if "h \<in> set (allowed @ denied)" for h
    using rule_hosts_listed[OF assms(2) that] assms(1) by (auto simp: list_all_iff)
  have "has_entry (or_empty (domains (upsert_network_domains {} denied PermDeny c))) e q \<longleftrightarrow>
      (e \<in> set denied - {} \<and> q = PermDeny) \<or>
      normalize_host e \<notin> set denied - {} \<and> has_entry (or_empty (domains c)) e q" for c
    by (rule upsert_network_domains_has) (simp add: n)
  moreover have "has_entry (or_empty (domains (upsert_network_domains {} allowed PermAllow cfg))) e q \<longleftrightarrow>
      (e \<in> set allowed - {} \<and> q = PermAllow) \<or>
      normalize_host e \<notin> set allowed - {} \<and> has_entry (or_empty (domains cfg)) e q"
    by (rule upsert_network_domains_has) (simp add: n)
  ultimately show ?thesis
    unfolding apply_exec_policy_network_rules_def assms(2) Let_def prod.case by (simp only: Diff_empty)
qed

lemma forbidden_rule_named:
  assumes "list_all (\<lambda>r. normalize_host (net_host r) = net_host r) (network_rules p)"
    and "compiled_network_domains p = (allowed, denied)" "host \<in> set denied" "normalize_host host = host"
  shows "names_host DenyList host (apply_exec_policy_network_rules p cfg)"
proof -
  have "host \<in> set (kind_entries DenyList (apply_exec_policy_network_rules p cfg))"
    unfolding kind_entries.simps denied_iff applied_rules[OF assms(1,2)] using assms(3) by simp
  with assms(4) show ?thesis unfolding names_host_def by blast
qed

lemma allowing_rule_named:
  assumes "list_all (\<lambda>r. normalize_host (net_host r) = net_host r) (network_rules p)"
    and "compiled_network_domains p = (allowed, denied)" "host \<in> set allowed" "normalize_host host = host"
  shows "names_host AllowList host (apply_exec_policy_network_rules p cfg)"
    "\<not> names_host DenyList host (apply_exec_policy_network_rules p cfg)"
proof -
  have nd: "host \<notin> set denied"
    using compiled_domains_decisive[of p host] assms(2,3) by auto
  have n: "normalize_host h = h" if "h \<in> set (allowed @ denied)" for h
    using rule_hosts_listed[OF assms(2) that] assms(1) by (auto simp: list_all_iff)
  have "host \<in> set (kind_entries AllowList (apply_exec_policy_network_rules p cfg))"
    unfolding kind_entries.simps allowed_iff applied_rules[OF assms(1,2)] using assms(3,4) nd by simp
  with assms(4) show "names_host AllowList host (apply_exec_policy_network_rules p cfg)"
    unfolding names_host_def by blast
  have "normalize_host e \<noteq> host" if "e \<in> set (kind_entries DenyList (apply_exec_policy_network_rules p cfg))" for e
    using that[unfolded kind_entries.simps denied_iff applied_rules[OF assms(1,2)]] n[of e] nd assms(3) by auto
  then show "\<not> names_host DenyList host (apply_exec_policy_network_rules p cfg)"
    unfolding names_host_def by blast
qed


definition sample_net_policy :: policy where
  "sample_net_policy = policy_empty\<lparr>network_rules :=
     [\<lparr>net_host = lit ''evil.com'', net_protocol = Https, net_decision = Allow, net_justification = None\<rparr>,
      \<lparr>net_host = lit ''evil.com'', net_protocol = Https, net_decision = Forbidden, net_justification = None\<rparr>]\<rparr>"

definition plain_spec :: network_proxy_spec where
  "plain_spec = \<lparr>base_config = sample_settings, requirements = None, spec_config = sample_settings,
     spec_constraints = default_constraints, hard_deny_allowlist_misses = False\<rparr>"


end
