(* ===== verification/Stream_Parsers.thy ===== *)
theory Stream_Parsers
  imports Rust_Prelude
begin

text \<open>
  \<open>utils/stream-parser\<close>: parsers that take the text of the assistant as it arrives, show what
  is safe to show and extract the hidden parts. The trait \<open>StreamTextParser\<close> is the locale
  \<open>stream_text_parser\<close>; its law is that the way the text is cut into chunks does not matter.
  Positions are counted in characters where the code counts bytes; both order the prefixes and
  suffixes of one text in the same way.
\<close>

section \<open>Chunks\<close>

record 'x stream_text_chunk =
  visible_text :: rstr
  extracted :: "'x list"

definition chunk_default :: "'x stream_text_chunk" where
  "chunk_default = \<lparr>visible_text = [], extracted = []\<rparr>"

definition chunk_append :: "'x stream_text_chunk \<Rightarrow> 'x stream_text_chunk \<Rightarrow> 'x stream_text_chunk" where
  "chunk_append a b = \<lparr>visible_text = visible_text a @ visible_text b, extracted = extracted a @ extracted b\<rparr>"

section \<open>Hidden inline tags\<close>

record 't inline_tag_spec =
  spec_tag :: 't
  spec_open :: rstr
  spec_close :: rstr

record 't extracted_inline_tag =
  ex_tag :: 't
  ex_content :: rstr

record 't active_tag =
  act_tag :: 't
  act_close :: rstr
  act_content :: rstr

record 't inline_hidden_tag_parser =
  ip_specs :: "'t inline_tag_spec list"
  ip_pending :: rstr
  ip_active :: "'t active_tag option"

text \<open>\<open>InlineHiddenTagParser::new\<close> panics without specifications and on empty delimiters.\<close>

definition inline_new :: "'t inline_tag_spec list \<Rightarrow> 't inline_hidden_tag_parser option" where
  "inline_new specs =
     (if specs = [] then None
      else if list_ex (\<lambda>s. spec_open s = [] \<or> spec_close s = []) specs then None
      else Some \<lparr>ip_specs = specs, ip_pending = [], ip_active = None\<rparr>)"

fun longest_from :: "nat \<Rightarrow> rstr \<Rightarrow> rstr \<Rightarrow> nat" where
  "longest_from 0 s needle = 0"
| "longest_from (Suc k) s needle = (if ends_with (take (Suc k) needle) s then Suc k else longest_from k s needle)"

definition longest_suffix_prefix_len :: "rstr \<Rightarrow> rstr \<Rightarrow> nat" where
  "longest_suffix_prefix_len s needle = longest_from (min (length s) (length needle - 1)) s needle"

fun open_matches :: "rstr \<Rightarrow> nat \<Rightarrow> 't inline_tag_spec list \<Rightarrow> (nat \<times> nat \<times> nat) list" where
  "open_matches pending idx [] = []"
| "open_matches pending idx (spec # specs) =
     (case find_sub (spec_open spec) pending of
        Some pos \<Rightarrow> (pos, length (spec_open spec), idx) # open_matches pending (Suc idx) specs
      | None \<Rightarrow> open_matches pending (Suc idx) specs)"

fun open_before :: "nat \<times> nat \<times> nat \<Rightarrow> nat \<times> nat \<times> nat \<Rightarrow> bool" where
  "open_before (pos_a, len_a, idx_a) (pos_b, len_b, idx_b) \<longleftrightarrow>
     pos_a < pos_b \<or> pos_a = pos_b \<and> (len_b < len_a \<or> len_a = len_b \<and> idx_a < idx_b)"

fun min_by :: "('a \<Rightarrow> 'a \<Rightarrow> bool) \<Rightarrow> 'a list \<Rightarrow> 'a option" where
  "min_by lt [] = None"
| "min_by lt (x # xs) = Some (foldl (\<lambda>m y. if lt y m then y else m) x xs)"

definition find_next_open :: "'t inline_tag_spec list \<Rightarrow> rstr \<Rightarrow> (nat \<times> nat) option" where
  "find_next_open specs pending =
     map_option (\<lambda>(pos, _, idx). (pos, idx)) (min_by open_before (open_matches pending 0 specs))"

definition max_open_prefix_suffix_len :: "'t inline_tag_spec list \<Rightarrow> rstr \<Rightarrow> nat" where
  "max_open_prefix_suffix_len specs pending =
     foldl max 0 (map (\<lambda>s. longest_suffix_prefix_len pending (spec_open s)) specs)"

text \<open>The loop of \<open>push_str\<close>; a loop that never ends is \<open>None\<close>.\<close>

partial_function (option) inline_loop ::
  "'t inline_tag_spec list \<Rightarrow> rstr \<Rightarrow> 't active_tag option \<Rightarrow> 't extracted_inline_tag stream_text_chunk \<Rightarrow>
   (rstr \<times> 't active_tag option \<times> 't extracted_inline_tag stream_text_chunk) option" where
  "inline_loop specs pending active out =
     (case active of
        Some a \<Rightarrow>
          (case find_sub (act_close a) pending of
             Some i \<Rightarrow>
               inline_loop specs (drop (i + length (act_close a)) pending) None
                 (out\<lparr>extracted := extracted out @
                    [\<lparr>ex_tag = act_tag a, ex_content = act_content a @ take i pending\<rparr>]\<rparr>)
           | None \<Rightarrow>
               (let take_len = length pending - longest_suffix_prefix_len pending (act_close a)
                in Some (drop take_len pending,
                         Some (a\<lparr>act_content := act_content a @ take take_len pending\<rparr>), out)))
      | None \<Rightarrow>
          (case find_next_open specs pending of
             Some (pos, idx) \<Rightarrow>
               inline_loop specs (drop (pos + length (spec_open (specs ! idx))) pending)
                 (Some \<lparr>act_tag = spec_tag (specs ! idx), act_close = spec_close (specs ! idx), act_content = []\<rparr>)
                 (out\<lparr>visible_text := visible_text out @ take pos pending\<rparr>)
           | None \<Rightarrow>
               (let take_len = length pending - max_open_prefix_suffix_len specs pending
                in Some (drop take_len pending, None,
                         out\<lparr>visible_text := visible_text out @ take take_len pending\<rparr>))))"

definition inline_push_str ::
  "'t inline_hidden_tag_parser \<Rightarrow> rstr \<Rightarrow>
   ('t inline_hidden_tag_parser \<times> 't extracted_inline_tag stream_text_chunk) option" where
  "inline_push_str p chunk =
     map_option (\<lambda>(pending, active, out). (p\<lparr>ip_pending := pending, ip_active := active\<rparr>, out))
       (inline_loop (ip_specs p) (ip_pending p @ chunk) (ip_active p) chunk_default)"

definition inline_finish ::
  "'t inline_hidden_tag_parser \<Rightarrow> 't inline_hidden_tag_parser \<times> 't extracted_inline_tag stream_text_chunk" where
  "inline_finish p =
     (let p' = p\<lparr>ip_pending := [], ip_active := None\<rparr> in
      case ip_active p of
        Some a \<Rightarrow> (p', chunk_default\<lparr>extracted :=
                    [\<lparr>ex_tag = act_tag a, ex_content = act_content a @ ip_pending p\<rparr>]\<rparr>)
      | None \<Rightarrow> (p', chunk_default\<lparr>visible_text := ip_pending p\<rparr>))"

section \<open>Citations\<close>

datatype citation_tag = Citation

definition CITATION_OPEN :: rstr where "CITATION_OPEN = lit ''<oai-mem-citation>''"
definition CITATION_CLOSE :: rstr where "CITATION_CLOSE = lit ''</oai-mem-citation>''"

type_synonym citation_stream_parser = "citation_tag inline_hidden_tag_parser"

definition citation_new :: citation_stream_parser where
  "citation_new = the (inline_new [\<lparr>spec_tag = Citation, spec_open = CITATION_OPEN, spec_close = CITATION_CLOSE\<rparr>])"

definition tag_contents :: "'t extracted_inline_tag stream_text_chunk \<Rightarrow> rstr stream_text_chunk" where
  "tag_contents c = \<lparr>visible_text = visible_text c, extracted = map ex_content (extracted c)\<rparr>"

definition citation_push_str ::
  "citation_stream_parser \<Rightarrow> rstr \<Rightarrow> (citation_stream_parser \<times> rstr stream_text_chunk) option" where
  "citation_push_str p chunk = map_option (\<lambda>(p', c). (p', tag_contents c)) (inline_push_str p chunk)"

definition citation_finish :: "citation_stream_parser \<Rightarrow> citation_stream_parser \<times> rstr stream_text_chunk" where
  "citation_finish p = (let (p', c) = inline_finish p in (p', tag_contents c))"

definition strip_citations :: "rstr \<Rightarrow> (rstr \<times> rstr list) option" where
  "strip_citations text =
     map_option (\<lambda>(p, out).
       (let tail = snd (citation_finish p)
        in (visible_text out @ visible_text tail, extracted out @ extracted tail)))
       (citation_push_str citation_new text)"

section \<open>Tags on lines of their own\<close>

record 't tag_spec =
  ts_open :: rstr
  ts_close :: rstr
  ts_tag :: 't

datatype 't tagged_line_segment = Normal rstr | TagStart 't | TagDelta 't rstr | TagEnd 't

record 't tagged_line_parser =
  tl_specs :: "'t tag_spec list"
  tl_active_tag :: "'t option"
  tl_detect_tag :: bool
  tl_line_buffer :: rstr

definition tagged_new :: "'t tag_spec list \<Rightarrow> 't tagged_line_parser" where
  "tagged_new specs = \<lparr>tl_specs = specs, tl_active_tag = None, tl_detect_tag = True, tl_line_buffer = []\<rparr>"

definition push_segment :: "'t tagged_line_segment list \<Rightarrow> 't tagged_line_segment \<Rightarrow> 't tagged_line_segment list" where
  "push_segment segments segment =
     (case segment of
        Normal delta \<Rightarrow>
          if delta = [] then segments
          else (case last_opt segments of
                  Some (Normal existing) \<Rightarrow> butlast segments @ [Normal (existing @ delta)]
                | _ \<Rightarrow> segments @ [Normal delta])
      | TagDelta tag delta \<Rightarrow>
          if delta = [] then segments
          else (case last_opt segments of
                  Some (TagDelta existing_tag existing) \<Rightarrow>
                    if existing_tag = tag then butlast segments @ [TagDelta existing_tag (existing @ delta)]
                    else segments @ [TagDelta tag delta]
                | _ \<Rightarrow> segments @ [TagDelta tag delta])
      | _ \<Rightarrow> segments @ [segment])"

definition text_segment :: "'t tagged_line_parser \<Rightarrow> rstr \<Rightarrow> 't tagged_line_segment" where
  "text_segment p text = (case tl_active_tag p of Some tag \<Rightarrow> TagDelta tag text | None \<Rightarrow> Normal text)"

definition push_text ::
  "'t tagged_line_parser \<Rightarrow> rstr \<Rightarrow> 't tagged_line_segment list \<Rightarrow> 't tagged_line_segment list" where
  "push_text p text segments = push_segment segments (text_segment p text)"

definition is_tag_prefix :: "'t tagged_line_parser \<Rightarrow> rstr \<Rightarrow> bool" where
  "is_tag_prefix p s =
     (let slug = trim_end s
      in list_ex (\<lambda>spec. starts_with slug (ts_open spec) \<or> starts_with slug (ts_close spec)) (tl_specs p))"

definition match_open :: "'t tagged_line_parser \<Rightarrow> rstr \<Rightarrow> 't option" where
  "match_open p slug = map_option ts_tag (List.find (\<lambda>spec. ts_open spec = slug) (tl_specs p))"

definition match_close :: "'t tagged_line_parser \<Rightarrow> rstr \<Rightarrow> 't option" where
  "match_close p slug = map_option ts_tag (List.find (\<lambda>spec. ts_close spec = slug) (tl_specs p))"

definition line_slug :: "rstr \<Rightarrow> rstr" where
  "line_slug line = trim_end (trim_start (case strip_suffix [LF] line of Some s \<Rightarrow> s | None \<Rightarrow> line))"

definition finish_line ::
  "'t tagged_line_parser \<Rightarrow> 't tagged_line_segment list \<Rightarrow> 't tagged_line_parser \<times> 't tagged_line_segment list" where
  "finish_line p segments =
     (let line = tl_line_buffer p; slug = line_slug line; p = p\<lparr>tl_line_buffer := [], tl_detect_tag := True\<rparr> in
      case match_open p slug of
        Some tag \<Rightarrow>
          if tl_active_tag p = None
          then (p\<lparr>tl_active_tag := Some tag\<rparr>, push_segment segments (TagStart tag))
          else (case match_close p slug of
                  Some tag' \<Rightarrow> if tl_active_tag p = Some tag'
                               then (p\<lparr>tl_active_tag := None\<rparr>, push_segment segments (TagEnd tag'))
                               else (p, push_text p line segments)
                | None \<Rightarrow> (p, push_text p line segments))
      | None \<Rightarrow>
          (case match_close p slug of
             Some tag \<Rightarrow> if tl_active_tag p = Some tag
                         then (p\<lparr>tl_active_tag := None\<rparr>, push_segment segments (TagEnd tag))
                         else (p, push_text p line segments)
           | None \<Rightarrow> (p, push_text p line segments)))"

type_synonym 't parse_state = "'t tagged_line_parser \<times> rstr \<times> 't tagged_line_segment list"

definition flush_run :: "'t parse_state \<Rightarrow> 't parse_state" where
  "flush_run st = (let (p, run, segments) = st
                   in (p, [], if run = [] then segments else push_text p run segments))"

definition parse_char :: "'t parse_state \<Rightarrow> rchar \<Rightarrow> 't parse_state" where
  "parse_char st ch =
     (let (p, run, segments) = st in
      if tl_detect_tag p
      then
        (let (_, _, segments) = flush_run (p, run, segments);
             p = p\<lparr>tl_line_buffer := tl_line_buffer p @ [ch]\<rparr> in
         if ch = LF then (let (p, segments) = finish_line p segments in (p, [], segments))
         else
           (let slug = trim_start (tl_line_buffer p) in
            if slug = [] \<or> is_tag_prefix p slug then (p, [], segments)
            else
              (let buffered = tl_line_buffer p; p = p\<lparr>tl_line_buffer := [], tl_detect_tag := False\<rparr>
               in (p, [], push_text p buffered segments))))
      else
        (if ch = LF then (p\<lparr>tl_detect_tag := True\<rparr>, [], push_text p (run @ [ch]) segments)
         else (p, run @ [ch], segments)))"

definition tagged_parse ::
  "'t tagged_line_parser \<Rightarrow> rstr \<Rightarrow> 't tagged_line_parser \<times> 't tagged_line_segment list" where
  "tagged_parse p delta =
     (let (p', _, segments) = flush_run (foldl parse_char (p, [], []) delta) in (p', segments))"

definition tagged_finish :: "'t tagged_line_parser \<Rightarrow> 't tagged_line_parser \<times> 't tagged_line_segment list" where
  "tagged_finish p =
     (let (p, segments) = (if tl_line_buffer p = [] then (p, []) else finish_line p []);
          segments = (case tl_active_tag p of Some tag \<Rightarrow> push_segment segments (TagEnd tag) | None \<Rightarrow> segments)
      in (p\<lparr>tl_active_tag := None, tl_detect_tag := True\<rparr>, segments))"

section \<open>Proposed plans\<close>

datatype plan_tag = ProposedPlan

datatype proposed_plan_segment =
    PlanNormal rstr
  | ProposedPlanStart
  | ProposedPlanDelta rstr
  | ProposedPlanEnd

definition OPEN_TAG :: rstr where "OPEN_TAG = lit ''<proposed_plan>''"
definition CLOSE_TAG :: rstr where "CLOSE_TAG = lit ''</proposed_plan>''"

type_synonym proposed_plan_parser = "plan_tag tagged_line_parser"

definition plan_new :: proposed_plan_parser where
  "plan_new = tagged_new [\<lparr>ts_open = OPEN_TAG, ts_close = CLOSE_TAG, ts_tag = ProposedPlan\<rparr>]"

fun map_segment :: "plan_tag tagged_line_segment \<Rightarrow> proposed_plan_segment" where
  "map_segment (Normal text) = PlanNormal text"
| "map_segment (TagStart ProposedPlan) = ProposedPlanStart"
| "map_segment (TagDelta ProposedPlan text) = ProposedPlanDelta text"
| "map_segment (TagEnd ProposedPlan) = ProposedPlanEnd"

fun segment_text :: "proposed_plan_segment \<Rightarrow> rstr" where
  "segment_text (PlanNormal text) = text"
| "segment_text _ = []"

definition map_segments :: "plan_tag tagged_line_segment list \<Rightarrow> proposed_plan_segment stream_text_chunk" where
  "map_segments segments =
     (let mapped = map map_segment segments
      in \<lparr>visible_text = concat (map segment_text mapped), extracted = mapped\<rparr>)"

definition plan_push_str ::
  "proposed_plan_parser \<Rightarrow> rstr \<Rightarrow> proposed_plan_parser \<times> proposed_plan_segment stream_text_chunk" where
  "plan_push_str p chunk = (let (p', segments) = tagged_parse p chunk in (p', map_segments segments))"

definition plan_finish ::
  "proposed_plan_parser \<Rightarrow> proposed_plan_parser \<times> proposed_plan_segment stream_text_chunk" where
  "plan_finish p = (let (p', segments) = tagged_finish p in (p', map_segments segments))"

definition strip_proposed_plan_blocks :: "rstr \<Rightarrow> rstr" where
  "strip_proposed_plan_blocks text =
     (let (p, out) = plan_push_str plan_new text in visible_text out @ visible_text (snd (plan_finish p)))"

fun plan_text_step :: "bool \<times> rstr \<Rightarrow> proposed_plan_segment \<Rightarrow> bool \<times> rstr" where
  "plan_text_step (saw, text) ProposedPlanStart = (True, [])"
| "plan_text_step (saw, text) (ProposedPlanDelta delta) = (saw, text @ delta)"
| "plan_text_step (saw, text) _ = (saw, text)"

definition extract_proposed_plan_text :: "rstr \<Rightarrow> rstr option" where
  "extract_proposed_plan_text text =
     (let (p, out) = plan_push_str plan_new text;
          (saw, plan) = foldl plan_text_step (False, []) (extracted out @ extracted (snd (plan_finish p)))
      in if saw then Some plan else None)"

section \<open>The text of the assistant\<close>

record assistant_text_chunk =
  at_visible_text :: rstr
  at_citations :: "rstr list"
  at_plan_segments :: "proposed_plan_segment list"

record assistant_text_stream_parser =
  as_plan_mode :: bool
  as_citations :: citation_stream_parser
  as_plan :: proposed_plan_parser

definition assistant_new :: "bool \<Rightarrow> assistant_text_stream_parser" where
  "assistant_new plan_mode = \<lparr>as_plan_mode = plan_mode, as_citations = citation_new, as_plan = plan_new\<rparr>"

definition parse_visible_text ::
  "assistant_text_stream_parser \<Rightarrow> rstr \<Rightarrow> assistant_text_stream_parser \<times> assistant_text_chunk" where
  "parse_visible_text p text =
     (if \<not> as_plan_mode p
      then (p, \<lparr>at_visible_text = text, at_citations = [], at_plan_segments = []\<rparr>)
      else (let (plan, c) = plan_push_str (as_plan p) text
            in (p\<lparr>as_plan := plan\<rparr>,
                \<lparr>at_visible_text = visible_text c, at_citations = [], at_plan_segments = extracted c\<rparr>)))"

definition assistant_push_str ::
  "assistant_text_stream_parser \<Rightarrow> rstr \<Rightarrow> (assistant_text_stream_parser \<times> assistant_text_chunk) option" where
  "assistant_push_str p chunk =
     map_option (\<lambda>(citations, c).
       (let (p', out) = parse_visible_text (p\<lparr>as_citations := citations\<rparr>) (visible_text c)
        in (p', out\<lparr>at_citations := extracted c\<rparr>)))
       (citation_push_str (as_citations p) chunk)"

definition assistant_finish ::
  "assistant_text_stream_parser \<Rightarrow> assistant_text_stream_parser \<times> assistant_text_chunk" where
  "assistant_finish p =
     (let (citations, c) = citation_finish (as_citations p);
          (p', out) = parse_visible_text (p\<lparr>as_citations := citations\<rparr>) (visible_text c);
          (p', out) =
            (if as_plan_mode p'
             then (let (plan, tail) = plan_finish (as_plan p')
                   in (p'\<lparr>as_plan := plan\<rparr>,
                       out\<lparr>at_visible_text := at_visible_text out @ visible_text tail,
                           at_plan_segments := at_plan_segments out @ extracted tail\<rparr>))
             else (p', out))
      in (p', out\<lparr>at_citations := extracted c\<rparr>))"

section \<open>Searching in a growing text\<close>

lemma find_sub_Some_iff:
  "find_sub d s = Some i \<longleftrightarrow> i \<le> length s \<and> starts_with d (drop i s) \<and> (\<forall>j<i. \<not> starts_with d (drop j s))"
proof (induction d s arbitrary: i rule: find_sub.induct)
  case (1 d)
  then show ?case by (cases d) auto
next
  case (2 d c s)
  show ?case
  proof (cases i)
    case 0
    then show ?thesis using 2 by auto
  next
    case (Suc k)
    then show ?thesis using 2 by (auto simp: less_Suc_eq_0_disj)
  qed
qed

lemma find_sub_None_drop: "find_sub d s = None \<longleftrightarrow> (\<forall>j\<le>length s. \<not> starts_with d (drop j s))"
proof
  assume n: "find_sub d s = None"
  have "s \<noteq> take j s @ d @ r" for j r using n by (auto simp: find_sub_None_iff)
  then show "\<forall>j\<le>length s. \<not> starts_with d (drop j s)" by (metis append_take_drop_id starts_with_iff)
next
  assume n: "\<forall>j\<le>length s. \<not> starts_with d (drop j s)"
  have False if "s = a @ d @ r" for a r
    using n[rule_format, of "length a"] that by simp
  then show "find_sub d s = None" by (auto simp: find_sub_None_iff)
qed

lemma starts_with_drop_append:
  "j + length d \<le> length p \<Longrightarrow> starts_with d (drop j (p @ b)) = starts_with d (drop j p)"
  by (simp add: starts_with_take)

lemma starts_with_length: "starts_with d (drop j s) \<Longrightarrow> j \<le> length s \<Longrightarrow> j + length d \<le> length s"
  by (auto simp: starts_with_iff) (metis add_le_cancel_left le_add1 le_add_diff_inverse length_append length_drop)

lemma find_sub_append: "find_sub d p = Some i \<Longrightarrow> find_sub d (p @ b) = Some i"
proof -
  assume "find_sub d p = Some i"
  then have i: "i \<le> length p" "starts_with d (drop i p)" "\<And>j. j < i \<Longrightarrow> \<not> starts_with d (drop j p)"
    by (auto simp: find_sub_Some_iff)
  have l: "i + length d \<le> length p" using starts_with_length[OF i(2,1)] .
  then have "\<not> starts_with d (drop j (p @ b))" if "j < i" for j
    using that i(3)[OF that] starts_with_drop_append[of j d p b] by simp
  moreover have "starts_with d (drop i (p @ b))" using i(2) l starts_with_drop_append[of i d p b] by simp
  ultimately show ?thesis using i(1) by (simp add: find_sub_Some_iff)
qed

lemma longest_from_le: "longest_from n s needle \<le> n"
  by (induction n) auto

lemma longest_from_ends: "ends_with (take (longest_from n s needle) needle) s"
  by (induction n) (auto simp: ends_with_iff)

lemma longest_from_max: "k \<le> n \<Longrightarrow> ends_with (take k needle) s \<Longrightarrow> k \<le> longest_from n s needle"
  by (induction n) (auto simp: le_Suc_eq)

lemma longest_bounds:
  "longest_suffix_prefix_len s d \<le> length s" "longest_suffix_prefix_len s d \<le> length d - 1"
  using longest_from_le[of "min (length s) (length d - 1)" s d] by (simp_all add: longest_suffix_prefix_len_def)

lemma ends_with_length: "ends_with p s \<Longrightarrow> length p \<le> length s"
  by (auto simp: ends_with_iff)

lemma longest_max:
  "k < length d \<Longrightarrow> ends_with (take k d) s \<Longrightarrow> k \<le> longest_suffix_prefix_len s d"
  unfolding longest_suffix_prefix_len_def
  using ends_with_length[of "take k d" s] by (intro longest_from_max) auto

lemma longest_ends: "ends_with (take (longest_suffix_prefix_len s d) d) s"
  by (simp add: longest_suffix_prefix_len_def longest_from_ends)

text \<open>A delimiter that begins in the text seen so far and ends later shows as a suffix.\<close>

lemma overlap_suffix:
  assumes "starts_with d (drop j (p @ b))" "j \<le> length p" "length p \<le> j + length d"
  shows "ends_with (take (length p - j) d) p"
proof -
  have "take (length d) (drop j p @ b) = d" using assms(1,2) by (simp add: starts_with_take)
  then have "take (length p - j) d = take (length p - j) (take (length d) (drop j p @ b))" by simp
  also have "\<dots> = take (length p - j) (drop j p @ b)"
    using assms(3) unfolding take_take by (simp add: min_absorb1)
  finally have "take (length p - j) d = drop j p" by simp
  then show ?thesis by (metis append_take_drop_id ends_with_iff)
qed

lemma no_start_before:
  assumes "find_sub d p = None" "longest_suffix_prefix_len p d \<le> keep" "j < length p - keep"
  shows "\<not> starts_with d (drop j (p @ b))"
proof
  assume a: "starts_with d (drop j (p @ b))"
  have "\<not> starts_with d (drop j p)" using assms(1,3) by (simp add: find_sub_None_drop)
  then have l: "length p < j + length d" using a starts_with_drop_append[of j d p b] by (meson leI)
  then have "ends_with (take (length p - j) d) p" using overlap_suffix[OF a] assms(3) by simp
  then have "length p - j \<le> longest_suffix_prefix_len p d" using l assms(3) by (intro longest_max) auto
  with assms(2,3) show False by simp
qed

lemma find_sub_shift:
  assumes "\<And>j. j < n \<Longrightarrow> \<not> starts_with d (drop j s)" "n \<le> length s"
  shows "find_sub d s = map_option (\<lambda>i. i + n) (find_sub d (drop n s))"
proof (cases "find_sub d (drop n s)")
  case None
  have "\<not> starts_with d (drop j s)" if "j \<le> length s" for j
  proof (cases "j < n")
    case False
    then have "drop j s = drop (j - n) (drop n s)" by simp
    then show ?thesis
      using None that False unfolding find_sub_None_drop by (metis diff_le_mono length_drop)
  qed (use assms(1) in blast)
  then have "find_sub d s = None" by (simp add: find_sub_None_drop)
  with None show ?thesis by simp
next
  case (Some i)
  then have i: "i \<le> length s - n" "starts_with d (drop (i + n) s)"
      "\<And>j. j < i \<Longrightarrow> \<not> starts_with d (drop (j + n) s)"
    by (auto simp: find_sub_Some_iff add.commute)
  have "\<not> starts_with d (drop j s)" if "j < i + n" for j
    using assms(1)[of j] i(3)[of "j - n"] that by (cases "j < n") auto
  with i assms(2) have "find_sub d s = Some (i + n)" by (simp add: find_sub_Some_iff)
  with Some show ?thesis by simp
qed

lemma longest_shift:
  assumes "longest_suffix_prefix_len p d \<le> keep" "keep \<le> length p"
  shows "longest_suffix_prefix_len (p @ b) d = longest_suffix_prefix_len (drop (length p - keep) p @ b) d"
    (is "?L = ?R")
proof (rule antisym)
  let ?t = "take (length p - keep) p" and ?q = "drop (length p - keep) p"
  have split: "p @ b = ?t @ ?q @ b" by simp
  show "?R \<le> ?L"
  proof (cases "d = []")
    case False
    have "ends_with (take ?R d) (p @ b)"
      using longest_ends[of "?q @ b" d] unfolding split by (metis append.assoc ends_with_iff)
    moreover have "?R < length d" using longest_bounds(2)[of "?q @ b" d] False by (cases d) auto
    ultimately show ?thesis by (rule longest_max[rotated])
  qed (simp add: longest_suffix_prefix_len_def)
  show "?L \<le> ?R"
  proof (cases "d = []")
    case False
    then have ld: "?L < length d" using longest_bounds(2)[of "p @ b" d] by (cases d) auto
    obtain r where r: "p @ b = r @ take ?L d" using longest_ends[of "p @ b" d] by (auto simp: ends_with_iff)
    have lr: "length r + ?L = length p + length b" using arg_cong[OF r, of length] ld by simp
    have "length p - keep \<le> length r"
    proof (rule ccontr)
      assume "\<not> length p - keep \<le> length r"
      then have j: "length r < length p - keep" by simp
      have "drop (length r) p @ b = take ?L d" using arg_cong[OF r, of "drop (length r)"] j by simp
      then have "take (length p - length r) (drop (length r) p @ b) = take (length p - length r) (take ?L d)" by simp
      moreover have "length p - length r \<le> ?L" using lr by linarith
      ultimately have "take (length p - length r) d = drop (length r) p"
        unfolding take_take by (simp add: min_absorb1)
      then have "ends_with (take (length p - length r) d) p" by (metis append_take_drop_id ends_with_iff)
      moreover have "length p - length r < length d" using ld lr by linarith
      ultimately have "length p - length r \<le> longest_suffix_prefix_len p d" by (rule longest_max[rotated])
      with assms(1) j show False by simp
    qed
    then have "?q @ b = drop (length p - keep) r @ take ?L d"
      using arg_cong[OF r, of "drop (length p - keep)"] by simp
    then have "ends_with (take ?L d) (?q @ b)" by (auto simp: ends_with_iff)
    with ld show ?thesis by (rule longest_max)
  qed (simp add: longest_suffix_prefix_len_def)
qed

section \<open>The next opening delimiter\<close>

text \<open>
  The delimiters of different specifications do not get in each other's way: none is inside
  another one before its end. Without this the answer depends on the chunks.
\<close>

definition separate_opens :: "'t inline_tag_spec list \<Rightarrow> bool" where
  "separate_opens specs =
     list_all (\<lambda>s. list_all (\<lambda>s'. find_sub (spec_open s) (butlast (spec_open s')) = None) specs) specs"

definition wf_specs :: "'t inline_tag_spec list \<Rightarrow> bool" where
  "wf_specs specs \<longleftrightarrow>
     list_all (\<lambda>s. spec_open s \<noteq> [] \<and> spec_close s \<noteq> []) specs \<and> separate_opens specs"

lemma open_matches_mem:
  "(pos, len, i) \<in> set (open_matches p k specs) \<longleftrightarrow>
   (\<exists>j<length specs. i = k + j \<and> len = length (spec_open (specs ! j)) \<and> find_sub (spec_open (specs ! j)) p = Some pos)"
proof (induction specs arbitrary: k)
  case (Cons s specs)
  have split: "(\<exists>j<length (s # specs). Q j) \<longleftrightarrow> Q 0 \<or> (\<exists>j<length specs. Q (Suc j))" for Q
    by (auto simp: less_Suc_eq_0_disj)
  show ?case unfolding split by (auto simp: Cons split: option.splits)
qed simp

lemma open_before_order:
  "open_before x y \<Longrightarrow> open_before y z \<Longrightarrow> open_before x z"
  "\<not> open_before x x" "x \<noteq> y \<Longrightarrow> open_before x y \<or> open_before y x"
  by (cases x; cases y; cases z; auto)+

lemma min_by_fold:
  "(let m = foldl (\<lambda>m y. if open_before y m then y else m) x xs
    in m \<in> set (x # xs) \<and> (\<forall>y\<in>set (x # xs). \<not> open_before y m))"
proof (induction xs arbitrary: x)
  case Nil
  then show ?case by (simp add: open_before_order)
next
  case (Cons y xs)
  let ?x = "if open_before y x then y else x"
  let ?m = "foldl (\<lambda>m y. if open_before y m then y else m) ?x xs"
  have m: "?m \<in> set (?x # xs)" "\<forall>z\<in>set (?x # xs). \<not> open_before z ?m"
    using Cons[of ?x] unfolding Let_def by blast+
  have "\<not> open_before z ?m" if "z \<in> {x, y}" for z
  proof
    assume "open_before z ?m"
    moreover have "z = ?x \<or> open_before ?x z" using that open_before_order(3)[of x y] by auto
    ultimately show False using m(2) open_before_order(1)[of ?x z ?m] by auto
  qed
  with m show ?case by (auto simp: Let_def)
qed

lemma min_by_Some: "min_by open_before xs = Some m \<longleftrightarrow> m \<in> set xs \<and> (\<forall>y\<in>set xs. \<not> open_before y m)"
proof (cases xs)
  case (Cons x ys)
  let ?m = "foldl (\<lambda>m y. if open_before y m then y else m) x ys"
  have m: "?m \<in> set xs" "\<forall>y\<in>set xs. \<not> open_before y ?m"
    using min_by_fold[of x ys] unfolding Let_def Cons by blast+
  have e: "min_by open_before xs = Some ?m" by (simp add: Cons)
  show ?thesis
  proof
    assume "m \<in> set xs \<and> (\<forall>y\<in>set xs. \<not> open_before y m)"
    then have "m = ?m" using m open_before_order(3)[of m ?m] by blast
    with e show "min_by open_before xs = Some m" by simp
  qed (use m e in simp)
qed simp

lemma min_by_map:
  assumes "\<And>x y. lt (f x) (f y) = lt x y"
  shows "min_by lt (map f xs) = map_option f (min_by lt xs)"
proof (cases xs)
  case (Cons x ys)
  have "foldl (\<lambda>m y. if lt y m then y else m) (f x) (map f ys) =
      f (foldl (\<lambda>m y. if lt y m then y else m) x ys)"
    by (induction ys arbitrary: x) (auto simp: assms)
  with Cons show ?thesis by simp
qed simp

lemma find_next_open_Some:
  "find_next_open specs p = Some (pos, idx) \<longleftrightarrow>
   idx < length specs \<and> find_sub (spec_open (specs ! idx)) p = Some pos \<and>
   (\<forall>j<length specs. \<forall>q. find_sub (spec_open (specs ! j)) p = Some q \<longrightarrow>
      \<not> open_before (q, length (spec_open (specs ! j)), j) (pos, length (spec_open (specs ! idx)), idx))"
  (is "_ \<longleftrightarrow> ?R")
proof
  assume "find_next_open specs p = Some (pos, idx)"
  then obtain len where "min_by open_before (open_matches p 0 specs) = Some (pos, len, idx)"
    by (auto simp: find_next_open_def)
  then have "(pos, len, idx) \<in> set (open_matches p 0 specs)"
      and least: "\<And>y. y \<in> set (open_matches p 0 specs) \<Longrightarrow> \<not> open_before y (pos, len, idx)"
    by (simp_all add: min_by_Some)
  then have m: "idx < length specs" "len = length (spec_open (specs ! idx))" "find_sub (spec_open (specs ! idx)) p = Some pos"
    by (simp_all add: open_matches_mem)
  show ?R
  proof (intro conjI allI impI)
    fix j q assume j: "j < length specs" "find_sub (spec_open (specs ! j)) p = Some q"
    then have "(q, length (spec_open (specs ! j)), j) \<in> set (open_matches p 0 specs)" by (simp add: open_matches_mem)
    then show "\<not> open_before (q, length (spec_open (specs ! j)), j) (pos, length (spec_open (specs ! idx)), idx)"
      using least m(2) by blast
  qed (use m in auto)
next
  assume R: ?R
  let ?m = "(pos, length (spec_open (specs ! idx)), idx)"
  have "?m \<in> set (open_matches p 0 specs)" using R by (simp add: open_matches_mem)
  moreover have "\<forall>y\<in>set (open_matches p 0 specs). \<not> open_before y ?m"
  proof
    fix y assume y: "y \<in> set (open_matches p 0 specs)"
    obtain q l j where q: "y = (q, l, j)" by (cases y) auto
    with y R show "\<not> open_before y ?m" by (auto simp: open_matches_mem simp del: open_before.simps)
  qed
  ultimately have "min_by open_before (open_matches p 0 specs) = Some ?m" by (simp add: min_by_Some)
  then show "find_next_open specs p = Some (pos, idx)" by (simp add: find_next_open_def)
qed

lemma find_next_open_None:
  "find_next_open specs p = None \<longleftrightarrow> (\<forall>s\<in>set specs. find_sub (spec_open s) p = None)"
proof -
  have "open_matches p k specs = [] \<longleftrightarrow> (\<forall>s\<in>set specs. find_sub (spec_open s) p = None)" for k
    by (induction specs arbitrary: k) (auto split: option.splits)
  note nil = this[of 0]
  have "find_next_open specs p = None \<longleftrightarrow> open_matches p 0 specs = []"
    by (cases "open_matches p 0 specs") (auto simp: find_next_open_def)
  then show ?thesis by (simp only: nil)
qed

lemma find_next_open_append:
  assumes "separate_opens specs" "find_next_open specs p = Some (pos, idx)"
  shows "find_next_open specs (p @ b) = Some (pos, idx)"
proof -
  let ?o = "spec_open (specs ! idx)"
  have m: "idx < length specs" "find_sub ?o p = Some pos"
    and least: "\<And>j q. j < length specs \<Longrightarrow> find_sub (spec_open (specs ! j)) p = Some q \<Longrightarrow>
      \<not> open_before (q, length (spec_open (specs ! j)), j) (pos, length ?o, idx)"
    using assms(2) unfolding find_next_open_Some by blast+
  have at: "starts_with ?o (drop pos p)" "pos \<le> length p" using m(2) by (auto simp: find_sub_Some_iff)
  have in_p: "pos + length ?o \<le> length p" using starts_with_length[OF at] .
  have late: "\<not> open_before (q, length (spec_open (specs ! j)), j) (pos, length ?o, idx)"
    if j: "j < length specs" and q: "find_sub (spec_open (specs ! j)) (p @ b) = Some q"
      and n: "find_sub (spec_open (specs ! j)) p = None" for j q
  proof
    let ?d = "spec_open (specs ! j)"
    assume before: "open_before (q, length ?d, j) (pos, length ?o, idx)"
    have sq: "starts_with ?d (drop q (p @ b))" using q by (simp add: find_sub_Some_iff)
    have "\<not> q + length ?d \<le> length p"
      using n sq starts_with_drop_append[of q ?d p b] unfolding find_sub_None_drop by (metis add_leD1)
    with in_p before have le: "q \<le> pos" "pos + length ?o < q + length ?d" by auto
    have "take (length ?d) (drop q (p @ b)) = ?d" using sq by (simp add: starts_with_take)
    then have "drop (pos - q) ?d = take (length ?d - (pos - q)) (drop pos (p @ b))"
      using le(1) by (metis drop_drop drop_take le_add_diff_inverse2)
    then have "take (length ?o) (drop (pos - q) ?d) =
        take (min (length ?o) (length ?d - (pos - q))) (drop pos (p @ b))"
      by (simp only: take_take)
    also have "min (length ?o) (length ?d - (pos - q)) = length ?o" using le by linarith
    also have "take (length ?o) (drop pos (p @ b)) = ?o" using at(1) in_p starts_with_drop_append[of pos ?o p b] by (simp add: starts_with_take)
    finally have "take (length ?o) (drop (pos - q) (butlast ?d)) = ?o"
      using le by (simp add: butlast_conv_take drop_take min_absorb1)
    then have "starts_with ?o (drop (pos - q) (butlast ?d))" by (simp add: starts_with_take)
    moreover have "pos - q \<le> length (butlast ?d)" using le by simp
    ultimately have "find_sub ?o (butlast ?d) \<noteq> None" unfolding find_sub_None_drop by blast
    with assms(1) m(1) j show False by (simp add: separate_opens_def list_all_iff)
  qed
  show ?thesis
    unfolding find_next_open_Some
  proof (intro conjI allI impI)
    show "find_sub ?o (p @ b) = Some pos" by (rule find_sub_append[OF m(2)])
    fix j q assume j: "j < length specs" and q: "find_sub (spec_open (specs ! j)) (p @ b) = Some q"
    show "\<not> open_before (q, length (spec_open (specs ! j)), j) (pos, length ?o, idx)"
    proof (cases "find_sub (spec_open (specs ! j)) p")
      case None
      show ?thesis by (rule late[OF j q None])
    next
      case (Some q')
      with find_sub_append[OF Some, of b] q have "find_sub (spec_open (specs ! j)) p = Some q" by simp
      then show ?thesis by (rule least[OF j])
    qed
  qed (rule m(1))
qed

lemma foldl_max_ge: "x \<in> set xs \<Longrightarrow> (x :: nat) \<le> foldl max a xs" "a \<le> foldl max a xs"
proof (induction xs arbitrary: a)
  case (Cons y ys)
  {
    case 1
    then show ?case using Cons(1)[of "max a y"] Cons(2)[of "max a y"] by auto
  next
    case 2
    show ?case using Cons(2)[of "max a y"] by simp
  }
qed simp_all

lemma foldl_max_le: "(\<And>x. x \<in> set xs \<Longrightarrow> x \<le> n) \<Longrightarrow> a \<le> n \<Longrightarrow> foldl max a xs \<le> (n :: nat)"
  by (induction xs arbitrary: a) auto

lemma max_open_bounds:
  "s \<in> set specs \<Longrightarrow> longest_suffix_prefix_len p (spec_open s) \<le> max_open_prefix_suffix_len specs p"
  "max_open_prefix_suffix_len specs p \<le> length p"
  unfolding max_open_prefix_suffix_len_def
  by (rule foldl_max_ge(1), simp) (rule foldl_max_le, auto simp: longest_bounds)

lemma open_matches_shift:
  assumes "\<And>s. s \<in> set specs \<Longrightarrow> find_sub (spec_open s) t = map_option (\<lambda>i. i + n) (find_sub (spec_open s) t')"
  shows "open_matches t k specs = map (\<lambda>(pos, len, idx). (pos + n, len, idx)) (open_matches t' k specs)"
  using assms by (induction specs arbitrary: k) (auto split: option.splits)

lemma next_open_shift:
  fixes p b :: rstr
  assumes "find_next_open specs p = None"
  defines "n \<equiv> length p - max_open_prefix_suffix_len specs p"
  shows "find_next_open specs (p @ b) = map_option (\<lambda>(pos, idx). (pos + n, idx)) (find_next_open specs (drop n p @ b))"
    and "max_open_prefix_suffix_len specs (p @ b) = max_open_prefix_suffix_len specs (drop n p @ b)"
proof -
  have k: "max_open_prefix_suffix_len specs p \<le> length p" by (rule max_open_bounds(2))
  have "find_sub (spec_open s) (p @ b) = map_option (\<lambda>i. i + n) (find_sub (spec_open s) (drop n p @ b))"
    if s: "s \<in> set specs" for s
  proof -
    have "find_sub (spec_open s) p = None" using assms(1) s by (simp add: find_next_open_None)
    note start = no_start_before[OF this max_open_bounds(1)[OF s, of p]]
    have "find_sub (spec_open s) (p @ b) = map_option (\<lambda>i. i + n) (find_sub (spec_open s) (drop n (p @ b)))"
      by (rule find_sub_shift) (use start in \<open>auto simp: n_def\<close>)
    then show ?thesis by (simp add: n_def)
  qed
  then have m: "open_matches (p @ b) 0 specs =
      map (\<lambda>(pos, len, idx). (pos + n, len, idx)) (open_matches (drop n p @ b) 0 specs)"
    by (rule open_matches_shift)
  have "open_before (case x of (pos, len, idx) \<Rightarrow> (pos + n, len, idx)) (case y of (pos, len, idx) \<Rightarrow> (pos + n, len, idx)) =
      open_before x y" for x y by (cases x; cases y) auto
  note mm = min_by_map[where lt = open_before and f = "\<lambda>(pos, len, idx). (pos + n, len, idx)", OF this]
  show "find_next_open specs (p @ b) = map_option (\<lambda>(pos, idx). (pos + n, idx)) (find_next_open specs (drop n p @ b))"
    unfolding find_next_open_def m mm by (cases "min_by open_before (open_matches (drop n p @ b) 0 specs)") auto
  have "map (\<lambda>s. longest_suffix_prefix_len (p @ b) (spec_open s)) specs =
      map (\<lambda>s. longest_suffix_prefix_len (drop n p @ b) (spec_open s)) specs"
    unfolding n_def using longest_shift[OF max_open_bounds(1) k] by simp
  then show "max_open_prefix_suffix_len specs (p @ b) = max_open_prefix_suffix_len specs (drop n p @ b)"
    unfolding max_open_prefix_suffix_len_def by (simp only:)
qed

section \<open>Inline tags\<close>

lemma chunk_append_default [simp]: "chunk_append c chunk_default = c" "chunk_append chunk_default c = c"
  by (simp_all add: chunk_append_def chunk_default_def)

lemma chunk_append_assoc: "chunk_append (chunk_append a b) c = chunk_append a (chunk_append b c)"
  by (simp add: chunk_append_def)

lemma chunk_append_sel [simp]:
  "visible_text (chunk_append a b) = visible_text a @ visible_text b"
  "extracted (chunk_append a b) = extracted a @ extracted b"
  by (simp_all add: chunk_append_def)

definition act_ok :: "'t active_tag option \<Rightarrow> bool" where
  "act_ok active = (case active of Some a \<Rightarrow> act_close a \<noteq> [] | None \<Rightarrow> True)"

text \<open>One round of the loop on a text that grows: what was settled before stays as it is.\<close>

lemma close_shift:
  assumes "find_sub (act_close a) (t @ s) = map_option (\<lambda>i. i + length t) (find_sub (act_close a) s)"
    and "longest_suffix_prefix_len (t @ s) (act_close a) = longest_suffix_prefix_len s (act_close a)"
  shows "inline_loop specs (t @ s) (Some a) out =
    inline_loop specs s (Some (a\<lparr>act_content := act_content a @ t\<rparr>)) out"
proof (cases "find_sub (act_close a) s")
  case None
  let ?k = "longest_suffix_prefix_len s (act_close a)"
  have "length (t @ s) - ?k = (length s - ?k) + length t" using longest_bounds(1)[of s "act_close a"] by simp
  then show ?thesis
    using assms None by (subst (1 2) inline_loop.simps) (simp add: Let_def)
next
  case (Some i)
  then show ?thesis
    using assms by (subst (1 2) inline_loop.simps) (simp add: ac_simps)
qed

lemma open_shift:
  assumes "find_next_open specs (t @ s) = map_option (\<lambda>(pos, idx). (pos + length t, idx)) (find_next_open specs s)"
    and "max_open_prefix_suffix_len specs (t @ s) = max_open_prefix_suffix_len specs s"
  shows "inline_loop specs (t @ s) None out =
    inline_loop specs s None (out\<lparr>visible_text := visible_text out @ t\<rparr>)"
proof (cases "find_next_open specs s")
  case None
  let ?k = "max_open_prefix_suffix_len specs s"
  have "length (t @ s) - ?k = (length s - ?k) + length t" using max_open_bounds(2)[of specs s] by simp
  then show ?thesis
    using assms None by (subst (1 2) inline_loop.simps) (simp add: Let_def)
next
  case (Some x)
  then show ?thesis
    using assms by (cases x) (subst (1 2) inline_loop.simps, simp add: ac_simps)
qed

lemma close_round:
  assumes "find_sub (act_close a) p = None"
  defines "n \<equiv> length p - longest_suffix_prefix_len p (act_close a)"
  shows "inline_loop specs (p @ b) (Some a) out =
    inline_loop specs (drop n p @ b) (Some (a\<lparr>act_content := act_content a @ take n p\<rparr>)) out"
proof -
  let ?d = "act_close a" and ?s = "drop n p @ b"
  have k: "longest_suffix_prefix_len p ?d \<le> length p" by (rule longest_bounds)
  have ts: "take n p @ ?s = p @ b" "length (take n p) = n" by (simp_all add: n_def flip: append.assoc)
  have "find_sub ?d (p @ b) = map_option (\<lambda>i. i + n) (find_sub ?d ?s)"
    using find_sub_shift[of n ?d "p @ b"] no_start_before[OF assms(1) order_refl] by (simp add: n_def)
  moreover have "longest_suffix_prefix_len (p @ b) ?d = longest_suffix_prefix_len ?s ?d"
    using longest_shift[OF order_refl k, of b] by (simp add: n_def)
  ultimately show ?thesis using close_shift[of a "take n p" ?s specs out] unfolding ts by simp
qed

lemma open_round:
  assumes "find_next_open specs p = None"
  defines "n \<equiv> length p - max_open_prefix_suffix_len specs p"
  shows "inline_loop specs (p @ b) None out =
    inline_loop specs (drop n p @ b) None (out\<lparr>visible_text := visible_text out @ take n p\<rparr>)"
proof -
  note shift = next_open_shift[OF assms(1), of b, folded n_def]
  have ts: "take n p @ drop n p @ b = p @ b" "length (take n p) = n" by (simp_all add: n_def flip: append.assoc)
  from shift show ?thesis using open_shift[of specs "take n p" "drop n p @ b" out] unfolding ts by simp
qed

lemma inline_loop_ends:
  assumes "wf_specs specs" "act_ok active"
  shows "\<exists>p' a' out'. inline_loop specs p active out = Some (p', a', out') \<and> act_ok a' \<and>
    (\<forall>b. inline_loop specs (p @ b) active out = inline_loop specs (p' @ b) a' out')"
  using assms(2)
proof (induction p arbitrary: active out rule: length_induct)
  case (1 p)
  note IH = 1(1)[rule_format]
  show ?case
  proof (cases active)
    case (Some a)
    then have d: "act_close a \<noteq> []" using 1(2) by (simp add: act_ok_def)
    show ?thesis
    proof (cases "find_sub (act_close a) p")
      case None
      let ?n = "length p - longest_suffix_prefix_len p (act_close a)"
      have "inline_loop specs p active out =
          Some (drop ?n p, Some (a\<lparr>act_content := act_content a @ take ?n p\<rparr>), out)"
        using Some None by (subst inline_loop.simps) (simp add: Let_def)
      then show ?thesis
        using close_round[OF None, of specs _ out] d Some by (auto simp: act_ok_def)
    next
      case i: (Some i)
      let ?p = "drop (i + length (act_close a)) p"
      let ?out = "out\<lparr>extracted := extracted out @ [\<lparr>ex_tag = act_tag a, ex_content = act_content a @ take i p\<rparr>]\<rparr>"
      have il: "i + length (act_close a) \<le> length p"
        using i starts_with_length by (auto simp: find_sub_Some_iff)
      have step: "inline_loop specs (p @ b) active out = inline_loop specs (?p @ b) None ?out" for b
        using Some find_sub_append[OF i, of b] il by (subst inline_loop.simps) simp
      have "length ?p < length p" using d il by (cases "act_close a") auto
      from IH[OF this, of None ?out] step step[of "[]"] show ?thesis by (simp add: act_ok_def)
    qed
  next
    case None
    show ?thesis
    proof (cases "find_next_open specs p")
      case n: None
      let ?n = "length p - max_open_prefix_suffix_len specs p"
      have "inline_loop specs p active out =
          Some (drop ?n p, None, out\<lparr>visible_text := visible_text out @ take ?n p\<rparr>)"
        using None n by (subst inline_loop.simps) (simp add: Let_def)
      then show ?thesis using open_round[OF n, of _ out] None by (auto simp: act_ok_def)
    next
      case (Some x)
      obtain pos idx where x: "find_next_open specs p = Some (pos, idx)" using Some by (cases x) auto
      let ?d = "spec_open (specs ! idx)"
      let ?p = "drop (pos + length ?d) p" and ?out = "out\<lparr>visible_text := visible_text out @ take pos p\<rparr>"
      let ?a = "Some \<lparr>act_tag = spec_tag (specs ! idx), act_close = spec_close (specs ! idx), act_content = []\<rparr>"
      have idx: "idx < length specs" "find_sub ?d p = Some pos" using x unfolding find_next_open_Some by blast+
      then have il: "pos + length ?d \<le> length p" using starts_with_length by (auto simp: find_sub_Some_iff)
      have ne: "?d \<noteq> []" "spec_close (specs ! idx) \<noteq> []" using assms(1) idx(1) by (auto simp: wf_specs_def list_all_length)
      have step: "inline_loop specs (p @ b) active out = inline_loop specs (?p @ b) ?a ?out" for b
        using None find_next_open_append[OF _ x, of b] assms(1) il
        by (subst inline_loop.simps) (simp add: wf_specs_def)
      have "length ?p < length p" using ne(1) il by (cases ?d) auto
      from IH[OF this, of ?a ?out] step step[of "[]"] ne(2) show ?thesis by (simp add: act_ok_def)
    qed
  qed
qed

lemma inline_loop_output:
  assumes "wf_specs specs" "act_ok active"
  shows "inline_loop specs p active out =
    map_option (\<lambda>(p', a', o'). (p', a', chunk_append out o')) (inline_loop specs p active chunk_default)"
  using assms(2)
proof (induction p arbitrary: active out rule: length_induct)
  case (1 p)
  note IH = 1(1)[rule_format]
  show ?case
  proof (cases active)
    case (Some a)
    then have d: "act_close a \<noteq> []" using 1(2) by (simp add: act_ok_def)
    show ?thesis
    proof (cases "find_sub (act_close a) p")
      case None
      then show ?thesis using Some by (subst (1 2) inline_loop.simps) (simp add: Let_def)
    next
      case i: (Some i)
      let ?p = "drop (i + length (act_close a)) p"
      let ?e = "\<lparr>ex_tag = act_tag a, ex_content = act_content a @ take i p\<rparr>"
      have il: "i + length (act_close a) \<le> length p"
        using i starts_with_length by (auto simp: find_sub_Some_iff)
      then have "length ?p < length p" using d by (cases "act_close a") auto
      note step = IH[OF this, of None, unfolded act_ok_def, simplified]
      show ?thesis
        using Some i step[of "out\<lparr>extracted := extracted out @ [?e]\<rparr>"] step[of "chunk_default\<lparr>extracted := [?e]\<rparr>"]
        by (subst (1 2) inline_loop.simps)
           (auto simp: chunk_append_def chunk_default_def option.map_comp comp_def intro!: option.map_cong0 split: prod.splits)
    qed
  next
    case None
    show ?thesis
    proof (cases "find_next_open specs p")
      case n: None
      then show ?thesis
        using None by (subst (1 2) inline_loop.simps) (simp add: Let_def chunk_append_def chunk_default_def)
    next
      case (Some x)
      obtain pos idx where x: "find_next_open specs p = Some (pos, idx)" using Some by (cases x) auto
      let ?d = "spec_open (specs ! idx)"
      let ?p = "drop (pos + length ?d) p"
      let ?a = "Some \<lparr>act_tag = spec_tag (specs ! idx), act_close = spec_close (specs ! idx), act_content = []\<rparr>"
      have idx: "idx < length specs" "find_sub ?d p = Some pos" using x unfolding find_next_open_Some by blast+
      then have il: "pos + length ?d \<le> length p" using starts_with_length by (auto simp: find_sub_Some_iff)
      have ne: "?d \<noteq> []" "spec_close (specs ! idx) \<noteq> []" using assms(1) idx(1) by (auto simp: wf_specs_def list_all_length)
      have "length ?p < length p" using ne(1) il by (cases ?d) auto
      moreover have "act_ok ?a" using ne(2) by (simp add: act_ok_def)
      ultimately have step: "inline_loop specs ?p ?a out =
          map_option (\<lambda>(p', a', o'). (p', a', chunk_append out o')) (inline_loop specs ?p ?a chunk_default)" for out
        using IH by blast
      show ?thesis
        using None x step[of "out\<lparr>visible_text := visible_text out @ take pos p\<rparr>"]
          step[of "chunk_default\<lparr>visible_text := take pos p\<rparr>"]
        by (subst (1 2) inline_loop.simps)
           (auto simp: chunk_append_def chunk_default_def option.map_comp comp_def intro!: option.map_cong0 split: prod.splits)
    qed
  qed
qed

section \<open>The interface\<close>

fun push_chunks ::
  "('s \<Rightarrow> rstr \<Rightarrow> ('s \<times> 'x stream_text_chunk) option) \<Rightarrow> 's \<Rightarrow> rstr list \<Rightarrow> ('s \<times> 'x stream_text_chunk) option" where
  "push_chunks push s [] = Some (s, chunk_default)"
| "push_chunks push s (c # cs) =
     Option.bind (push s c) (\<lambda>(s1, o1).
     Option.bind (push_chunks push s1 cs) (\<lambda>(s2, o2). Some (s2, chunk_append o1 o2)))"

definition same_chunk :: "('x list \<Rightarrow> 'y) \<Rightarrow> 'x stream_text_chunk \<Rightarrow> 'x stream_text_chunk \<Rightarrow> bool" where
  "same_chunk obs c d \<longleftrightarrow> visible_text c = visible_text d \<and> obs (extracted c) = obs (extracted d)"

locale stream_text_parser =
  fixes push :: "'s \<Rightarrow> rstr \<Rightarrow> ('s \<times> 'x stream_text_chunk) option"
    and good :: "'s \<Rightarrow> bool"
    and obs :: "'x list \<Rightarrow> 'x list"
  assumes push_returns: "good s \<Longrightarrow> \<exists>s' c. push s text = Some (s', c) \<and> good s'"
    and push_nothing: "good s \<Longrightarrow> push s [] = Some (s, chunk_default)"
    and push_append: "good s \<Longrightarrow> push s a = Some (s1, c1) \<Longrightarrow> push s1 b = Some (s2, c2) \<Longrightarrow>
      \<exists>c. push s (a @ b) = Some (s2, c) \<and> same_chunk obs c (chunk_append c1 c2)"
    and obs_append: "obs (obs x @ obs y) = obs (x @ y)"
begin

lemma same_chunk_append:
  "same_chunk obs c c' \<Longrightarrow> same_chunk obs d d' \<Longrightarrow> same_chunk obs (chunk_append c d) (chunk_append c' d')"
  using obs_append[of "extracted c" "extracted d"] obs_append[of "extracted c'" "extracted d'"]
  by (simp add: same_chunk_def)

lemma chunks_irrelevant:
  "good s \<Longrightarrow> \<exists>s' c d. push s (concat cs) = Some (s', c) \<and> push_chunks push s cs = Some (s', d) \<and>
     same_chunk obs c d \<and> good s'"
proof (induction cs arbitrary: s)
  case Nil
  then show ?case using push_nothing by (auto simp: same_chunk_def)
next
  case (Cons x cs)
  obtain s1 o1 where x: "push s x = Some (s1, o1)" "good s1" using push_returns[OF Cons(2)] by blast
  obtain s2 c d where cs: "push s1 (concat cs) = Some (s2, c)" "push_chunks push s1 cs = Some (s2, d)"
      "same_chunk obs c d" "good s2"
    using Cons(1)[OF x(2)] by blast
  obtain c' where c': "push s (x @ concat cs) = Some (s2, c')" "same_chunk obs c' (chunk_append o1 c)"
    using push_append[OF Cons(2) x(1) cs(1)] by blast
  have "same_chunk obs (chunk_append o1 c) (chunk_append o1 d)"
    by (rule same_chunk_append[OF _ cs(3)]) (simp add: same_chunk_def)
  with c' have "same_chunk obs c' (chunk_append o1 d)" by (simp add: same_chunk_def)
  with c' x cs show ?case by auto
qed

end

section \<open>Inline tags and citations as stream parsers\<close>

definition inline_good :: "'t inline_hidden_tag_parser \<Rightarrow> bool" where
  "inline_good p \<longleftrightarrow> wf_specs (ip_specs p) \<and> act_ok (ip_active p) \<and>
     inline_loop (ip_specs p) (ip_pending p) (ip_active p) chunk_default = Some (ip_pending p, ip_active p, chunk_default)"

lemma chunk_append_cancel: "chunk_append c d = c \<Longrightarrow> d = chunk_default"
  by (cases c; cases d) (simp add: chunk_append_def chunk_default_def)

lemma inline_push_split:
  assumes "inline_good p"
  shows "\<exists>p' c. inline_push_str p text = Some (p', c) \<and> inline_good p' \<and>
    (\<forall>b. inline_push_str p (text @ b) = map_option (\<lambda>(p'', d). (p'', chunk_append c d)) (inline_push_str p' b))"
proof -
  let ?l = "inline_loop (ip_specs p)"
  have wf: "wf_specs (ip_specs p)" "act_ok (ip_active p)" using assms by (auto simp: inline_good_def)
  obtain q a c where l: "?l (ip_pending p @ text) (ip_active p) chunk_default = Some (q, a, c)" "act_ok a"
      "\<And>b. ?l ((ip_pending p @ text) @ b) (ip_active p) chunk_default = ?l (q @ b) a c"
    using inline_loop_ends[OF wf, of "ip_pending p @ text" chunk_default] by blast
  have out: "?l (q @ b) a c = map_option (\<lambda>(p', a', o'). (p', a', chunk_append c o')) (?l (q @ b) a chunk_default)" for b
    by (rule inline_loop_output[OF wf(1) l(2)])
  have "?l q a c = Some (q, a, c)" using l(1) l(3)[of "[]"] by simp
  then have "map_option (\<lambda>(p', a', o'). (p', a', chunk_append c o')) (?l q a chunk_default) = Some (q, a, c)"
    using out[of "[]"] by simp
  then obtain o' where "?l q a chunk_default = Some (q, a, o')" "chunk_append c o' = c" by auto
  then have "?l q a chunk_default = Some (q, a, chunk_default)" using chunk_append_cancel by blast
  then have good: "inline_good (p\<lparr>ip_pending := q, ip_active := a\<rparr>)"
    using wf(1) l(2) by (simp add: inline_good_def)
  have "inline_push_str p (text @ b) = map_option (\<lambda>(p'', d). (p'', chunk_append c d))
      (inline_push_str (p\<lparr>ip_pending := q, ip_active := a\<rparr>) b)" for b
    using l(3)[of b] out[of b] by (auto simp: inline_push_str_def option.map_comp comp_def intro!: option.map_cong0)
  with good l(1) show ?thesis by (auto simp: inline_push_str_def)
qed

lemma inline_push_append:
  assumes "inline_good p" "inline_push_str p a = Some (p1, c1)" "inline_push_str p1 b = Some (p2, c2)"
  shows "inline_push_str p (a @ b) = Some (p2, chunk_append c1 c2)"
  using inline_push_split[OF assms(1), of a] assms(2,3) by auto

lemma inline_push_nothing: "inline_good p \<Longrightarrow> inline_push_str p [] = Some (p, chunk_default)"
  by (simp add: inline_good_def inline_push_str_def)

interpretation inline_tags: stream_text_parser inline_push_str inline_good "\<lambda>x. x"
proof
  show "\<exists>s' c. inline_push_str s t = Some (s', c) \<and> inline_good s'"
    if "inline_good s" for s :: "'a inline_hidden_tag_parser" and t
    using inline_push_split[OF that] by blast
  show "\<exists>c. inline_push_str s (a @ b) = Some (s2, c) \<and> same_chunk (\<lambda>x. x) c (chunk_append c1 c2)"
    if "inline_good s" "inline_push_str s a = Some (s1, c1)" "inline_push_str s1 b = Some (s2, c2)"
    for s s1 s2 :: "'a inline_hidden_tag_parser" and a b c1 c2
    using inline_push_append[OF that] by (auto simp: same_chunk_def)
qed (simp_all add: inline_push_nothing)

lemma tag_contents_simps [simp]:
  "tag_contents (chunk_append c d) = chunk_append (tag_contents c) (tag_contents d)"
  "tag_contents chunk_default = chunk_default"
  by (simp_all add: tag_contents_def chunk_append_def chunk_default_def)

interpretation citations: stream_text_parser citation_push_str inline_good "\<lambda>x. x"
proof
  show "\<exists>s' c. citation_push_str s t = Some (s', c) \<and> inline_good s'"
    if "inline_good s" for s t
    using inline_push_split[OF that, of t] by (auto simp: citation_push_str_def)
  show "\<exists>c. citation_push_str s (a @ b) = Some (s2, c) \<and> same_chunk (\<lambda>x. x) c (chunk_append c1 c2)"
    if "inline_good s" "citation_push_str s a = Some (s1, c1)" "citation_push_str s1 b = Some (s2, c2)"
    for s s1 s2 a b c1 c2
    using that inline_push_append[OF that(1), of a s1 _ b s2] by (auto simp: citation_push_str_def same_chunk_def)
qed (simp_all add: inline_push_nothing citation_push_str_def)

lemma citation_new_good: "inline_good citation_new"
proof -
  let ?s = "[\<lparr>spec_tag = Citation, spec_open = CITATION_OPEN, spec_close = CITATION_CLOSE\<rparr>]"
  have n: "citation_new = \<lparr>ip_specs = ?s, ip_pending = [], ip_active = None\<rparr>"
    by (simp add: citation_new_def inline_new_def CITATION_OPEN_def CITATION_CLOSE_def lit_def)
  have "wf_specs ?s" by code_simp
  moreover have "find_next_open ?s [] = None" by code_simp
  then have "inline_loop ?s [] None chunk_default = Some ([], None, chunk_default)"
    by (subst inline_loop.simps) (simp add: chunk_default_def)
  ultimately show ?thesis by (simp add: inline_good_def n act_ok_def)
qed

section \<open>Merging segments\<close>

abbreviation merge_segments :: "'t tagged_line_segment list \<Rightarrow> 't tagged_line_segment list" where
  "merge_segments \<equiv> foldl push_segment []"

lemma last_opt_simps [simp]: "last_opt (xs @ [x]) = Some x" "last_opt [] = None"
  by (simp_all add: last_opt_def)

lemma push_segment_merge:
  "push_segment (push_segment S (Normal x)) (Normal y) = push_segment S (Normal (x @ y))"
  "push_segment (push_segment S (TagDelta t x)) (TagDelta t y) = push_segment S (TagDelta t (x @ y))"
  by (auto simp: push_segment_def split: option.splits tagged_line_segment.splits)

lemma push_segment_cases:
  obtains (merge_normal) U u d where "T = U @ [Normal u]" "x = Normal d" "push_segment T x = U @ [Normal (u @ d)]"
    | (merge_delta) U t u d where "T = U @ [TagDelta t u]" "x = TagDelta t d" "push_segment T x = U @ [TagDelta t (u @ d)]"
    | (none) "\<And>S. push_segment S x = S"
    | (add) "push_segment T x = T @ [x]"
proof -
  consider (empty) "\<And>S. push_segment S x = S" | (normal) d where "x = Normal d" "d \<noteq> []"
    | (delta) t d where "x = TagDelta t d" "d \<noteq> []" | (tag) "\<And>S. push_segment S x = S @ [x]"
    by (cases x) (force simp: push_segment_def)+
  then show thesis
  proof cases
    case empty
    then show thesis by (rule none)
  next
    case tag
    then show thesis by (intro add)
  next
    case (normal d)
    show thesis
    proof (cases "\<exists>U u. T = U @ [Normal u]")
      case True
      then show thesis using normal merge_normal by (auto simp: push_segment_def)
    next
      case False
      then have "push_segment T x = T @ [x]"
        using normal by (cases T rule: rev_cases; cases "last T") (auto simp: push_segment_def)
      then show thesis by (rule add)
    qed
  next
    case (delta t d)
    show thesis
    proof (cases "\<exists>U u. T = U @ [TagDelta t u]")
      case True
      then show thesis using delta merge_delta by (auto simp: push_segment_def)
    next
      case False
      then have "push_segment T x = T @ [x]"
        using delta by (cases T rule: rev_cases; cases "last T") (auto simp: push_segment_def)
      then show thesis by (rule add)
    qed
  qed
qed

lemma foldl_push_segment: "foldl push_segment S (push_segment T x) = push_segment (foldl push_segment S T) x"
proof (cases T x rule: push_segment_cases)
  case (merge_normal U u d)
  then show ?thesis using push_segment_merge(1)[of "foldl push_segment S U" u d] by simp
next
  case (merge_delta U t u d)
  then show ?thesis using push_segment_merge(2)[of "foldl push_segment S U" t u d] by simp
qed simp_all

lemma foldl_push_segments: "foldl push_segment S (foldl push_segment T xs) = foldl push_segment (foldl push_segment S T) xs"
  by (induction xs arbitrary: T) (simp_all add: foldl_push_segment)

lemma merge_append: "merge_segments (merge_segments xs @ merge_segments ys) = merge_segments (xs @ ys)"
  by (simp add: foldl_push_segments)

section \<open>Tagged lines\<close>

lemma push_text_Nil [simp]: "push_text p [] S = S"
  by (simp add: push_text_def text_segment_def push_segment_def split: option.splits)

lemma push_text_merge: "push_text p y (push_text p x S) = push_text p (x @ y) S"
  by (simp add: push_text_def text_segment_def push_segment_merge split: option.splits)

lemma flush_run_simp [simp]: "flush_run (p, run, S) = (p, [], push_text p run S)"
  by (simp add: flush_run_def)

lemma parse_char_flush: "flush_run (parse_char (flush_run st) ch) = flush_run (parse_char st ch)"
proof (cases st)
  case (fields p run S)
  have t: "push_text (p\<lparr>tl_detect_tag := d\<rparr>) x S = push_text p x S" for x d S
    by (simp add: push_text_def text_segment_def)
  show ?thesis
    unfolding fields by (simp add: parse_char_def Let_def push_text_merge split: prod.splits)
qed

lemma parse_chars_flush:
  "flush_run (foldl parse_char (flush_run st) cs) = flush_run (foldl parse_char st cs)"
proof (induction cs arbitrary: st)
  case Nil
  then show ?case by (cases st) simp
next
  case (Cons c cs)
  show ?case
    using Cons[of "parse_char (flush_run st) c"] Cons[of "parse_char st c"] parse_char_flush[of st c] by simp
qed

lemma push_text_onto: "push_text p x (foldl push_segment S T) = foldl push_segment S (push_text p x T)"
  by (simp add: push_text_def foldl_push_segment)

lemma finish_line_onto:
  "finish_line p (foldl push_segment S T) =
   (fst (finish_line p T), foldl push_segment S (snd (finish_line p T)))"
  by (auto simp: finish_line_def Let_def foldl_push_segment push_text_onto split: option.splits)

lemma parse_char_onto:
  "parse_char (p, run, foldl push_segment S T) ch =
   (case parse_char (p, run, T) ch of (p', run', T') \<Rightarrow> (p', run', foldl push_segment S T'))"
  by (simp add: parse_char_def Let_def push_text_onto finish_line_onto split: prod.splits)

lemma parse_chars_onto:
  "foldl parse_char (p, run, foldl push_segment S T) cs =
   (case foldl parse_char (p, run, T) cs of (p', run', T') \<Rightarrow> (p', run', foldl push_segment S T'))"
proof (induction cs arbitrary: p run T)
  case (Cons c cs)
  show ?case by (cases "parse_char (p, run, T) c") (simp add: parse_char_onto Cons)
qed simp

lemma tagged_parse_append:
  assumes "tagged_parse p a = (p1, s1)" "tagged_parse p1 b = (p2, s2)"
  shows "tagged_parse p (a @ b) = (p2, foldl push_segment s1 s2)"
proof -
  have a: "flush_run (foldl parse_char (p, [], []) a) = (p1, [], s1)"
    using assms(1) by (cases "foldl parse_char (p, [], []) a") (auto simp: tagged_parse_def)
  obtain q run T where b: "foldl parse_char (p1, [], []) b = (q, run, T)" by (metis prod_cases3)
  then have s2: "p2 = q" "s2 = push_text q run T" using assms(2) by (auto simp: tagged_parse_def)
  have "flush_run (foldl parse_char (p, [], []) (a @ b)) = flush_run (foldl parse_char (p1, [], s1) b)"
    using parse_chars_flush[of "foldl parse_char (p, [], []) a" b] a by simp
  also have "\<dots> = (p2, [], foldl push_segment s1 s2)"
    using parse_chars_onto[of p1 "[]" s1 "[]" b] b s2 by (simp add: push_text_onto)
  finally show ?thesis by (simp add: tagged_parse_def)
qed

end
