(* ===== verification/Assistant_Text.thy ===== *)
theory Assistant_Text
  imports Stream_Parsers
begin

text \<open>
  The parsers of \<open>utils/stream-parser\<close> composed: the proposed-plan parser and the assistant text
  parser are stream parsers in the sense of \<open>stream_text_parser\<close>, and all of them compute what
  one pass over the whole text would, citation by citation and line by line.
\<close>

section \<open>Plans and assistant text as stream parsers\<close>

fun unmap_segment :: "proposed_plan_segment \<Rightarrow> plan_tag tagged_line_segment" where
  "unmap_segment (PlanNormal text) = Normal text"
| "unmap_segment ProposedPlanStart = TagStart ProposedPlan"
| "unmap_segment (ProposedPlanDelta text) = TagDelta ProposedPlan text"
| "unmap_segment ProposedPlanEnd = TagEnd ProposedPlan"

definition merge_plan :: "proposed_plan_segment list \<Rightarrow> proposed_plan_segment list" where
  "merge_plan xs = map map_segment (merge_segments (map unmap_segment xs))"

lemma unmap_map_segment [simp]: "unmap_segment (map_segment s) = s"
proof (cases s)
  case (TagStart t) then show ?thesis by (cases t) simp
next
  case (TagDelta t x) then show ?thesis by (cases t) simp
next
  case (TagEnd t) then show ?thesis by (cases t) simp
qed simp

lemma unmap_map_segments [simp]: "map (unmap_segment \<circ> map_segment) xs = xs"
  by (induction xs) simp_all

definition normal_text :: "plan_tag tagged_line_segment list \<Rightarrow> rstr" where
  "normal_text segments = concat (map (segment_text \<circ> map_segment) segments)"

lemma map_segments_simps [simp]:
  "visible_text (map_segments segments) = normal_text segments"
  "extracted (map_segments segments) = map map_segment segments"
  by (simp_all add: map_segments_def normal_text_def)

lemma normal_text_simps [simp]:
  "normal_text [] = []" "normal_text (xs @ ys) = normal_text xs @ normal_text ys"
  "normal_text (x # xs) = segment_text (map_segment x) @ normal_text xs"
  by (simp_all add: normal_text_def)

lemma map_segment_tags [simp]:
  "map_segment (TagStart t) = ProposedPlanStart" "map_segment (TagDelta t x) = ProposedPlanDelta x"
  "map_segment (TagEnd t) = ProposedPlanEnd"
  by (cases t; simp)+

lemma normal_text_push [simp]: "normal_text (push_segment S x) = normal_text S @ segment_text (map_segment x)"
proof (cases S x rule: push_segment_cases)
  case none
  from none[of "[]"] have "segment_text (map_segment x) = []"
    by (cases x) (auto simp: push_segment_def split: if_splits)
  with none show ?thesis by simp
qed auto

lemma normal_text_foldl [simp]: "normal_text (foldl push_segment S xs) = normal_text S @ normal_text xs"
  by (induction xs arbitrary: S) simp_all

lemma merge_plan_append: "merge_plan (merge_plan xs @ merge_plan ys) = merge_plan (xs @ ys)"
  by (simp add: merge_plan_def foldl_push_segments)

lemma plan_push_append:
  assumes "plan_push_str p a = (p1, c1)" "plan_push_str p1 b = (p2, c2)"
  shows "\<exists>c. plan_push_str p (a @ b) = (p2, c) \<and> same_chunk merge_plan c (chunk_append c1 c2)"
proof -
  obtain s1 s2 where s: "tagged_parse p a = (p1, s1)" "c1 = map_segments s1"
      "tagged_parse p1 b = (p2, s2)" "c2 = map_segments s2"
    using assms by (auto simp: plan_push_str_def split: prod.splits)
  have "plan_push_str p (a @ b) = (p2, map_segments (foldl push_segment s1 s2))"
    using tagged_parse_append[OF s(1,3)] by (simp add: plan_push_str_def)
  moreover have "same_chunk merge_plan (map_segments (foldl push_segment s1 s2)) (chunk_append c1 c2)"
    using s(2,4) by (simp add: same_chunk_def merge_plan_def foldl_push_segments)
  ultimately show ?thesis by blast
qed

lemma plan_push_nothing [simp]: "plan_push_str p [] = (p, chunk_default)"
  by (simp add: plan_push_str_def tagged_parse_def map_segments_def chunk_default_def)

interpretation plans: stream_text_parser "\<lambda>p t. Some (plan_push_str p t)" "\<lambda>_. True" merge_plan
proof
  show "\<exists>s' c. Some (plan_push_str s t) = Some (s', c) \<and> True" for s t
    by (cases "plan_push_str s t") simp
  show "\<exists>c. Some (plan_push_str s (a @ b)) = Some (s2, c) \<and> same_chunk merge_plan c (chunk_append c1 c2)"
    if "Some (plan_push_str s a) = Some (s1, c1)" "Some (plan_push_str s1 b) = Some (s2, c2)" for s s1 s2 a b c1 c2
    using plan_push_append that by simp
qed (simp_all add: merge_plan_append)

text \<open>
  The chunks of the assistant carry two kinds of hidden parts; for the interface they are one
  list of citations and plan segments.
\<close>

definition as_chunk :: "assistant_text_chunk \<Rightarrow> (rstr + proposed_plan_segment) stream_text_chunk" where
  "as_chunk c = \<lparr>visible_text = at_visible_text c,
     extracted = map Inl (at_citations c) @ map Inr (at_plan_segments c)\<rparr>"

definition lefts :: "('a + 'b) list \<Rightarrow> 'a list" where
  "lefts xs = concat (map (\<lambda>x. case x of Inl a \<Rightarrow> [a] | Inr _ \<Rightarrow> []) xs)"

definition rights :: "('a + 'b) list \<Rightarrow> 'b list" where
  "rights xs = concat (map (\<lambda>x. case x of Inl _ \<Rightarrow> [] | Inr b \<Rightarrow> [b]) xs)"

lemma lefts_rights [simp]:
  "lefts (xs @ ys) = lefts xs @ lefts ys" "rights (xs @ ys) = rights xs @ rights ys"
  "lefts (map Inl as) = as" "rights (map Inl as) = []" "lefts (map Inr bs) = []" "rights (map Inr bs) = bs"
  by (simp_all add: lefts_def rights_def comp_def)

definition assistant_obs ::
  "(rstr + proposed_plan_segment) list \<Rightarrow> (rstr + proposed_plan_segment) list" where
  "assistant_obs xs = map Inl (lefts xs) @ map Inr (merge_plan (rights xs))"

definition assistant_push ::
  "assistant_text_stream_parser \<Rightarrow> rstr \<Rightarrow>
   (assistant_text_stream_parser \<times> (rstr + proposed_plan_segment) stream_text_chunk) option" where
  "assistant_push p t = map_option (\<lambda>(p', c). (p', as_chunk c)) (assistant_push_str p t)"

definition plan_answer ::
  "assistant_text_stream_parser \<Rightarrow> citation_stream_parser \<times> rstr stream_text_chunk \<Rightarrow>
   assistant_text_stream_parser \<times> (rstr + proposed_plan_segment) stream_text_chunk" where
  "plan_answer p r =
     (let (cp, cc) = r in
      if as_plan_mode p
      then (let (pl, pc) = plan_push_str (as_plan p) (visible_text cc)
            in (p\<lparr>as_citations := cp, as_plan := pl\<rparr>,
                \<lparr>visible_text = visible_text pc, extracted = map Inl (extracted cc) @ map Inr (extracted pc)\<rparr>))
      else (p\<lparr>as_citations := cp\<rparr>,
            \<lparr>visible_text = visible_text cc, extracted = map Inl (extracted cc)\<rparr>))"

lemma assistant_push_answer:
  "assistant_push p t = map_option (plan_answer p) (citation_push_str (as_citations p) t)"
  by (auto simp: assistant_push_def assistant_push_str_def parse_visible_text_def as_chunk_def plan_answer_def Let_def
      option.map_comp comp_def intro!: option.map_cong0 split: prod.splits)

interpretation assistant: stream_text_parser assistant_push "\<lambda>p. inline_good (as_citations p)" assistant_obs
proof
  show "\<exists>s' c. assistant_push s t = Some (s', c) \<and> inline_good (as_citations s')"
    if good: "inline_good (as_citations s)" for s t
  proof -
    obtain cp cc where "citation_push_str (as_citations s) t = Some (cp, cc)" "inline_good cp"
      using citations.push_returns[OF good] by blast
    then show ?thesis by (auto simp: assistant_push_answer plan_answer_def split: prod.splits)
  qed
  show "assistant_push s [] = Some (s, chunk_default)" if "inline_good (as_citations s)" for s
    using citations.push_nothing[OF that] by (auto simp: assistant_push_answer plan_answer_def chunk_default_def)
  show "\<exists>c. assistant_push s (a @ b) = Some (s2, c) \<and> same_chunk assistant_obs c (chunk_append c1 c2)"
    if good: "inline_good (as_citations s)" and a: "assistant_push s a = Some (s1, c1)"
      and b: "assistant_push s1 b = Some (s2, c2)" for s s1 s2 a b c1 c2
  proof -
    obtain cp1 cc1 where ca: "citation_push_str (as_citations s) a = Some (cp1, cc1)"
      using a by (auto simp: assistant_push_answer)
    have s1: "plan_answer s (cp1, cc1) = (s1, c1)" using a ca by (simp add: assistant_push_answer)
    then have cit: "as_citations s1 = cp1" by (auto simp: plan_answer_def split: if_splits prod.splits)
    obtain cp2 cc2 where cb: "citation_push_str cp1 b = Some (cp2, cc2)"
      using b cit by (auto simp: assistant_push_answer)
    have s2: "plan_answer s1 (cp2, cc2) = (s2, c2)" using b cb cit by (simp add: assistant_push_answer)
    obtain cc where cab: "citation_push_str (as_citations s) (a @ b) = Some (cp2, cc)"
        "visible_text cc = visible_text cc1 @ visible_text cc2" "extracted cc = extracted cc1 @ extracted cc2"
      using citations.push_append[OF good ca cb] by (auto simp: same_chunk_def)
    have ans: "assistant_push s (a @ b) = Some (plan_answer s (cp2, cc))"
      using cab(1) by (simp add: assistant_push_answer)
    show ?thesis
    proof (cases "as_plan_mode s")
      case False
      then have "s1 = s\<lparr>as_citations := cp1\<rparr>" "\<not> as_plan_mode s1" using s1 by (auto simp: plan_answer_def)
      with False s1 s2 ans cab(2,3) show ?thesis by (auto simp: plan_answer_def same_chunk_def)
    next
      case True
      obtain pl1 pc1 where pa: "plan_push_str (as_plan s) (visible_text cc1) = (pl1, pc1)" by fastforce
      have s1': "s1 = s\<lparr>as_citations := cp1, as_plan := pl1\<rparr>" using s1 pa True by (simp add: plan_answer_def)
      obtain pl2 pc2 where pb: "plan_push_str pl1 (visible_text cc2) = (pl2, pc2)" by fastforce
      obtain pc where pab: "plan_push_str (as_plan s) (visible_text cc) = (pl2, pc)"
          "same_chunk merge_plan pc (chunk_append pc1 pc2)"
        using plan_push_append[OF pa pb] cab(2) by auto
      have c1: "c1 = \<lparr>visible_text = visible_text pc1, extracted = map Inl (extracted cc1) @ map Inr (extracted pc1)\<rparr>"
        using s1 pa True by (simp add: plan_answer_def)
      have c2: "s2 = s\<lparr>as_citations := cp2, as_plan := pl2\<rparr>"
          "c2 = \<lparr>visible_text = visible_text pc2, extracted = map Inl (extracted cc2) @ map Inr (extracted pc2)\<rparr>"
        using s2 s1' pb True by (simp_all add: plan_answer_def)
      have "plan_answer s (cp2, cc) = (s2, \<lparr>visible_text = visible_text pc,
          extracted = map Inl (extracted cc) @ map Inr (extracted pc)\<rparr>)"
        using pab(1) True c2(1) by (simp add: plan_answer_def)
      with ans pab(2) cab(3) c1 c2(2) show ?thesis by (simp add: same_chunk_def assistant_obs_def)
    qed
  qed
  show "assistant_obs (assistant_obs x @ assistant_obs y) = assistant_obs (x @ y)" for x y
    by (simp add: assistant_obs_def merge_plan_append)
qed

section \<open>What the parsers compute\<close>

lemma citation_delimiters: "CITATION_OPEN \<noteq> []" "CITATION_CLOSE \<noteq> []"
  by (simp_all add: CITATION_OPEN_def CITATION_CLOSE_def lit_def)

text \<open>Citations of a whole text: everything between an opening and the next closing tag.\<close>

function split_citations :: "rstr \<Rightarrow> rstr \<times> rstr list" where
  "split_citations text =
     (case find_sub CITATION_OPEN text of
        None \<Rightarrow> (text, [])
      | Some i \<Rightarrow>
          (let rest = drop (i + length CITATION_OPEN) text in
           case find_sub CITATION_CLOSE rest of
             None \<Rightarrow> (take i text, [rest])
           | Some j \<Rightarrow>
               (let (v, cs) = split_citations (drop (j + length CITATION_CLOSE) rest)
                in (take i text @ v, take j rest # cs))))"
  by pat_completeness auto
termination
proof (relation "measure length")
  fix t i rest j
  assume i: "find_sub CITATION_OPEN t = Some i" and r: "rest = drop (i + length CITATION_OPEN) t"
  have "0 < length CITATION_OPEN" using citation_delimiters by simp
  with find_sub_bound[OF i] have "length t > 0" by linarith
  then show "(drop (j + length CITATION_CLOSE) rest, t) \<in> measure length"
    using citation_delimiters by (simp add: r)
qed simp

declare split_citations.simps [simp del]

lemma one_spec_open: "find_next_open [s] p = map_option (\<lambda>i. (i, 0)) (find_sub (spec_open s) p)"
  by (simp add: find_next_open_def split: option.splits)

definition settle ::
  "rstr \<times> citation_tag active_tag option \<times> citation_tag extracted_inline_tag stream_text_chunk \<Rightarrow>
   rstr stream_text_chunk" where
  "settle r = (let (pending, active, out) = r
               in tag_contents (chunk_append out (snd (inline_finish
                    \<lparr>ip_specs = [], ip_pending = pending, ip_active = active\<rparr>))))"

definition citation_spec :: "citation_tag inline_tag_spec" where
  "citation_spec = \<lparr>spec_tag = Citation, spec_open = CITATION_OPEN, spec_close = CITATION_CLOSE\<rparr>"

lemma inline_loop_split:
  "map_option settle (inline_loop [citation_spec] t None out) =
   Some (chunk_append (tag_contents out)
     \<lparr>visible_text = fst (split_citations t), extracted = snd (split_citations t)\<rparr>)"
proof (induction t arbitrary: out rule: split_citations.induct)
  case (1 t)
  have n: "[citation_spec] ! 0 = citation_spec" "spec_open citation_spec = CITATION_OPEN"
      "spec_close citation_spec = CITATION_CLOSE"
    by (simp_all add: citation_spec_def)
  show ?case
  proof (cases "find_sub CITATION_OPEN t")
    case None
    then show ?thesis
      by (simp add: inline_loop.simps[of _ t] one_spec_open n split_citations.simps[of t] settle_def inline_finish_def
          tag_contents_def chunk_append_def chunk_default_def Let_def)
  next
    case (Some i)
    let ?r = "drop (i + length CITATION_OPEN) t"
    let ?a = "\<lparr>act_tag = spec_tag citation_spec, act_close = CITATION_CLOSE, act_content = []\<rparr>"
    have open_step: "inline_loop [citation_spec] t None out =
        inline_loop [citation_spec] ?r (Some ?a) (out\<lparr>visible_text := visible_text out @ take i t\<rparr>)"
      using Some by (subst inline_loop.simps) (simp add: one_spec_open n)
    show ?thesis
    proof (cases "find_sub CITATION_CLOSE ?r")
      case None
      then show ?thesis using Some
        by (simp add: open_step inline_loop.simps[of _ ?r] split_citations.simps[of t] settle_def inline_finish_def
            tag_contents_def chunk_append_def chunk_default_def Let_def del: drop_drop)
    next
      case j: (Some j)
      let ?q = "drop (j + length CITATION_CLOSE) ?r"
      have close_step: "inline_loop [citation_spec] t None out = inline_loop [citation_spec] ?q None
          (out\<lparr>visible_text := visible_text out @ take i t,
               extracted := extracted out @ [\<lparr>ex_tag = spec_tag citation_spec, ex_content = take j ?r\<rparr>]\<rparr>)"
        unfolding open_step using j by (subst inline_loop.simps) simp
      have ih: "map_option settle (inline_loop [citation_spec] ?q None o') =
          Some (chunk_append (tag_contents o')
            \<lparr>visible_text = fst (split_citations ?q), extracted = snd (split_citations ?q)\<rparr>)" for o'
        by (rule 1[OF Some refl j])
      have "split_citations t = (take i t @ fst (split_citations ?q), take j ?r # snd (split_citations ?q))"
        using Some j by (simp add: split_citations.simps[of t] Let_def case_prod_beta)
      then show ?thesis unfolding close_step ih by (simp add: tag_contents_def chunk_append_def)
    qed
  qed
qed

lemma citation_new_eq: "citation_new = \<lparr>ip_specs = [citation_spec], ip_pending = [], ip_active = None\<rparr>"
  by (simp add: citation_new_def inline_new_def citation_spec_def citation_delimiters)

lemma citation_push_new:
  "\<exists>p c. citation_push_str citation_new t = Some (p, c) \<and>
     chunk_append c (snd (citation_finish p)) =
       \<lparr>visible_text = fst (split_citations t), extracted = snd (split_citations t)\<rparr>"
proof -
  obtain q a out where r: "inline_loop [citation_spec] t None chunk_default = Some (q, a, out)"
    using inline_loop_split[of t chunk_default] by (cases "inline_loop [citation_spec] t None chunk_default") auto
  let ?p = "\<lparr>ip_specs = [citation_spec], ip_pending = q, ip_active = a\<rparr>"
  have "citation_push_str citation_new t = Some (?p, tag_contents out)"
    by (simp add: citation_push_str_def inline_push_str_def citation_new_eq r)
  moreover have "chunk_append (tag_contents out) (snd (citation_finish ?p)) = settle (q, a, out)"
    by (simp add: settle_def citation_finish_def inline_finish_def Let_def split: option.splits)
  ultimately show ?thesis using inline_loop_split[of t chunk_default] r by auto
qed

lemma strip_citations_split: "strip_citations t = Some (split_citations t)"
  using citation_push_new[of t] by (auto simp: strip_citations_def chunk_append_def)


text \<open>
  Tags on lines: a line that is an opening tag opens a block, the matching closing tag ends it,
  and every other line is text, outside or inside the block. An open block ends with the text.
\<close>

function keep_lines :: "rstr \<Rightarrow> rstr list" where
  "keep_lines t =
     (if t = [] then []
      else (case position (\<lambda>c. c = LF) t of
              None \<Rightarrow> [t]
            | Some i \<Rightarrow> take (Suc i) t # keep_lines (drop (Suc i) t)))"
  by pat_completeness auto
termination by (relation "measure length") auto

declare keep_lines.simps [simp del]

definition line_event :: "'t tagged_line_parser \<Rightarrow> rstr \<Rightarrow> 't option \<times> 't tagged_line_segment" where
  "line_event p line =
     (case (match_open p (line_slug line), match_close p (line_slug line), tl_active_tag p) of
        (Some tag, _, None) \<Rightarrow> (Some tag, TagStart tag)
      | (_, Some tag, Some active) \<Rightarrow>
          if active = tag then (None, TagEnd tag) else (Some active, TagDelta active line)
      | (_, _, None) \<Rightarrow> (None, Normal line)
      | (_, _, Some active) \<Rightarrow> (Some active, TagDelta active line))"

fun line_segments :: "'t tagged_line_parser \<Rightarrow> rstr list \<Rightarrow> 't tagged_line_segment list" where
  "line_segments p [] = (case tl_active_tag p of Some tag \<Rightarrow> [TagEnd tag] | None \<Rightarrow> [])"
| "line_segments p (line # rest) =
     (let (active, segment) = line_event p line in segment # line_segments (p\<lparr>tl_active_tag := active\<rparr>) rest)"

lemma keep_lines_simps:
  "LF \<notin> set l \<Longrightarrow> keep_lines (l @ LF # rest) = (l @ [LF]) # keep_lines rest"
  "LF \<notin> set l \<Longrightarrow> l \<noteq> [] \<Longrightarrow> keep_lines l = [l]"
  "keep_lines [] = []"
proof -
  assume l: "LF \<notin> set l"
  have "position (\<lambda>c. c = LF) (l @ LF # rest) = Some (length l)"
    using l by (auto simp: position_Some_iff nth_append in_set_conv_nth)
  then show "keep_lines (l @ LF # rest) = (l @ [LF]) # keep_lines rest"
    by (simp add: keep_lines.simps[of "l @ LF # rest"])
next
  assume l: "LF \<notin> set l" "l \<noteq> []"
  have "position (\<lambda>c. c = LF) l \<noteq> Some i" for i
    using l by (auto simp: position_Some_iff in_set_conv_nth)
  with l show "keep_lines l = [l]" by (simp add: keep_lines.simps[of l] split: option.splits)
qed (simp add: keep_lines.simps)

lemma finish_line_event:
  "finish_line p S =
   (p\<lparr>tl_line_buffer := [], tl_detect_tag := True, tl_active_tag := fst (line_event p (tl_line_buffer p))\<rparr>,
    push_segment S (snd (line_event p (tl_line_buffer p))))"
  by (cases p) (auto simp: finish_line_def line_event_def Let_def match_open_def match_close_def push_text_def text_segment_def
      split: option.splits)

definition tag_like :: "'t tagged_line_parser \<Rightarrow> rstr \<Rightarrow> bool" where
  "tag_like p u = list_all (\<lambda>k. trim_start (take k u) = [] \<or> is_tag_prefix p (trim_start (take k u))) [1..<Suc (length u)]"

lemma tag_like_snoc:
  "tag_like p (u @ [c]) \<longleftrightarrow> tag_like p u \<and> (trim_start (u @ [c]) = [] \<or> is_tag_prefix p (trim_start (u @ [c])))"
  by (auto simp: tag_like_def list_all_iff less_Suc_eq)

lemma tag_like_Nil [simp]: "tag_like p []"
  by (simp add: tag_like_def)

text \<open>The part of a line read so far, with nothing buffered at its start.\<close>

lemma line_chars:
  assumes "tl_detect_tag q" "tl_line_buffer q = []" "LF \<notin> set u"
  shows "flush_run (foldl parse_char (q, [], S) u) =
    (if tag_like q u then (q\<lparr>tl_line_buffer := u\<rparr>, [], S) else (q\<lparr>tl_detect_tag := False\<rparr>, [], push_text q u S))"
  using assms(3)
proof (induction u rule: rev_induct)
  case Nil
  show ?case using assms(1,2) by (cases q) simp
next
  case (snoc c u)
  have ih: "flush_run (foldl parse_char (q, [], S) u) =
      (if tag_like q u then (q\<lparr>tl_line_buffer := u\<rparr>, [], S) else (q\<lparr>tl_detect_tag := False\<rparr>, [], push_text q u S))"
    using snoc by simp
  have step: "flush_run (foldl parse_char (q, [], S) (u @ [c])) =
      flush_run (parse_char (flush_run (foldl parse_char (q, [], S) u)) c)"
    by (simp add: parse_char_flush)
  have t: "push_text (q\<lparr>tl_line_buffer := b, tl_detect_tag := d\<rparr>) x T = push_text q x T"
      "push_text (q\<lparr>tl_detect_tag := d\<rparr>) x T = push_text q x T"
      "is_tag_prefix (q\<lparr>tl_line_buffer := b\<rparr>) x = is_tag_prefix q x" for b d x T
    by (simp_all add: push_text_def text_segment_def is_tag_prefix_def)
  have c: "c \<noteq> LF" using snoc.prems by auto
  have b: "q\<lparr>tl_line_buffer := [], tl_detect_tag := False\<rparr> = q\<lparr>tl_detect_tag := False\<rparr>"
    using assms(2) by (cases q) simp
  show ?case
  proof (cases "tag_like q u")
    case True
    then show ?thesis unfolding step ih using c assms(1)
      by (simp add: parse_char_def tag_like_snoc t b)
  next
    case False
    then show ?thesis unfolding step ih using c
      by (simp add: parse_char_def tag_like_snoc t push_text_merge)
  qed
qed

lemma trim_end_of_prefix:
  assumes "s = x @ y"
  shows "\<exists>r. trim_end s = trim_end x @ r"
proof -
  obtain w where w: "s = trim_end s @ w" "\<forall>c\<in>set w. is_whitespace c" using trim_end_split by blast
  obtain v where v: "x = trim_end x @ v" using trim_end_split by blast
  have "x @ y = trim_end s @ w" using assms w(1) by simp
  then consider r where "trim_end s = x @ r" | r where "x = trim_end s @ r" "w = r @ y"
    unfolding append_eq_append_conv2 by metis
  then show ?thesis
  proof cases
    case 1 then show ?thesis using v by (metis append_assoc)
  next
    case 2
    then have "trim_end x = trim_end (trim_end s)" using w(2) by (simp add: trim_end_append_ws)
    then show ?thesis by simp
  qed
qed

lemma trim_start_of_prefix: "trim_start v \<noteq> [] \<Longrightarrow> trim_start (v @ r) = trim_start v @ r"
  by (auto simp: trim_start_def dropWhile_append)

text \<open>A line that is a tag looks like one from its first character on.\<close>

lemma tag_lines_look_alike:
  assumes "spec \<in> set (tl_specs q)" "trim_end (trim_start u) \<in> {ts_open spec, ts_close spec}"
  shows "tag_like q u"
proof -
  have "is_tag_prefix q (trim_start (take k u))" if "trim_start (take k u) \<noteq> []" for k
  proof -
    have "trim_start u = trim_start (take k u) @ drop k u"
      using trim_start_of_prefix[OF that, of "drop k u"] by simp
    then have "starts_with (trim_end (trim_start (take k u))) (trim_end (trim_start u))"
      unfolding starts_with_iff by (rule trim_end_of_prefix)
    then show ?thesis using assms by (auto simp: is_tag_prefix_def list_ex_iff Let_def)
  qed
  then show ?thesis by (auto simp: tag_like_def list_all_iff)
qed

lemma line_slug_simps:
  "LF \<notin> set u \<Longrightarrow> line_slug (u @ [LF]) = trim_end (trim_start u)"
  "LF \<notin> set u \<Longrightarrow> line_slug u = trim_end (trim_start u)"
proof -
  have "strip_suffix [LF] (u @ [LF]) = Some u" by (simp add: strip_suffix_iff)
  then show "line_slug (u @ [LF]) = trim_end (trim_start u)" by (simp add: line_slug_def)
next
  assume "LF \<notin> set u"
  then have "strip_suffix [LF] u = None"
    by (cases "strip_suffix [LF] u") (auto simp: strip_suffix_iff)
  then show "line_slug u = trim_end (trim_start u)" by (simp add: line_slug_def)
qed

lemma not_tag_like_event:
  assumes "\<not> tag_like q u" "LF \<notin> set u" "line \<in> {u, u @ [LF]}"
  shows "line_event q line = (tl_active_tag q, text_segment q line)"
proof -
  have s: "line_slug line = trim_end (trim_start u)" using assms(2,3) line_slug_simps by auto
  have "ts_open spec \<noteq> line_slug line \<and> ts_close spec \<noteq> line_slug line" if "spec \<in> set (tl_specs q)" for spec
    using tag_lines_look_alike[OF that, of u] assms(1) s by auto
  then have "match_open q (line_slug line) = None" "match_close q (line_slug line) = None"
    by (auto simp: match_open_def match_close_def find_None_iff)
  then show ?thesis by (simp add: line_event_def text_segment_def split: option.splits)
qed


lemma line_event_cong [simp]:
  "line_event (q\<lparr>tl_line_buffer := b\<rparr>) line = line_event q line"
  "line_event (q\<lparr>tl_detect_tag := d\<rparr>) line = line_event q line"
  by (simp_all add: line_event_def match_open_def match_close_def)

lemma whole_line:
  assumes "tl_detect_tag q" "tl_line_buffer q = []" "LF \<notin> set l"
  shows "flush_run (parse_char (flush_run (foldl parse_char (q, [], S) l)) LF) =
    (q\<lparr>tl_active_tag := fst (line_event q (l @ [LF]))\<rparr>, [], push_segment S (snd (line_event q (l @ [LF]))))"
proof (cases "tag_like q l")
  case True
  have "q\<lparr>tl_line_buffer := [], tl_detect_tag := True, tl_active_tag := a\<rparr> = q\<lparr>tl_active_tag := a\<rparr>" for a
    using assms(1,2) by (cases q) simp
  with True show ?thesis unfolding line_chars[OF assms] using assms(1)
    by (simp add: parse_char_def finish_line_event)
next
  case False
  have t: "push_text (q\<lparr>tl_detect_tag := d\<rparr>) x T = push_text q x T" for d x T
    by (simp add: push_text_def text_segment_def)
  have "q\<lparr>tl_active_tag := tl_active_tag q\<rparr> = q\<lparr>tl_detect_tag := True\<rparr>" using assms(1) by (cases q) simp
  with False show ?thesis unfolding line_chars[OF assms] using not_tag_like_event[OF False assms(3), of "l @ [LF]"]
    by (simp add: parse_char_def t push_text_merge) (simp add: push_text_def)
qed

lemma last_line:
  assumes "tl_detect_tag q" "tl_line_buffer q = []" "LF \<notin> set l" "l \<noteq> []"
  shows "\<exists>p' S1. flush_run (foldl parse_char (q, [], S) l) = (p', [], S1) \<and>
    foldl push_segment S1 (snd (tagged_finish p')) = foldl push_segment S (line_segments q [l])"
proof (cases "tag_like q l")
  case True
  have "foldl push_segment S (snd (tagged_finish (q\<lparr>tl_line_buffer := l\<rparr>))) = foldl push_segment S (line_segments q [l])"
    using assms(4)
    by (simp add: tagged_finish_def finish_line_event Let_def foldl_push_segment case_prod_beta split: option.splits)
  then show ?thesis using line_chars[OF assms(1-3), of S] True by auto
next
  case False
  have "foldl push_segment (push_text q l S) (snd (tagged_finish (q\<lparr>tl_detect_tag := False\<rparr>))) =
      foldl push_segment S (line_segments q [l])"
    using assms(2) not_tag_like_event[OF False assms(3), of l]
    by (simp add: tagged_finish_def Let_def foldl_push_segment push_text_def split: option.splits)
  then show ?thesis using line_chars[OF assms(1-3), of S] False by auto
qed

lemma parse_by_lines:
  assumes "tl_detect_tag q" "tl_line_buffer q = []"
  shows "\<exists>p' S1. flush_run (foldl parse_char (q, [], S) t) = (p', [], S1) \<and>
    foldl push_segment S1 (snd (tagged_finish p')) = foldl push_segment S (line_segments q (keep_lines t))"
  using assms
proof (induction t arbitrary: q S rule: length_induct)
  case (1 t)
  consider (none) "t = []" | (last) "t \<noteq> []" "LF \<notin> set t" | (line) l rest where "t = l @ LF # rest" "LF \<notin> set l"
    using split_list_first[of LF t] by blast
  then show ?case
  proof cases
    case none
    then show ?thesis using "1.prems"
      by (simp add: tagged_finish_def keep_lines_simps push_segment_def split: option.splits)
  next
    case last
    then show ?thesis using last_line "1.prems" by (simp add: keep_lines_simps)
  next
    case line
    let ?e = "line_event q (l @ [LF])" let ?q = "q\<lparr>tl_active_tag := fst ?e\<rparr>"
    have "flush_run (foldl parse_char (q, [], S) t) =
        flush_run (foldl parse_char (flush_run (parse_char (flush_run (foldl parse_char (q, [], S) l)) LF)) rest)"
      unfolding line(1) by (simp add: parse_char_flush parse_chars_flush)
    also have "\<dots> = flush_run (foldl parse_char (?q, [], push_segment S (snd ?e)) rest)"
      using whole_line[OF "1.prems" line(2)] by simp
    finally have step: "flush_run (foldl parse_char (q, [], S) t) =
        flush_run (foldl parse_char (?q, [], push_segment S (snd ?e)) rest)" .
    have "\<exists>p' S1. flush_run (foldl parse_char (?q, [], push_segment S (snd ?e)) rest) = (p', [], S1) \<and>
        foldl push_segment S1 (snd (tagged_finish p')) =
        foldl push_segment (push_segment S (snd ?e)) (line_segments ?q (keep_lines rest))"
      using "1.IH" line(1) "1.prems" by simp
    then show ?thesis unfolding step by (simp add: line keep_lines_simps case_prod_beta)
  qed
qed

lemma tagged_parse_lines:
  assumes "tagged_parse (tagged_new specs) t = (p, S)"
  shows "merge_segments (S @ snd (tagged_finish p)) = merge_segments (line_segments (tagged_new specs) (keep_lines t))"
proof -
  have "merge_segments S = S"
    using tagged_parse_append[of "tagged_new specs" "[]" "tagged_new specs" "[]" t p S] assms
    by (simp add: tagged_parse_def)
  then show ?thesis
    using parse_by_lines[of "tagged_new specs" "[]" t] assms
    by (auto simp: tagged_parse_def tagged_new_def)
qed


text \<open>The segments of a whole text in plan mode, and what is left to show.\<close>

definition plan_lines :: "rstr \<Rightarrow> proposed_plan_segment list" where
  "plan_lines t = map map_segment (line_segments plan_new (keep_lines t))"

definition shown_text :: "proposed_plan_segment list \<Rightarrow> rstr" where
  "shown_text segments = concat (map segment_text segments)"

lemma plan_push_lines:
  assumes "plan_push_str plan_new t = (p, c)"
  shows "visible_text c @ visible_text (snd (plan_finish p)) = shown_text (plan_lines t)"
    and "merge_plan (extracted c @ extracted (snd (plan_finish p))) = merge_plan (plan_lines t)"
proof -
  obtain S where S: "tagged_parse plan_new t = (p, S)" "c = map_segments S"
    using assms by (auto simp: plan_push_str_def split: prod.splits)
  have m: "merge_segments (S @ snd (tagged_finish p)) = merge_segments (line_segments plan_new (keep_lines t))"
    using tagged_parse_lines S(1) unfolding plan_new_def by blast
  have f: "snd (plan_finish p) = map_segments (snd (tagged_finish p))"
    by (simp add: plan_finish_def case_prod_beta)
  have "normal_text (S @ snd (tagged_finish p)) = normal_text (line_segments plan_new (keep_lines t))"
    using arg_cong[OF m, of normal_text] by simp
  then show "visible_text c @ visible_text (snd (plan_finish p)) = shown_text (plan_lines t)"
    by (simp add: S(2) f shown_text_def plan_lines_def normal_text_def)
  show "merge_plan (extracted c @ extracted (snd (plan_finish p))) = merge_plan (plan_lines t)"
    using m by (simp add: S(2) f merge_plan_def plan_lines_def)
qed

lemma strip_proposed_plan_blocks_lines: "strip_proposed_plan_blocks t = shown_text (plan_lines t)"
  using plan_push_lines(1) by (simp add: strip_proposed_plan_blocks_def split: prod.splits)

text \<open>
  A consumer of the stream: it pushes the deltas in order, then finishes, and keeps the shown text,
  the citations and the plan segments of every chunk.
\<close>

definition assistant_collect ::
  "assistant_text_stream_parser \<Rightarrow> rstr list \<Rightarrow> (rstr \<times> rstr list \<times> proposed_plan_segment list) option" where
  "assistant_collect p deltas =
     map_option (\<lambda>(p', out).
       (let tail = snd (assistant_finish p')
        in (visible_text out @ at_visible_text tail, lefts (extracted out) @ at_citations tail,
            rights (extracted out) @ at_plan_segments tail)))
       (push_chunks assistant_push p deltas)"

lemma assistant_obs_parts:
  "lefts (assistant_obs xs) = lefts xs" "rights (assistant_obs xs) = merge_plan (rights xs)"
  by (simp_all add: assistant_obs_def)

lemma assistant_finish_parts:
  assumes "citation_finish (as_citations p) = (cp, cc)" "plan_push_str (as_plan p) (visible_text cc) = (pl, pc)"
  shows "at_citations (snd (assistant_finish p)) = extracted cc"
    and "as_plan_mode p \<Longrightarrow> at_visible_text (snd (assistant_finish p)) = visible_text pc @ visible_text (snd (plan_finish pl))"
    and "as_plan_mode p \<Longrightarrow> at_plan_segments (snd (assistant_finish p)) = extracted pc @ extracted (snd (plan_finish pl))"
    and "\<not> as_plan_mode p \<Longrightarrow> at_visible_text (snd (assistant_finish p)) = visible_text cc"
    and "\<not> as_plan_mode p \<Longrightarrow> at_plan_segments (snd (assistant_finish p)) = []"
  using assms by (simp_all add: assistant_finish_def parse_visible_text_def Let_def case_prod_beta)

lemma assistant_whole:
  assumes "assistant_push (assistant_new plan_mode) t = Some (p, c)" "tail = snd (assistant_finish p)"
  shows "lefts (extracted c) @ at_citations tail = snd (split_citations t)"
    and "plan_mode \<Longrightarrow> visible_text c @ at_visible_text tail = shown_text (plan_lines (fst (split_citations t)))"
    and "plan_mode \<Longrightarrow> merge_plan (rights (extracted c) @ at_plan_segments tail) =
                        merge_plan (plan_lines (fst (split_citations t)))"
    and "\<not> plan_mode \<Longrightarrow> visible_text c @ at_visible_text tail = fst (split_citations t)"
    and "\<not> plan_mode \<Longrightarrow> rights (extracted c) @ at_plan_segments tail = []"
proof -
  obtain cp cc where cc: "citation_push_str citation_new t = Some (cp, cc)"
      "chunk_append cc (snd (citation_finish cp)) =
       \<lparr>visible_text = fst (split_citations t), extracted = snd (split_citations t)\<rparr>"
    using citation_push_new by blast
  obtain cp' cd where cd: "citation_finish cp = (cp', cd)" by fastforce
  have whole: "fst (split_citations t) = visible_text cc @ visible_text cd"
      "snd (split_citations t) = extracted cc @ extracted cd"
    using cc(2) cd by (simp_all add: chunk_append_def)
  have pc: "plan_answer (assistant_new plan_mode) (cp, cc) = (p, c)"
    using assms(1) cc(1) by (simp add: assistant_push_answer assistant_new_def)
  obtain pl1 pc1 where p1: "plan_push_str plan_new (visible_text cc) = (pl1, pc1)" by fastforce
  have cit: "as_citations p = cp" "as_plan_mode p = plan_mode"
      "plan_mode \<Longrightarrow> as_plan p = pl1 \<and> visible_text c = visible_text pc1 \<and> rights (extracted c) = extracted pc1"
      "\<not> plan_mode \<Longrightarrow> visible_text c = visible_text cc \<and> rights (extracted c) = []"
      "lefts (extracted c) = extracted cc"
    using pc p1 by (auto simp: plan_answer_def assistant_new_def split: if_splits prod.splits)
  obtain pl2 pc2 where p2: "plan_push_str (as_plan p) (visible_text cd) = (pl2, pc2)" by fastforce
  note fin = assistant_finish_parts[of p cp' cd pl2 pc2, unfolded cit(1,2), OF cd p2]
  show "lefts (extracted c) @ at_citations tail = snd (split_citations t)"
    using fin(1) assms(2) cit(5) whole by simp
  show "\<not> plan_mode \<Longrightarrow> visible_text c @ at_visible_text tail = fst (split_citations t)"
    "\<not> plan_mode \<Longrightarrow> rights (extracted c) @ at_plan_segments tail = []"
    using fin(4,5) assms(2) cit(4) whole by simp_all
  assume mode: plan_mode
  then have p: "pl1 = as_plan p" using cit(3) by simp
  obtain pd where pd: "plan_push_str plan_new (fst (split_citations t)) = (pl2, pd)"
      "same_chunk merge_plan pd (chunk_append pc1 pc2)"
    using plan_push_append[OF p1 p2[folded p]] whole(1) by auto
  show "visible_text c @ at_visible_text tail = shown_text (plan_lines (fst (split_citations t)))"
    using plan_push_lines(1)[OF pd(1)] pd(2) fin(2)[OF mode] assms(2) cit(3)[OF mode] by (simp add: same_chunk_def)
  have "merge_plan (extracted pd @ extracted (snd (plan_finish pl2))) =
      merge_plan ((extracted pc1 @ extracted pc2) @ extracted (snd (plan_finish pl2)))"
    using pd(2) by (metis chunk_append_sel(2) merge_plan_append same_chunk_def)
  then show "merge_plan (rights (extracted c) @ at_plan_segments tail) =
      merge_plan (plan_lines (fst (split_citations t)))"
    using plan_push_lines(2)[OF pd(1)] fin(3)[OF mode] assms(2) cit(3)[OF mode] by simp
qed

text \<open>
  C7. However the text of the assistant is cut into deltas, pushing them returns and, with what is
  left at the end, shows and extracts what one pass over the whole text would: the citations are
  the texts between an opening and the next closing tag, in order; outside plan mode everything
  else is shown and there are no plan segments; in plan mode the rest is read line by line, and
  what is shown are the lines outside the proposed plans, while the segments, adjacent pieces of
  one text joined, are those of the lines.
\<close>

theorem assistant_text_by_lines:
  "\<exists>shown segments.
     assistant_collect (assistant_new plan_mode) deltas = Some (shown, snd (split_citations (concat deltas)), segments) \<and>
     shown = (let rest = fst (split_citations (concat deltas))
              in if plan_mode then shown_text (plan_lines rest) else rest) \<and>
     merge_plan segments =
       (if plan_mode then merge_plan (plan_lines (fst (split_citations (concat deltas)))) else [])"
proof -
  have "inline_good (as_citations (assistant_new plan_mode))"
    by (simp add: assistant_new_def citation_new_good)
  then obtain p c d where r: "assistant_push (assistant_new plan_mode) (concat deltas) = Some (p, c)"
      "push_chunks assistant_push (assistant_new plan_mode) deltas = Some (p, d)" "same_chunk assistant_obs c d"
    using assistant.chunks_irrelevant by blast
  have same: "visible_text c = visible_text d" "lefts (extracted c) = lefts (extracted d)"
      "merge_plan (rights (extracted c)) = merge_plan (rights (extracted d))"
    using r(3) assistant_obs_parts unfolding same_chunk_def by metis+
  then have segs: "merge_plan (rights (extracted d) @ x) = merge_plan (rights (extracted c) @ x)" for x
    by (metis merge_plan_append)
  have empty: "merge_plan [] = []" by (simp add: merge_plan_def)
  show ?thesis
    using assistant_whole[OF r(1) refl] r(2) same(1,2) segs segs[of "[]"] empty
    by (cases plan_mode) (simp_all add: assistant_collect_def)
qed

end
