(* ===== verification/Utf8_Stream.thy ===== *)
theory Utf8_Stream
  imports Assistant_Text "HOL-Library.Word"
begin

text \<open>
  \<open>utils/stream-parser/src/utf8_stream.rs\<close>: bytes in front of a text parser. \<open>from_utf8\<close> is the
  standard library's \<open>str::from_utf8\<close> with the \<open>valid_up_to\<close> and \<open>error_len\<close> of its error; that it
  inverts the encoding is \<open>from_utf8_encode\<close>. The wrapped parser is any parser with the contract of
  \<open>stream_text_parser\<close>.
\<close>

section \<open>Decoding\<close>

type_synonym byte = "8 word"

record utf8_error =
  valid_up_to :: nat
  error_len :: "nat option"

datatype utf8_outcome = Decoded rchar nat | Cut | Bad nat

definition is_cont :: "nat \<Rightarrow> bool" where
  "is_cont b \<longleftrightarrow> 0x80 \<le> b \<and> b \<le> 0xBF"

definition second_ok :: "nat \<Rightarrow> nat \<Rightarrow> bool" where
  "second_ok b0 b1 \<longleftrightarrow>
     (if b0 = 0xE0 then 0xA0 \<le> b1 \<and> b1 \<le> 0xBF
      else if b0 = 0xED then 0x80 \<le> b1 \<and> b1 \<le> 0x9F
      else if b0 = 0xF0 then 0x90 \<le> b1 \<and> b1 \<le> 0xBF
      else if b0 = 0xF4 then 0x80 \<le> b1 \<and> b1 \<le> 0x8F
      else is_cont b1)"

fun utf8_step :: "nat list \<Rightarrow> utf8_outcome" where
  "utf8_step [] = Cut"
| "utf8_step (b0 # bs) =
     (if b0 < 0x80 then Decoded b0 1
      else if 0xC2 \<le> b0 \<and> b0 \<le> 0xDF then
        (case bs of
           [] \<Rightarrow> Cut
         | b1 # _ \<Rightarrow> if is_cont b1 then Decoded ((b0 - 0xC0) * 64 + (b1 - 0x80)) 2 else Bad 1)
      else if 0xE0 \<le> b0 \<and> b0 \<le> 0xEF then
        (case bs of
           [] \<Rightarrow> Cut
         | b1 # bs \<Rightarrow>
             if \<not> second_ok b0 b1 then Bad 1
             else (case bs of
                     [] \<Rightarrow> Cut
                   | b2 # _ \<Rightarrow>
                       if is_cont b2 then Decoded (((b0 - 0xE0) * 64 + (b1 - 0x80)) * 64 + (b2 - 0x80)) 3 else Bad 2))
      else if 0xF0 \<le> b0 \<and> b0 \<le> 0xF4 then
        (case bs of
           [] \<Rightarrow> Cut
         | b1 # bs \<Rightarrow>
             if \<not> second_ok b0 b1 then Bad 1
             else (case bs of
                     [] \<Rightarrow> Cut
                   | b2 # bs \<Rightarrow>
                       if \<not> is_cont b2 then Bad 2
                       else (case bs of
                               [] \<Rightarrow> Cut
                             | b3 # _ \<Rightarrow>
                                 if is_cont b3
                                 then Decoded ((((b0 - 0xF0) * 64 + (b1 - 0x80)) * 64 + (b2 - 0x80)) * 64 + (b3 - 0x80)) 4
                                 else Bad 3)))
      else Bad 1)"

lemma utf8_step_width: "utf8_step bs = Decoded c w \<Longrightarrow> 0 < w \<and> w \<le> length bs"
  by (cases bs) (auto split: if_splits list.splits)

lemma utf8_step_append:
  "utf8_step a = Decoded c w \<Longrightarrow> utf8_step (a @ b) = Decoded c w"
  "a \<noteq> [] \<Longrightarrow> utf8_step a = Bad n \<Longrightarrow> utf8_step (a @ b) = Bad n"
  by (cases a; auto split: if_splits list.splits)+

lemma utf8_step_take:
  assumes "utf8_step a = Decoded c w" "w \<le> k"
  shows "utf8_step (take k a) = Decoded c w"
proof -
  have "utf8_step (take w a) = Decoded c w"
    using assms(1) by (cases a) (auto split: if_splits list.splits)
  moreover have "take k a = take w a @ take (k - w) (drop w a)" using assms(2) by (metis le_add_diff_inverse take_add)
  ultimately show ?thesis by (metis utf8_step_append(1))
qed

function from_utf8 :: "byte list \<Rightarrow> (utf8_error, rstr) rresult" where
  "from_utf8 bs =
     (if bs = [] then Inr []
      else (case utf8_step (map unat bs) of
              Cut \<Rightarrow> Inl \<lparr>valid_up_to = 0, error_len = None\<rparr>
            | Bad n \<Rightarrow> Inl \<lparr>valid_up_to = 0, error_len = Some n\<rparr>
            | Decoded c w \<Rightarrow>
                (case from_utf8 (drop w bs) of
                   Inr s \<Rightarrow> Inr (c # s)
                 | Inl e \<Rightarrow> Inl (e\<lparr>valid_up_to := w + valid_up_to e\<rparr>))))"
  by pat_completeness auto
termination
proof (relation "measure length")
  fix bs :: "byte list" and c w
  assume "bs \<noteq> []" "utf8_step (map unat bs) = Decoded c w"
  then show "(drop w bs, bs) \<in> measure length" using utf8_step_width by fastforce
qed simp

declare from_utf8.simps [simp del]


text \<open>What was decoded before, in front of the answer for the rest.\<close>

definition after :: "rstr \<Rightarrow> nat \<Rightarrow> (utf8_error, rstr) rresult \<Rightarrow> (utf8_error, rstr) rresult" where
  "after t n r = (case r of Inr s \<Rightarrow> Inr (t @ s) | Inl e \<Rightarrow> Inl (e\<lparr>valid_up_to := n + valid_up_to e\<rparr>))"

lemma after_simps [simp]:
  "after t n (Inr s) = Inr (t @ s)" "after t n (Inl e) = Inl (e\<lparr>valid_up_to := n + valid_up_to e\<rparr>)"
  "after [] 0 r = r" "after t n (after s m r) = after (t @ s) (n + m) r"
  by (auto simp: after_def split: sum.splits)

lemma from_utf8_Nil [simp]: "from_utf8 [] = Inr []"
  by (simp add: from_utf8.simps)

lemma from_utf8_char:
  "utf8_step (map unat bs) = Decoded c w \<Longrightarrow> from_utf8 bs = after [c] w (from_utf8 (drop w bs))"
  using utf8_step_width[of "map unat bs" c w] by (subst from_utf8.simps) (auto simp: after_def split: sum.splits)

lemma from_utf8_stop:
  "bs \<noteq> [] \<Longrightarrow> utf8_step (map unat bs) = Cut \<Longrightarrow> from_utf8 bs = Inl \<lparr>valid_up_to = 0, error_len = None\<rparr>"
  "bs \<noteq> [] \<Longrightarrow> utf8_step (map unat bs) = Bad n \<Longrightarrow> from_utf8 bs = Inl \<lparr>valid_up_to = 0, error_len = Some n\<rparr>"
  by (subst from_utf8.simps; simp)+

lemma from_utf8_append:
  fixes a b :: "byte list"
  shows "(case from_utf8 a of
      Inr t \<Rightarrow> from_utf8 (a @ b) = after t (length a) (from_utf8 b)
    | Inl e \<Rightarrow>
        (case error_len e of
           Some n \<Rightarrow> from_utf8 (a @ b) = Inl e
         | None \<Rightarrow> valid_up_to e < length a \<and>
             from_utf8 (drop (valid_up_to e) a) = Inl \<lparr>valid_up_to = 0, error_len = None\<rparr> \<and>
             (\<exists>t. from_utf8 (take (valid_up_to e) a) = Inr t \<and> (valid_up_to e = 0 \<longrightarrow> t = []) \<and>
                  from_utf8 (a @ b) = after t (valid_up_to e) (from_utf8 (drop (valid_up_to e) a @ b)))))"
proof (induction a rule: from_utf8.induct)
  case (1 a)
  show ?case
  proof (cases "a = []")
    case False
    show ?thesis
    proof (cases "utf8_step (map unat a)")
      case Cut
      with False show ?thesis by (simp add: from_utf8_stop)
    next
      case (Bad n)
      have "from_utf8 (a @ b) = Inl \<lparr>valid_up_to = 0, error_len = Some n\<rparr>"
        using False utf8_step_append(2)[of "map unat a" n "map unat b"] Bad by (simp add: from_utf8_stop)
      with False Bad show ?thesis by (simp add: from_utf8_stop)
    next
      case (Decoded c w)
      let ?d = "drop w a"
      have w: "0 < w" "w \<le> length a" using utf8_step_width[OF Decoded] by simp_all
      have fa: "from_utf8 a = after [c] w (from_utf8 ?d)" by (rule from_utf8_char[OF Decoded])
      have fab: "from_utf8 (a @ b) = after [c] w (from_utf8 (?d @ b))"
        using from_utf8_char[of "a @ b" c w] utf8_step_append(1)[OF Decoded, of "map unat b"] w by simp
      note ih = "1.IH"[OF False Decoded]
      show ?thesis
      proof (cases "from_utf8 ?d")
        case (Inr t)
        with ih fa fab w show ?thesis by simp
      next
        case (Inl e)
        show ?thesis
        proof (cases "error_len e")
          case (Some n)
          with Inl ih fa fab show ?thesis by simp
        next
          case None
          let ?v = "valid_up_to e"
          obtain t where t: "?v < length ?d" "from_utf8 (drop ?v ?d) = Inl \<lparr>valid_up_to = 0, error_len = None\<rparr>"
              "from_utf8 (take ?v ?d) = Inr t" "from_utf8 (?d @ b) = after t ?v (from_utf8 (drop ?v ?d @ b))"
            using ih Inl None by auto
          have "utf8_step (map unat (take (w + ?v) a)) = Decoded c w"
            using utf8_step_take[OF Decoded, of "w + ?v"] by (simp add: take_map)
          then have "from_utf8 (take (w + ?v) a) = Inr (c # t)"
            using from_utf8_char[of "take (w + ?v) a" c w] t(3) by (simp add: drop_take)
          with t fa fab Inl None w show ?thesis by (auto simp: add.commute)
        qed
      qed
    qed
  qed simp
qed


text \<open>Decoding is the inverse of encoding, on the scalar values of Rust's \<open>char\<close>.\<close>

definition scalar :: "rchar \<Rightarrow> bool" where
  "scalar c \<longleftrightarrow> c < 0xD800 \<or> 0xE000 \<le> c \<and> c < 0x110000"

definition utf8_char :: "rchar \<Rightarrow> nat list" where
  "utf8_char c =
     (if c < 0x80 then [c]
      else if c < 0x800 then [0xC0 + c div 64, 0x80 + c mod 64]
      else if c < 0x10000 then [0xE0 + c div 4096, 0x80 + c div 64 mod 64, 0x80 + c mod 64]
      else [0xF0 + c div 262144, 0x80 + c div 4096 mod 64, 0x80 + c div 64 mod 64, 0x80 + c mod 64])"

definition encode_utf8 :: "rstr \<Rightarrow> byte list" where
  "encode_utf8 t = map of_nat (concat (map utf8_char t))"

lemma utf8_char_bytes: "scalar c \<Longrightarrow> b \<in> set (utf8_char c) \<Longrightarrow> b < 256"
  by (auto simp: utf8_char_def scalar_def split: if_splits)

lemma utf8_steps:
  "2 \<le> x \<Longrightarrow> x < 32 \<Longrightarrow> y < 64 \<Longrightarrow> utf8_step ((0xC0 + x) # (0x80 + y) # r) = Decoded (x * 64 + y) 2"
  "x < 16 \<Longrightarrow> y < 64 \<Longrightarrow> z < 64 \<Longrightarrow> (x = 0 \<Longrightarrow> 32 \<le> y) \<Longrightarrow> (x = 13 \<Longrightarrow> y < 32) \<Longrightarrow>
   utf8_step ((0xE0 + x) # (0x80 + y) # (0x80 + z) # r) = Decoded ((x * 64 + y) * 64 + z) 3"
  "x < 5 \<Longrightarrow> y < 64 \<Longrightarrow> z < 64 \<Longrightarrow> w < 64 \<Longrightarrow> (x = 0 \<Longrightarrow> 16 \<le> y) \<Longrightarrow> (x = 4 \<Longrightarrow> y < 16) \<Longrightarrow>
   utf8_step ((0xF0 + x) # (0x80 + y) # (0x80 + z) # (0x80 + w) # r) = Decoded (((x * 64 + y) * 64 + z) * 64 + w) 4"
  by (auto simp: second_ok_def is_cont_def)

lemma utf8_step_char:
  assumes "scalar c"
  shows "utf8_step (utf8_char c @ r) = Decoded c (length (utf8_char c))"
proof -
  have d: "c = c div 64 * 64 + c mod 64" "c div 64 = c div 4096 * 64 + c div 64 mod 64"
      "c div 4096 = c div 262144 * 64 + c div 4096 mod 64"
    by (simp_all add: div_mult2_eq[of c 64 64, simplified] div_mult2_eq[of c 4096 64, simplified])
  consider "c < 0x80" | "0x80 \<le> c" "c < 0x800" | "0x800 \<le> c" "c < 0x10000" | "0x10000 \<le> c" "c < 0x110000"
    using assms unfolding scalar_def by linarith
  then show ?thesis
  proof cases
    case 1
    then show ?thesis by (simp add: utf8_char_def)
  next
    case 2
    have "utf8_step ((0xC0 + c div 64) # (0x80 + c mod 64) # r) = Decoded (c div 64 * 64 + c mod 64) 2"
      by (rule utf8_steps(1)) (use 2 in auto)
    then show ?thesis using 2 d(1) by (simp add: utf8_char_def del: utf8_step.simps)
  next
    case 3
    have "utf8_step ((0xE0 + c div 4096) # (0x80 + c div 64 mod 64) # (0x80 + c mod 64) # r) =
        Decoded ((c div 4096 * 64 + c div 64 mod 64) * 64 + c mod 64) 3"
      by (rule utf8_steps(2)) (use 3 d assms in \<open>auto simp: scalar_def\<close>)
    then show ?thesis using 3 d by (simp add: utf8_char_def del: utf8_step.simps)
  next
    case 4
    have "c div 4096 < 272" using 4 by simp
    have "utf8_step ((0xF0 + c div 262144) # (0x80 + c div 4096 mod 64) # (0x80 + c div 64 mod 64) # (0x80 + c mod 64) # r) =
        Decoded (((c div 262144 * 64 + c div 4096 mod 64) * 64 + c div 64 mod 64) * 64 + c mod 64) 4"
      by (rule utf8_steps(3)) (use 4 d \<open>c div 4096 < 272\<close> in auto)
    then show ?thesis using 4 d by (simp add: utf8_char_def del: utf8_step.simps)
  qed
qed

lemma from_utf8_encode:
  assumes "list_all scalar t"
  shows "from_utf8 (encode_utf8 t) = Inr t"
  using assms
proof (induction t)
  case Nil
  then show ?case by (simp add: encode_utf8_def)
next
  case (Cons c t)
  have "map unat (map (of_nat :: nat \<Rightarrow> byte) (utf8_char c)) = utf8_char c"
    using utf8_char_bytes[of c] Cons.prems by (auto simp: unat_of_nat intro!: map_idI)
  then have "utf8_step (map unat (encode_utf8 (c # t))) = Decoded c (length (utf8_char c))"
    using utf8_step_char[of c] Cons.prems by (simp add: encode_utf8_def)
  from from_utf8_char[OF this] Cons show ?case by (simp add: encode_utf8_def)
qed

section \<open>Bytes in front of a parser\<close>

datatype utf8_stream_parser_error = InvalidUtf8 nat nat | IncompleteUtf8AtEof

record 'p utf8_stream_parser =
  inner :: 'p
  pending_utf8 :: "byte list"

definition utf8_new :: "'p \<Rightarrow> 'p utf8_stream_parser" where
  "utf8_new p = \<lparr>inner = p, pending_utf8 = []\<rparr>"

text \<open>\<open>push_bytes\<close>, over the \<open>push_str\<close> of the inner parser.\<close>

definition push_bytes ::
  "('p \<Rightarrow> rstr \<Rightarrow> ('p \<times> 'x stream_text_chunk) option) \<Rightarrow> 'p utf8_stream_parser \<Rightarrow> byte list \<Rightarrow>
   ('p utf8_stream_parser \<times> (utf8_stream_parser_error, 'x stream_text_chunk) rresult) option" where
  "push_bytes push p chunk =
     (let old_len = length (pending_utf8 p); pending = pending_utf8 p @ chunk in
      case from_utf8 pending of
        Inr text \<Rightarrow>
          map_option (\<lambda>(i, out). (p\<lparr>inner := i, pending_utf8 := []\<rparr>, Inr out)) (push (inner p) text)
      | Inl err \<Rightarrow>
          (case error_len err of
             Some n \<Rightarrow> Some (p\<lparr>pending_utf8 := take old_len pending\<rparr>, Inl (InvalidUtf8 (valid_up_to err) n))
           | None \<Rightarrow>
               (let valid = valid_up_to err in
                if valid = 0 then Some (p\<lparr>pending_utf8 := pending\<rparr>, Inr chunk_default)
                else (case from_utf8 (take valid pending) of
                        Inl prefix_err \<Rightarrow>
                          Some (p\<lparr>pending_utf8 := take old_len pending\<rparr>,
                                Inl (InvalidUtf8 (valid_up_to prefix_err)
                                       (case error_len prefix_err of Some n \<Rightarrow> n | None \<Rightarrow> 0)))
                      | Inr text \<Rightarrow>
                          map_option (\<lambda>(i, out). (p\<lparr>inner := i, pending_utf8 := drop valid pending\<rparr>, Inr out))
                            (push (inner p) text)))))"

definition pending_error :: "utf8_error \<Rightarrow> utf8_stream_parser_error" where
  "pending_error err =
     (case error_len err of Some n \<Rightarrow> InvalidUtf8 (valid_up_to err) n | None \<Rightarrow> IncompleteUtf8AtEof)"

definition utf8_finish ::
  "('p \<Rightarrow> rstr \<Rightarrow> ('p \<times> 'x stream_text_chunk) option) \<Rightarrow> ('p \<Rightarrow> 'p \<times> 'x stream_text_chunk) \<Rightarrow>
   'p utf8_stream_parser \<Rightarrow>
   ('p utf8_stream_parser \<times> (utf8_stream_parser_error, 'x stream_text_chunk) rresult) option" where
  "utf8_finish push fin p =
     (if pending_utf8 p = []
      then (let (i, tail) = fin (inner p) in Some (p\<lparr>inner := i\<rparr>, Inr (chunk_append chunk_default tail)))
      else (case from_utf8 (pending_utf8 p) of
              Inl err \<Rightarrow> Some (p, Inl (pending_error err))
            | Inr text \<Rightarrow>
                map_option (\<lambda>(i, out).
                  (let (i', tail) = fin i
                   in (p\<lparr>inner := i', pending_utf8 := []\<rparr>, Inr (chunk_append out tail))))
                  (push (inner p) text)))"

definition into_inner :: "'p utf8_stream_parser \<Rightarrow> (utf8_stream_parser_error, 'p) rresult" where
  "into_inner p =
     (if pending_utf8 p = [] then Inr (inner p)
      else (case from_utf8 (pending_utf8 p) of
              Inr _ \<Rightarrow> Inr (inner p)
            | Inl err \<Rightarrow> Inl (pending_error err)))"

definition into_inner_lossy :: "'p utf8_stream_parser \<Rightarrow> 'p" where
  "into_inner_lossy p = inner p"

text \<open>A reader of a byte stream: every chunk in order up to the first error, then the end.\<close>

fun push_byte_chunks ::
  "('p \<Rightarrow> rstr \<Rightarrow> ('p \<times> 'x stream_text_chunk) option) \<Rightarrow> 'p utf8_stream_parser \<Rightarrow> byte list list \<Rightarrow>
   ('p utf8_stream_parser \<times> (utf8_stream_parser_error, 'x stream_text_chunk) rresult) option" where
  "push_byte_chunks push p [] = Some (p, Inr chunk_default)"
| "push_byte_chunks push p (c # cs) =
     Option.bind (push_bytes push p c) (\<lambda>(p1, r).
       case r of
         Inl e \<Rightarrow> Some (p1, Inl e)
       | Inr o1 \<Rightarrow>
           map_option (\<lambda>(p2, r2). (p2, case r2 of Inl e \<Rightarrow> Inl e | Inr o2 \<Rightarrow> Inr (chunk_append o1 o2)))
             (push_byte_chunks push p1 cs))"

definition collect_bytes ::
  "('p \<Rightarrow> rstr \<Rightarrow> ('p \<times> 'x stream_text_chunk) option) \<Rightarrow> ('p \<Rightarrow> 'p \<times> 'x stream_text_chunk) \<Rightarrow>
   'p utf8_stream_parser \<Rightarrow> byte list list \<Rightarrow> (utf8_stream_parser_error, 'x stream_text_chunk) rresult option" where
  "collect_bytes push fin p chunks =
     Option.bind (push_byte_chunks push p chunks) (\<lambda>(p', r).
       case r of
         Inl e \<Rightarrow> Some (Inl e)
       | Inr out \<Rightarrow>
           map_option (\<lambda>(_, r2). case r2 of Inl e \<Rightarrow> Inl e | Inr tail \<Rightarrow> Inr (chunk_append out tail))
             (utf8_finish push fin p'))"

definition partial :: "byte list \<Rightarrow> bool" where
  "partial bs \<longleftrightarrow> bs = [] \<or> from_utf8 bs = Inl \<lparr>valid_up_to = 0, error_len = None\<rparr>"

context stream_text_parser
begin

lemma push_bytes_step:
  assumes "good (inner p)"
  shows "\<exists>p' r. push_bytes push p chunk = Some (p', r) \<and>
    (case r of
       Inl e \<Rightarrow> p' = p \<and> (\<exists>v n. e = InvalidUtf8 v n \<and>
                  (\<forall>b. from_utf8 (pending_utf8 p @ chunk @ b) = Inl \<lparr>valid_up_to = v, error_len = Some n\<rparr>))
     | Inr out \<Rightarrow> good (inner p') \<and> partial (pending_utf8 p') \<and>
         (\<exists>t m. push (inner p) t = Some (inner p', out) \<and>
            (\<forall>b. from_utf8 (pending_utf8 p @ chunk @ b) = after t m (from_utf8 (pending_utf8 p' @ b)))))"
proof -
  let ?s = "pending_utf8 p @ chunk"
  have ap: "pending_utf8 p @ chunk @ b = ?s @ b" for b by simp
  show ?thesis
  proof (cases "from_utf8 ?s")
    case (Inr t)
    obtain s' c where "push (inner p) t = Some (s', c)" "good s'" using push_returns[OF assms] by blast
    then show ?thesis unfolding ap using from_utf8_append[of ?s] Inr
      by (auto simp: push_bytes_def partial_def)
  next
    case (Inl e)
    show ?thesis
    proof (cases "error_len e")
      case (Some n)
      then have "e = \<lparr>valid_up_to = valid_up_to e, error_len = Some n\<rparr>" by (cases e) simp
      then show ?thesis unfolding ap using from_utf8_append[of ?s] Inl Some
        by (auto simp: push_bytes_def)
    next
      case None
      let ?v = "valid_up_to e"
      obtain t where t: "from_utf8 (take ?v ?s) = Inr t" "?v = 0 \<longrightarrow> t = []"
        using from_utf8_append[of ?s "[]"] Inl None by auto
      have d: "from_utf8 (drop ?v ?s) = Inl \<lparr>valid_up_to = 0, error_len = None\<rparr>"
          "\<And>b. from_utf8 (?s @ b) = after t ?v (from_utf8 (drop ?v ?s @ b))"
        using from_utf8_append[of ?s] Inl None t(1) by simp_all
      obtain s' c where s': "push (inner p) t = Some (s', c)" "good s'" using push_returns[OF assms] by blast
      have "push_bytes push p chunk = Some (p\<lparr>inner := s', pending_utf8 := drop ?v ?s\<rparr>, Inr c)"
      proof (cases "?v = 0")
        case True
        then have "s' = inner p" "c = chunk_default" using t(2) s'(1) push_nothing[OF assms] by simp_all
        then show ?thesis using True Inl None by (simp add: push_bytes_def)
      next
        case False
        then show ?thesis using Inl None t(1) s'(1) by (simp add: push_bytes_def Let_def)
      qed
      then show ?thesis unfolding ap using s' d by (auto simp: partial_def intro!: exI)
    qed
  qed
qed

lemma push_byte_chunks_step:
  assumes "good (inner p)" "partial (pending_utf8 p)"
  shows "\<exists>p' r. push_byte_chunks push p cs = Some (p', r) \<and>
    (case r of
       Inl e \<Rightarrow> (\<exists>v w n. e = InvalidUtf8 v n \<and>
                  from_utf8 (pending_utf8 p @ concat cs) = Inl \<lparr>valid_up_to = w, error_len = Some n\<rparr>)
     | Inr out \<Rightarrow> partial (pending_utf8 p') \<and>
         (\<exists>ts m. push_chunks push (inner p) ts = Some (inner p', out) \<and>
            from_utf8 (pending_utf8 p @ concat cs) = after (concat ts) m (from_utf8 (pending_utf8 p'))))"
  using assms
proof (induction cs arbitrary: p)
  case Nil
  show ?case using Nil by (auto intro!: exI[of _ "[]"] exI[of _ "0 :: nat"])
next
  case (Cons c cs)
  obtain p1 r1 where r1: "push_bytes push p c = Some (p1, r1)"
    "case r1 of
       Inl e \<Rightarrow> p1 = p \<and> (\<exists>v n. e = InvalidUtf8 v n \<and>
                  (\<forall>b. from_utf8 (pending_utf8 p @ c @ b) = Inl \<lparr>valid_up_to = v, error_len = Some n\<rparr>))
     | Inr out \<Rightarrow> good (inner p1) \<and> partial (pending_utf8 p1) \<and>
         (\<exists>t m. push (inner p) t = Some (inner p1, out) \<and>
            (\<forall>b. from_utf8 (pending_utf8 p @ c @ b) = after t m (from_utf8 (pending_utf8 p1 @ b))))"
    using push_bytes_step[OF Cons.prems(1)] by blast
  show ?case
  proof (cases r1)
    case (Inl e)
    with r1 show ?thesis by auto
  next
    case (Inr o1)
    obtain t m where t: "good (inner p1)" "partial (pending_utf8 p1)" "push (inner p) t = Some (inner p1, o1)"
        "\<And>b. from_utf8 (pending_utf8 p @ c @ b) = after t m (from_utf8 (pending_utf8 p1 @ b))"
      using r1(2) Inr by auto
    obtain p2 r2 where r2: "push_byte_chunks push p1 cs = Some (p2, r2)"
      "case r2 of
         Inl e \<Rightarrow> (\<exists>v w n. e = InvalidUtf8 v n \<and>
                    from_utf8 (pending_utf8 p1 @ concat cs) = Inl \<lparr>valid_up_to = w, error_len = Some n\<rparr>)
       | Inr out \<Rightarrow> partial (pending_utf8 p2) \<and>
           (\<exists>ts m. push_chunks push (inner p1) ts = Some (inner p2, out) \<and>
              from_utf8 (pending_utf8 p1 @ concat cs) = after (concat ts) m (from_utf8 (pending_utf8 p2)))"
      using Cons.IH[OF t(1,2)] by blast
    show ?thesis
    proof (cases r2)
      case (Inl e)
      with r1(1) r2 Inr t(4) show ?thesis by auto
    next
      case Inr2: (Inr o2)
      then obtain ts k where ts: "partial (pending_utf8 p2)" "push_chunks push (inner p1) ts = Some (inner p2, o2)"
          "from_utf8 (pending_utf8 p1 @ concat cs) = after (concat ts) k (from_utf8 (pending_utf8 p2))"
        using r2(2) by auto
      have "push_chunks push (inner p) (t # ts) = Some (inner p2, chunk_append o1 o2)"
        using t(3) ts(2) by simp
      moreover have "from_utf8 (pending_utf8 p @ concat (c # cs)) = after (concat (t # ts)) (m + k) (from_utf8 (pending_utf8 p2))"
        using t(4) ts(3) by simp
      moreover have "push_byte_chunks push p (c # cs) = Some (p2, Inr (chunk_append o1 o2))"
        using r1(1) Inr r2(1) Inr2 by simp
      ultimately show ?thesis using ts(1)
        by (intro exI[of _ p2] exI[of _ "Inr (chunk_append o1 o2)"]) (unfold sum.case, blast)
    qed
  qed
qed

lemma bytes_irrelevant:
  assumes "good s"
  shows "case from_utf8 (concat cs) of
      Inr t \<Rightarrow> (\<exists>s' c d. push s t = Some (s', c) \<and> same_chunk obs c d \<and>
                 collect_bytes push fin (utf8_new s) cs = Some (Inr (chunk_append d (snd (fin s')))))
    | Inl e \<Rightarrow> (\<exists>v. collect_bytes push fin (utf8_new s) cs =
                 Some (Inl (case error_len e of Some n \<Rightarrow> InvalidUtf8 v n | None \<Rightarrow> IncompleteUtf8AtEof)))"
proof -
  have start: "good (inner (utf8_new s))" "partial (pending_utf8 (utf8_new s))"
    using assms by (simp_all add: utf8_new_def partial_def)
  have new: "inner (utf8_new s) = s" "pending_utf8 (utf8_new s) = []" by (simp_all add: utf8_new_def)
  obtain p' r where r: "push_byte_chunks push (utf8_new s) cs = Some (p', r)"
    "case r of
       Inl e \<Rightarrow> (\<exists>v w n. e = InvalidUtf8 v n \<and> from_utf8 (concat cs) = Inl \<lparr>valid_up_to = w, error_len = Some n\<rparr>)
     | Inr out \<Rightarrow> partial (pending_utf8 p') \<and>
         (\<exists>ts m. push_chunks push s ts = Some (inner p', out) \<and>
            from_utf8 (concat cs) = after (concat ts) m (from_utf8 (pending_utf8 p')))"
    using push_byte_chunks_step[OF start, of cs] unfolding new append_Nil by blast
  show ?thesis
  proof (cases r)
    case (Inl e)
    with r show ?thesis by (auto simp: collect_bytes_def)
  next
    case (Inr out)
    obtain ts m where ts: "partial (pending_utf8 p')" "push_chunks push s ts = Some (inner p', out)"
        "from_utf8 (concat cs) = after (concat ts) m (from_utf8 (pending_utf8 p'))"
      using r(2) Inr by auto
    obtain c where c: "push s (concat ts) = Some (inner p', c)" "same_chunk obs c out"
      using chunks_irrelevant[OF assms, of ts] ts(2) by auto
    show ?thesis
    proof (cases "pending_utf8 p' = []")
      case True
      then have "collect_bytes push fin (utf8_new s) cs = Some (Inr (chunk_append out (snd (fin (inner p')))))"
        using r(1) Inr by (simp add: collect_bytes_def utf8_finish_def case_prod_beta)
      with True ts(3) c show ?thesis by auto
    next
      case False
      then have e: "from_utf8 (pending_utf8 p') = Inl \<lparr>valid_up_to = 0, error_len = None\<rparr>"
        using ts(1) by (simp add: partial_def)
      then have "collect_bytes push fin (utf8_new s) cs = Some (Inl IncompleteUtf8AtEof)"
        using r(1) Inr False by (simp add: collect_bytes_def utf8_finish_def pending_error_def)
      with ts(3) e show ?thesis by simp
    qed
  qed
qed

end

text \<open>
  C31. A byte stream in front of the citation parser, cut anywhere, also inside a character: if the
  bytes together are UTF-8, reading them returns what the parser makes of the decoded text, its
  shown part and its citations; if they are not, the reader gets an error, the invalid sequence
  with its length or the incomplete character at the end.
\<close>

theorem byte_stream_citations:
  "case from_utf8 (concat chunks) of
     Inr t \<Rightarrow> collect_bytes citation_push_str citation_finish (utf8_new citation_new) chunks =
              Some (Inr \<lparr>visible_text = fst (split_citations t), extracted = snd (split_citations t)\<rparr>)
   | Inl e \<Rightarrow> \<exists>v. collect_bytes citation_push_str citation_finish (utf8_new citation_new) chunks =
              Some (Inl (case error_len e of Some n \<Rightarrow> InvalidUtf8 v n | None \<Rightarrow> IncompleteUtf8AtEof))"
proof (cases "from_utf8 (concat chunks)")
  case (Inl e)
  then show ?thesis using citations.bytes_irrelevant[OF citation_new_good, where cs = chunks and fin = citation_finish] by simp
next
  case (Inr t)
  obtain p c d where r: "citation_push_str citation_new t = Some (p, c)" "same_chunk (\<lambda>x. x) c d"
      "collect_bytes citation_push_str citation_finish (utf8_new citation_new) chunks =
       Some (Inr (chunk_append d (snd (citation_finish p))))"
    using citations.bytes_irrelevant[OF citation_new_good, where cs = chunks and fin = citation_finish] Inr by auto
  have "d = c" using r(2) by (cases c; cases d) (simp add: same_chunk_def)
  then show ?thesis using citation_push_new[of t] r Inr by auto
qed

end
