(* ===== verification/Spec2Isabelle.thy ===== *)
theory Spec2Isabelle
  imports Streaming_Roundtrip Apply_Patch Head_Tail_Buffer History Loop_Guard Repeat_Guard Policy_Parser Network_Spec
    Utf8_Stream
begin

text \<open>
  A verification library for the agent core of the command line coding agent under
  \<open>codex-rs\<close>. Paths below are relative to \<open>src/codex-rs\<close>.

  \<^bold>\<open>The program.\<close> An agent session talks to a model, runs the tools the model asks for and
  records what happened. This library follows the parts of a session that decide what may
  happen and what is remembered:

  \<^item> patches: the model edits files through a patch language (\<open>apply-patch\<close>);
  \<^item> commands: before a shell command runs, it is taken apart (\<open>shell-command\<close>), checked against
    the rules of the user and of the organisation (\<open>execpolicy\<close>) and answered with an approval
    requirement (\<open>core/src/exec_policy.rs\<close>);
  \<^item> network: commands reach the network through a proxy with lists of domains and managed
    constraints (\<open>network-proxy\<close>), whose settings a session puts together from the
    configuration, the requirements and the network rules of the exec policy
    (\<open>core/src/config/network_proxy_spec.rs\<close>);
  \<^item> memory: the transcript is recorded, repaired, cut and counted
    (\<open>core/src/context_manager\<close>, \<open>utils/output-truncation\<close>,
    \<open>core/src/unified_exec/head_tail_buffer.rs\<close>);
  \<^item> text: the answer of the model is shown while it arrives, without its citations and with its
    proposed plans set apart (\<open>utils/stream-parser\<close>);
  \<^item> loops: repeated calls and looping completions are recognised and answered
    (\<open>core/src/tools/repeat_guard.rs\<close>, \<open>core/src/pathology.rs\<close>).

  \<^bold>\<open>Conventions.\<close> A \<open>char\<close> is its code point, a \<open>str\<close> a list of characters, a \<open>Vec\<close> a list, a
  \<open>BTreeMap\<close> an association list in key order, a \<open>HashMap\<close> a partial map; \<open>Result\<close> is a sum with the
  error on the left; a panic is the value None. Integers that may wrap or saturate keep their
  bounds. Code outside the repository (file systems, \<open>globset\<close>, \<open>url\<close>, tree-sitter, the
  Starlark interpreter, JSON, \<open>f32\<close> arithmetic, DNS, the clock) is an argument or a record of
  functions; what is assumed of it is a named predicate (\<open>fs_laws\<close>, \<open>set_law\<close>, \<open>glob_law\<close>,
  \<open>amend_laws\<close>), and each theorem that assumes one has a witness on a concrete instance.

  \<^bold>\<open>Theories.\<close>

  \<^descr> \<open>Rust_Prelude\<close> the vocabulary of \<open>std\<close> (trimming, splitting, searching, saturation) and
    the locales \<open>simulation\<close> and \<open>preserves\<close>, from which the refinement and invariant
    theorems of the stateful components are obtained by interpretation.
  \<^descr> \<open>Absolute_Path\<close> \<open>utils/absolute-path\<close>: \<open>resolve_path_against_base\<close> and its parts. Resolved
    paths are absolute and normalised.
  \<^descr> \<open>Seek_Sequence\<close> \<open>apply-patch/src/seek_sequence.rs\<close>: the four passes of the fuzzy search
    answer with the leftmost match of the strictest pass.
  \<^descr> \<open>Patch_Parser\<close>, \<open>Patch_Render\<close> \<open>apply-patch/src/parser.rs\<close>: the batch parser, the written
    form of a patch after the grammar, and the round trip between them.
  \<^descr> \<open>Streaming_Patch\<close>, \<open>Streaming_Roundtrip\<close> \<open>apply-patch/src/streaming_parser.rs\<close>: the state
    machine that follows a patch while it arrives, the invariant of its hunks and its agreement
    with the batch parser, but for trailing blanks, for every way of cutting the text.
  \<^descr> \<open>Patch_Replace\<close> \<open>compute_replacements\<close> and \<open>apply_replacements\<close> of \<open>apply-patch/src/lib.rs\<close>:
    applying the scheduled replacements is a splice of the file.
  \<^descr> \<open>Apply_Patch\<close> the effects of \<open>apply-patch/src/lib.rs\<close> on a file system given by its
    operations: the reported delta replays to the final contents and undoes to the initial ones,
    also when a step fails.
  \<^descr> \<open>Head_Tail_Buffer\<close> the output buffer refines a log of bytes of which it shows both ends.
  \<^descr> \<open>Text_Truncation\<close> truncation in the middle stays within its budget, keeps whole characters
    of both ends and never panics.
  \<^descr> \<open>Protocol_Models\<close>, \<open>Contextual_Fragments\<close> the response items of \<open>protocol/src/models.rs\<close>
    and the recognition of context messages (\<open>core/src/context\<close>, \<open>core/src/event_mapping.rs\<close>).
  \<^descr> \<open>History_Normalize\<close>, \<open>History\<close> \<open>core/src/context_manager\<close>: the history sent to
    the model and the history after a rollback are described exactly, calls and outputs are paired,
    token counts neither overflow nor lose what the server said.
  \<^descr> \<open>Loop_Guard\<close>, \<open>Repeat_Guard\<close> penalties, retry budgets and the window of recent calls refine
    counters and logs.
  \<^descr> \<open>Exec_Policy\<close>, \<open>Policy_Amend\<close>, \<open>Policy_Parser\<close> the crate \<open>execpolicy\<close>: rules, overlays and
    network rules, rule files and their examples, and amendments of a rule file.
  \<^descr> \<open>Bash_Commands\<close>, \<open>Command_Safety\<close> the crate \<open>shell-command\<close>: which commands a script
    consists of, and the lists of safe and dangerous ones.
  \<^descr> \<open>Exec_Approval\<close> \<open>core/src/exec_policy.rs\<close>: the approval requirement of a command line and
    the amendments an approval may add.
  \<^descr> \<open>Network_Addresses\<close>, \<open>Network_Hosts\<close> \<open>network-proxy/src/policy.rs\<close>: address ranges, host
    spellings, domain patterns and the compiled lists.
  \<^descr> \<open>Network_Settings\<close>, \<open>Mitm_Hooks\<close> \<open>network-proxy/src/config.rs\<close> and \<open>mitm_hook.rs\<close>: settings,
    entries, bind addresses, and hooks on intercepted requests.
  \<^descr> \<open>Network_Constraints\<close> \<open>network-proxy/src/state.rs\<close>: a configuration against the managed
    constraints.
  \<^descr> \<open>Network_Proxy\<close> \<open>network-proxy/src/runtime.rs\<close> and \<open>network_policy.rs\<close>: the shared state and
    its decisions. The tasks that read, compute and write it are a step relation; the invariant
    holds for all of their interleavings, and the retry loops end. The check of
    \<open>core/src/network_proxy_loader.rs\<close> gives the states a reload may bring in.
  \<^descr> \<open>Network_Spec\<close> \<open>core/src/config/network_proxy_spec.rs\<close>: the settings of a session. Its
    theorems span the exec policy and the proxy.
  \<^descr> \<open>Stream_Parsers\<close>, \<open>Assistant_Text\<close> \<open>utils/stream-parser\<close>: hidden inline tags, citations, tags
    on lines of their own, proposed plans and the parser of the assistant's text. The locale
    \<open>stream_text_parser\<close> is the trait \<open>StreamTextParser\<close> with its law, that the cuts between the
    chunks do not matter; the four parsers interpret it, and their answers are those of a
    definition over the whole text.
  \<^descr> \<open>Utf8_Stream\<close> \<open>utils/stream-parser/src/utf8_stream.rs\<close>: bytes in front of any such parser.

  \<^bold>\<open>Bounds and fuel.\<close> Every recursive definition is a total function with a termination proof
  or recurses on its data, with two exceptions. The loop of the inline tag parser is a partial
  function whose non-termination would be None, and \<open>inline_loop_ends\<close> shows that it returns. The
  update loops of the proxy wait for others: they take the list of rounds the other tasks allow
  them, and \<open>updates_end\<close> says which lists are long enough.

  \<^bold>\<open>Not modelled.\<close> The terminal interface, the application server and its clients, the command
  line front ends, login and keyrings, model providers and transport, telemetry, plugins,
  skills, memories, and the sandboxes, which are input and output, generated code or calls into
  the operating system; the state database and the rollout files (SQL and JSON lines); the
  sockets, TLS and HTTP forwarding of the proxy (the crates \<open>rama\<close> and \<open>rustls\<close>), whose decisions are
  those of \<open>Network_Proxy\<close>; the layers of the configuration file, from which the
  settings, requirements and rule files of this library are read; serde encodings; the branches
  compiled for Windows; log lines.
\<close>

end
